(* ===== verification/Gopr_Prelude.thy ===== *)
theory Gopr_Prelude
  imports Main "HOL-Library.Word"
begin

text \<open>
  What every other theory of the development shares: the error results of the Go code as sums,
  bytes as 8-bit words, the collections of facts the component proofs pull in, and generic
  lemmas on lists that the string layer needs.
\<close>

named_theorems gostr \<open>defining equations of the Go string functions, for evaluation\<close>
named_theorems parse_defs \<open>definitions of the command-line parser\<close>
named_theorems wire_defs \<open>definitions of the SOCKS wire format\<close>
named_theorems conn_defs \<open>definitions of the connection model\<close>

type_synonym byte = "8 word"

text \<open>A Go function returning \<open>(T, error)\<close> is a sum: \<open>Inl\<close> the error, \<open>Inr\<close> the value.\<close>

type_synonym ('e, 'a) result = "'e + 'a"

fun bindR :: "('e, 'a) result \<Rightarrow> ('a \<Rightarrow> ('e, 'b) result) \<Rightarrow> ('e, 'b) result" where
  "bindR (Inl e) f = Inl e"
| "bindR (Inr x) f = f x"

lemma bindR_Inr_iff [simp]:
  "bindR r f = Inr y \<longleftrightarrow> (\<exists>x. r = Inr x \<and> f x = Inr y)"
  by (cases r) auto

lemma bindR_Inl_iff:
  "bindR r f = Inl e \<longleftrightarrow> r = Inl e \<or> (\<exists>x. r = Inr x \<and> f x = Inl e)"
  by (cases r) auto

text \<open>An early return \<open>if cond \<lbrace> return err \<rbrace>\<close> in front of the rest of a function.\<close>

definition guardR :: "bool \<Rightarrow> 'e \<Rightarrow> ('e, unit) result" where
  "guardR bad e = (if bad then Inl e else Inr ())"

lemma guardR_Inr [simp]: "guardR b e = Inr u \<longleftrightarrow> \<not> b"
  by (auto simp: guardR_def)

lemma guardR_Inl [simp]: "guardR b e = Inl e' \<longleftrightarrow> b \<and> e' = e"
  by (auto simp: guardR_def)

lemma bindR_guardR: "bindR (guardR b e) f = (if b then Inl e else f ())"
  by (simp add: guardR_def)

lemma sum_not_Inl: "(\<forall>e. r \<noteq> Inl e) \<longleftrightarrow> (\<exists>x. r = Inr x)"
  by (cases r) auto

text \<open>Splitting a list at the first or last element with a property.\<close>

lemma takeWhile_neq_hd_dropWhile:
  assumes "c \<in> set s"
  shows "s = takeWhile (\<lambda>x. x \<noteq> c) s @ c # tl (dropWhile (\<lambda>x. x \<noteq> c) s)"
proof -
  have ne: "dropWhile (\<lambda>x. x \<noteq> c) s \<noteq> []"
    using assms by auto
  then have "hd (dropWhile (\<lambda>x. x \<noteq> c) s) = c"
    using hd_dropWhile by blast
  with ne have "dropWhile (\<lambda>x. x \<noteq> c) s = c # tl (dropWhile (\<lambda>x. x \<noteq> c) s)"
    by (metis list.collapse)
  then show ?thesis
    by (metis takeWhile_dropWhile_id)
qed

lemma takeWhile_neq_append:
  "c \<notin> set xs \<Longrightarrow> takeWhile (\<lambda>x. x \<noteq> c) (xs @ c # ys) = xs"
  by (induction xs) auto

lemma dropWhile_neq_append:
  "c \<notin> set xs \<Longrightarrow> dropWhile (\<lambda>x. x \<noteq> c) (xs @ c # ys) = c # ys"
  by (induction xs) auto

lemma set_takeWhile_neq: "c \<notin> set (takeWhile (\<lambda>x. x \<noteq> c) s)"
  by (auto dest: set_takeWhileD)

lemma length_takeWhile_neq_append:
  "c \<notin> set xs \<Longrightarrow> length (takeWhile (\<lambda>x. x \<noteq> c) (xs @ c # ys)) = length xs"
  by (simp add: takeWhile_neq_append)

end
