(* ===== verification/Go_Strings.thy ===== *)
theory Go_Strings
  imports Gopr_Prelude
begin

text \<open>
  The functions of Go's \<open>strings\<close> and \<open>strconv\<close> packages that the source calls. A Go string is
  a sequence of bytes, here a \<^typ>\<open>string\<close> (a list of 8-bit characters). Case mapping is the ASCII
  mapping plus the non-ASCII letters whose upper or lower case is an ASCII letter (the long s and
  the dotless i going up, the Kelvin sign and the dotted capital I going down); other runes are
  left as they are, which cannot make a string equal to one of the ASCII keywords the source
  compares with, and at most changes which of two errors is reported for such a string.
\<close>

section \<open>Searching and cutting\<close>

definition IndexByte :: "string \<Rightarrow> char \<Rightarrow> int" where
  [gostr]: "IndexByte s c =
     (if c \<in> set s then int (length (takeWhile (\<lambda>x. x \<noteq> c) s)) else - 1)"

definition LastIndexByte :: "string \<Rightarrow> char \<Rightarrow> int" where
  [gostr]: "LastIndexByte s c =
     (if c \<in> set s then int (length s) - 1 - int (length (takeWhile (\<lambda>x. x \<noteq> c) (rev s)))
      else - 1)"

definition sliceTo :: "string \<Rightarrow> int \<Rightarrow> string" where
  [gostr]: "sliceTo s i = take (nat i) s"

definition sliceFrom :: "string \<Rightarrow> int \<Rightarrow> string" where
  [gostr]: "sliceFrom s i = drop (nat i) s"

definition ContainsByte :: "string \<Rightarrow> char \<Rightarrow> bool" where
  [gostr]: "ContainsByte s c = (c \<in> set s)"

fun HasPrefix :: "string \<Rightarrow> string \<Rightarrow> bool" where
  "HasPrefix s [] = True"
| "HasPrefix [] (p # ps) = False"
| "HasPrefix (x # xs) (p # ps) = (x = p \<and> HasPrefix xs ps)"

definition TrimPrefix :: "string \<Rightarrow> string \<Rightarrow> string" where
  [gostr]: "TrimPrefix s p = (if HasPrefix s p then drop (length p) s else s)"

fun ContainsStr :: "string \<Rightarrow> string \<Rightarrow> bool" where
  "ContainsStr [] t = (t = [])"
| "ContainsStr (x # xs) t = (HasPrefix (x # xs) t \<or> ContainsStr xs t)"

fun splitByte :: "char \<Rightarrow> string \<Rightarrow> string list" where
  "splitByte c [] = [[]]"
| "splitByte c (x # xs) =
     (if x = c then [] # splitByte c xs
      else (case splitByte c xs of [] \<Rightarrow> [[x]] | g # gs \<Rightarrow> (x # g) # gs))"

fun joinByte :: "char \<Rightarrow> string list \<Rightarrow> string" where
  "joinByte c [] = []"
| "joinByte c [g] = g"
| "joinByte c (g # h # gs) = g @ c # joinByte c (h # gs)"

definition Cut :: "string \<Rightarrow> char \<Rightarrow> string \<times> string \<times> bool" where
  [gostr]: "Cut s c =
     (if c \<in> set s then (takeWhile (\<lambda>x. x \<noteq> c) s, tl (dropWhile (\<lambda>x. x \<noteq> c) s), True)
      else (s, [], False))"

definition trimBytes :: "char set \<Rightarrow> string \<Rightarrow> string" where
  [gostr]: "trimBytes cs s = rev (dropWhile (\<lambda>x. x \<in> cs) (rev (dropWhile (\<lambda>x. x \<in> cs) s)))"

lemma HasPrefix_append [simp]: "HasPrefix (p @ s) p"
  by (induction p) auto

lemma HasPrefix_iff: "HasPrefix s p \<longleftrightarrow> (\<exists>t. s = p @ t)"
  by (induction s p rule: HasPrefix.induct) auto

lemma TrimPrefix_append [simp]: "TrimPrefix (p @ s) p = s"
  by (simp add: TrimPrefix_def)

lemma splitByte_not_Nil [simp]: "splitByte c s \<noteq> []"
  by (induction s) (auto split: list.splits)

lemma joinByte_Cons: "gs \<noteq> [] \<Longrightarrow> joinByte c (g # gs) = g @ c # joinByte c gs"
  by (cases gs) auto

lemma joinByte_splitByte [simp]: "joinByte c (splitByte c s) = s"
proof (induction s)
  case Nil
  then show ?case by simp
next
  case (Cons x xs)
  obtain g gs where g: "splitByte c xs = g # gs"
    by (meson list.exhaust splitByte_not_Nil)
  with Cons show ?case
    by (cases gs) (auto simp: joinByte_Cons)
qed

lemma splitByte_no_sep: "g \<in> set (splitByte c s) \<Longrightarrow> c \<notin> set g"
proof (induction s arbitrary: g)
  case Nil
  then show ?case by simp
next
  case (Cons x xs)
  obtain h hs where "splitByte c xs = h # hs"
    by (meson list.exhaust splitByte_not_Nil)
  with Cons show ?case
    by (auto split: if_splits)
qed

lemma splitByte_self: "c \<notin> set s \<Longrightarrow> splitByte c s = [s]"
  by (induction s) auto

lemma splitByte_append: "c \<notin> set g \<Longrightarrow> splitByte c (g @ c # s) = g # splitByte c s"
  by (induction g) auto

lemma splitByte_joinByte:
  "gs \<noteq> [] \<Longrightarrow> \<forall>g \<in> set gs. c \<notin> set g \<Longrightarrow> splitByte c (joinByte c gs) = gs"
proof (induction gs)
  case (Cons g gs)
  then show ?case
    by (cases "gs = []") (auto simp: splitByte_self joinByte_Cons splitByte_append)
qed simp

lemma Cut_append: "c \<notin> set a \<Longrightarrow> Cut (a @ c # b) c = (a, b, True)"
  by (simp add: Cut_def takeWhile_neq_append dropWhile_neq_append)

lemma Cut_TrueD: "Cut s c = (a, b, True) \<Longrightarrow> s = a @ c # b \<and> c \<notin> set a"
  by (auto simp: Cut_def takeWhile_neq_hd_dropWhile [symmetric] dest: set_takeWhileD split: if_splits)

lemma IndexByte_neg [simp]: "IndexByte s c < 0 \<longleftrightarrow> c \<notin> set s"
  by (simp add: IndexByte_def)

lemma IndexByte_nonneg [simp]: "0 \<le> IndexByte s c \<longleftrightarrow> c \<in> set s"
  by (simp add: IndexByte_def)

lemma IndexByte_append: "c \<notin> set a \<Longrightarrow> IndexByte (a @ c # b) c = int (length a)"
  by (simp add: IndexByte_def takeWhile_neq_append)

lemma IndexByte_split:
  assumes "c \<in> set s"
  obtains a b where "s = a @ c # b" "c \<notin> set a" "IndexByte s c = int (length a)"
proof -
  obtain a b where s: "s = a @ c # b" and a: "c \<notin> set a"
    using split_list_first [OF assms] by blast
  show thesis
    using that [OF s a] IndexByte_append [OF a, of b] s by simp
qed

lemma LastIndexByte_neg [simp]: "LastIndexByte s c < 0 \<longleftrightarrow> c \<notin> set s"
proof -
  have "length (takeWhile (\<lambda>x. x \<noteq> c) (rev s)) < length s" if "c \<in> set s"
  proof -
    from that have "takeWhile (\<lambda>x. x \<noteq> c) (rev s) \<noteq> rev s"
      by (metis set_rev set_takeWhile_neq)
    then show ?thesis
      by (metis length_rev length_takeWhile_le nat_less_le takeWhile_eq_take take_all_iff)
  qed
  then show ?thesis
    by (auto simp: LastIndexByte_def)
qed

lemma LastIndexByte_append: "c \<notin> set b \<Longrightarrow> LastIndexByte (a @ c # b) c = int (length a)"
  by (simp add: LastIndexByte_def takeWhile_neq_append)

lemma LastIndexByte_split:
  assumes "c \<in> set s"
  obtains a b where "s = a @ c # b" "c \<notin> set b" "LastIndexByte s c = int (length a)"
proof -
  obtain a b where s: "s = a @ c # b" and b: "c \<notin> set b"
    using split_list_last [OF assms] by blast
  show thesis
    using that [OF s b] LastIndexByte_append [OF b, of a] s by simp
qed

lemma slice_append:
  "sliceTo (a @ c # b) (int (length a)) = a"
  "sliceFrom (a @ c # b) (int (length a) + 1) = b"
  "sliceFrom (a @ c # b) (1 + int (length a)) = b"
  by (simp_all add: sliceTo_def sliceFrom_def nat_add_distrib)

lemma trimBytes_id:
  assumes "set s \<inter> cs = {}"
  shows "trimBytes cs s = s"
proof -
  have "dropWhile (\<lambda>x. x \<in> cs) t = t" if "set t \<inter> cs = {}" for t
    using that by (cases t) auto
  with assms show ?thesis by (simp add: trimBytes_def)
qed

lemma trimBytes_bracketed:
  assumes "set s \<inter> cs = {}" "set l \<subseteq> cs" "set r \<subseteq> cs"
  shows "trimBytes cs (l @ s @ r) = s"
proof -
  have l: "dropWhile (\<lambda>x. x \<in> cs) (t @ u) = dropWhile (\<lambda>x. x \<in> cs) u" if "set t \<subseteq> cs" for t u
    using that by (induction t) auto
  show ?thesis
  proof (cases s)
    case Nil
    have lr: "dropWhile (\<lambda>x. x \<in> cs) (l @ r) = []"
      unfolding dropWhile_eq_Nil_conv using assms by auto
    show ?thesis
      unfolding Nil trimBytes_def append_Nil lr by simp
  next
    case (Cons x xs)
    then have 1: "dropWhile (\<lambda>x. x \<in> cs) (l @ s @ r) = s @ r"
      using assms l [of l "s @ r"] by auto
    have "s \<noteq> []" using Cons by simp
    then have "last s \<notin> cs" using assms(1) last_in_set by blast
    then have "dropWhile (\<lambda>x. x \<in> cs) (rev s) = rev s"
      by (simp add: dropWhile_eq_self_iff hd_rev)
    then have 2: "dropWhile (\<lambda>x. x \<in> cs) (rev r @ rev s) = rev s"
      using assms(3) l [of "rev r" "rev s"] by simp
    from 1 2 show ?thesis by (simp add: trimBytes_def)
  qed
qed

section \<open>Case mapping\<close>

definition upperChar :: "char \<Rightarrow> char" where
  [gostr]: "upperChar c =
     (let n = of_char c :: nat in if 97 \<le> n \<and> n \<le> 122 then char_of (n - 32) else c)"

definition lowerChar :: "char \<Rightarrow> char" where
  [gostr]: "lowerChar c =
     (let n = of_char c :: nat in if 65 \<le> n \<and> n \<le> 90 then char_of (n + 32) else c)"

text \<open>\<open>strings.ToUpper\<close>: U+017F (long s) and U+0131 (dotless i) become \<open>S\<close> and \<open>I\<close>.\<close>

fun ToUpper :: "string \<Rightarrow> string" where
  "ToUpper [] = []"
| "ToUpper (x # y # xs) =
     (if x = CHR 0xC5 \<and> y = CHR 0xBF then CHR ''S'' # ToUpper xs
      else if x = CHR 0xC4 \<and> y = CHR 0xB1 then CHR ''I'' # ToUpper xs
      else upperChar x # ToUpper (y # xs))"
| "ToUpper [x] = [upperChar x]"

text \<open>\<open>strings.ToLower\<close>: U+0130 (dotted I) and U+212A (Kelvin) become \<open>i\<close> and \<open>k\<close>.\<close>

fun ToLower :: "string \<Rightarrow> string" where
  "ToLower [] = []"
| "ToLower (x # xs) =
     (if x = CHR 0xC4 \<and> take 1 xs = [CHR 0xB0] then CHR ''i'' # ToLower (drop 1 xs)
      else if x = CHR 0xE2 \<and> take 2 xs = [CHR 0x84, CHR 0xAA] then CHR ''k'' # ToLower (drop 2 xs)
      else lowerChar x # ToLower xs)"

text \<open>
  \<open>strings.EqualFold\<close>, for an ASCII second argument (all its uses here): the long s folds with
  \<open>s\<close> and the Kelvin sign with \<open>k\<close>; no other non-ASCII rune folds with an ASCII letter.
\<close>

fun foldKey :: "string \<Rightarrow> string" where
  "foldKey [] = []"
| "foldKey (x # xs) =
     (if x = CHR 0xC5 \<and> take 1 xs = [CHR 0xBF] then CHR ''s'' # foldKey (drop 1 xs)
      else if x = CHR 0xE2 \<and> take 2 xs = [CHR 0x84, CHR 0xAA] then CHR ''k'' # foldKey (drop 2 xs)
      else lowerChar x # foldKey xs)"

definition EqualFold :: "string \<Rightarrow> string \<Rightarrow> bool" where
  [gostr]: "EqualFold s t = (foldKey s = foldKey t)"

section \<open>White space\<close>

text \<open>
  The UTF-8 encodings of the runes for which \<open>unicode.IsSpace\<close> holds. \<open>strings.TrimSpace\<close> strips
  them from both ends; at the end of the string the encodings are matched backwards.
\<close>

definition spaceRunes :: "string list" where
  "spaceRunes =
     [[CHR 0x09], [CHR 0x0A], [CHR 0x0B], [CHR 0x0C], [CHR 0x0D], [CHR 0x20],
      [CHR 0xC2, CHR 0x85], [CHR 0xC2, CHR 0xA0], [CHR 0xE1, CHR 0x9A, CHR 0x80],
      [CHR 0xE2, CHR 0x80, CHR 0x80], [CHR 0xE2, CHR 0x80, CHR 0x81],
      [CHR 0xE2, CHR 0x80, CHR 0x82], [CHR 0xE2, CHR 0x80, CHR 0x83],
      [CHR 0xE2, CHR 0x80, CHR 0x84], [CHR 0xE2, CHR 0x80, CHR 0x85],
      [CHR 0xE2, CHR 0x80, CHR 0x86], [CHR 0xE2, CHR 0x80, CHR 0x87],
      [CHR 0xE2, CHR 0x80, CHR 0x88], [CHR 0xE2, CHR 0x80, CHR 0x89],
      [CHR 0xE2, CHR 0x80, CHR 0x8A], [CHR 0xE2, CHR 0x80, CHR 0xA8],
      [CHR 0xE2, CHR 0x80, CHR 0xA9], [CHR 0xE2, CHR 0x80, CHR 0xAF],
      [CHR 0xE2, CHR 0x81, CHR 0x9F], [CHR 0xE3, CHR 0x80, CHR 0x80]]"

fun stripLead :: "nat \<Rightarrow> string list \<Rightarrow> string \<Rightarrow> string" where
  "stripLead 0 ws s = s"
| "stripLead (Suc n) ws s =
     (case List.find (\<lambda>w. HasPrefix s w) ws of
        None \<Rightarrow> s
      | Some w \<Rightarrow> stripLead n ws (drop (length w) s))"

definition TrimSpace :: "string \<Rightarrow> string" where
  [gostr]: "TrimSpace s =
     (let t = stripLead (length s) spaceRunes s
      in rev (stripLead (length t) (map rev spaceRunes) (rev t)))"

text \<open>One step of fuel per byte is enough: what is left has no white space in front.\<close>

lemma stripLead_done:
  assumes "[] \<notin> set ws" "length s \<le> n"
  shows "\<forall>w \<in> set ws. \<not> HasPrefix (stripLead n ws s) w"
  using assms
proof (induction n ws s rule: stripLead.induct)
  case (1 ws s)
  then have "\<not> HasPrefix [] w" if "w \<in> set ws" for w
    using that by (cases w) auto
  with 1 show ?case by simp
next
  case (2 n ws s)
  show ?case
  proof (cases "List.find (\<lambda>w. HasPrefix s w) ws")
    case None
    then have "\<forall>w \<in> set ws. \<not> HasPrefix s w" by (simp add: find_None_iff)
    with None show ?thesis by simp
  next
    case (Some w)
    then have w: "w \<in> set ws" "HasPrefix s w"
      by (auto simp: find_Some_iff)
    with "2.prems"(1) have "w \<noteq> []" by metis
    with w(2) "2.prems"(2) have "length (drop (length w) s) \<le> n"
      by (cases w) (auto simp: HasPrefix_iff)
    with "2.IH" [OF Some] "2.prems"(1) Some show ?thesis by simp
  qed
qed

lemma stripLead_keeps:
  "\<forall>w \<in> set ws. \<not> HasPrefix s w \<Longrightarrow> stripLead n ws s = s"
  by (cases n) (auto split: option.splits dest!: find_Some_iff [THEN iffD1])

section \<open>Decimal numbers\<close>

definition isDigit :: "char \<Rightarrow> bool" where
  [gostr]: "isDigit c \<longleftrightarrow> (let n = of_char c :: nat in 48 \<le> n \<and> n \<le> 57)"

definition digitVal :: "char \<Rightarrow> nat" where
  [gostr]: "digitVal c = of_char c - 48"

definition decVal :: "string \<Rightarrow> nat" where
  "decVal s = foldl (\<lambda>n c. 10 * n + digitVal c) 0 s"

lemma decVal_Nil [simp, gostr]: "decVal [] = 0"
  by (simp add: decVal_def)

lemma decVal_snoc [simp]: "decVal (s @ [c]) = 10 * decVal s + digitVal c"
  by (simp add: decVal_def)

text \<open>
  \<open>strconv.Atoi\<close> on a 64-bit platform: an optional sign, then one or more decimal digits, the value
  in the range of \<open>int64\<close>. \<open>None\<close> is its error (syntax or range), which every caller only
  tests for.
\<close>

definition Atoi :: "string \<Rightarrow> int option" where
  [gostr]: "Atoi s =
     (let neg = HasPrefix s ''-'';
          d = (if HasPrefix s ''-'' \<or> HasPrefix s ''+'' then tl s else s);
          v = (if neg then - int (decVal d) else int (decVal d))
      in if d = [] \<or> \<not> list_all isDigit d then None
         else if v < - (2 ^ 63) \<or> 2 ^ 63 - 1 < v then None
         else Some v)"

text \<open>\<open>strconv.Itoa\<close> on a non-negative number.\<close>

fun Itoa :: "nat \<Rightarrow> string" where
  "Itoa n = (if n < 10 then [char_of (48 + n)] else Itoa (n div 10) @ [char_of (48 + n mod 10)])"

declare Itoa.simps [simp del]

lemma isDigit_char_of [simp]: "d < 10 \<Longrightarrow> isDigit (char_of (48 + d :: nat))"
  by (simp add: isDigit_def)

lemma digitVal_char_of [simp]: "d < 10 \<Longrightarrow> digitVal (char_of (48 + d :: nat)) = d"
  by (simp add: digitVal_def)

lemma Itoa_digits: "list_all isDigit (Itoa n) \<and> Itoa n \<noteq> []"
proof (induction n rule: Itoa.induct)
  case (1 n)
  then show ?case
    by (subst (1 2) Itoa.simps) simp
qed

lemma decVal_Itoa [simp]: "decVal (Itoa n) = n"
proof (induction n rule: Itoa.induct)
  case (1 n)
  show ?case
  proof (cases "n < 10")
    case True
    then show ?thesis
      using decVal_snoc [of "[]" "char_of (48 + n)"] by (simp add: Itoa.simps [of n])
  next
    case False
    with 1 show ?thesis by (simp add: Itoa.simps [of n])
  qed
qed

lemma isDigit_not_sign: "isDigit c \<Longrightarrow> c \<noteq> CHR ''-'' \<and> c \<noteq> CHR ''+'' \<and> c \<noteq> CHR '':''
    \<and> c \<noteq> CHR ''['' \<and> c \<noteq> CHR '']'' \<and> c \<noteq> CHR ''/'' \<and> c \<noteq> CHR ''.''"
  by (auto simp: isDigit_def)

lemma Atoi_digits:
  assumes "s \<noteq> []" "list_all isDigit s" "decVal s < 2 ^ 63"
  shows "Atoi s = Some (int (decVal s))"
proof -
  obtain c t where s: "s = c # t" using assms(1) by (cases s) auto
  with assms(2) have "c \<noteq> CHR ''-''" "c \<noteq> CHR ''+''"
    using isDigit_not_sign [of c] by auto
  with s have "\<not> HasPrefix s ''-''" "\<not> HasPrefix s ''+''" by auto
  moreover have "int (decVal s) < 2 ^ 63"
    using assms(3) by (metis of_nat_less_iff of_nat_numeral of_nat_power)
  ultimately show ?thesis
    using assms(1,2) by (simp add: Atoi_def)
qed

lemma Atoi_Itoa [simp]: "n < 2 ^ 63 \<Longrightarrow> Atoi (Itoa n) = Some (int n)"
  using Atoi_digits [of "Itoa n"] Itoa_digits by simp

end
