(* ===== verification/Go_IP.thy ===== *)
theory Go_IP
  imports Go_Strings
begin

text \<open>
  \<open>net.IP.String\<close> and \<open>net.ParseIP\<close> of Go's standard library, on the byte slices the SOCKS code hands
  them: dotted decimal for four bytes (and for IPv4-mapped sixteen), RFC 5952 text for IPv6.
\<close>

section \<open>Printing\<close>

definition byteDec :: "byte \<Rightarrow> string" where
  "byteDec b = Itoa (unat b)"

fun dotted :: "byte list \<Rightarrow> string" where
  "dotted [] = []"
| "dotted [b] = byteDec b"
| "dotted (b # c # bs) = byteDec b @ CHR ''.'' # dotted (c # bs)"

definition hexDigit :: "nat \<Rightarrow> char" where
  "hexDigit n = (if n < 10 then char_of (48 + n) else char_of (87 + n))"

fun hexNat :: "nat \<Rightarrow> string" where
  "hexNat n = (if n < 16 then [hexDigit n] else hexNat (n div 16) @ [hexDigit (n mod 16)])"

declare hexNat.simps [simp del]

text \<open>\<open>IP.To4\<close>: four bytes as they are, or the last four of an IPv4-mapped address.\<close>

definition To4 :: "byte list \<Rightarrow> byte list option" where
  "To4 ip =
     (if length ip = 4 then Some ip
      else if length ip = 16 \<and> take 12 ip = replicate 10 0 @ [0xFF, 0xFF] then Some (drop 12 ip)
      else None)"

fun groups16 :: "byte list \<Rightarrow> nat list" where
  "groups16 (a # b # bs) = (unat a * 256 + unat b) # groups16 bs"
| "groups16 _ = []"

text \<open>The longest run of at least two zero groups, the first one among equals.\<close>

fun zeroRun :: "nat list \<Rightarrow> nat" where
  "zeroRun (0 # gs) = Suc (zeroRun gs)"
| "zeroRun _ = 0"

fun bestRun :: "nat \<Rightarrow> nat list \<Rightarrow> nat \<times> nat \<Rightarrow> nat \<times> nat" where
  "bestRun i [] best = best"
| "bestRun i (g # gs) (start, len) =
     (let l = zeroRun (g # gs) in
      bestRun (Suc i) gs (if l \<ge> 2 \<and> l > len then (i, l) else (start, len)))"

fun joinHex :: "nat list \<Rightarrow> string" where
  "joinHex [] = []"
| "joinHex [g] = hexNat g"
| "joinHex (g # h # gs) = hexNat g @ CHR '':'' # joinHex (h # gs)"

definition ipv6Text :: "byte list \<Rightarrow> string" where
  "ipv6Text ip =
     (let gs = groups16 ip; (start, len) = bestRun 0 gs (0, 0)
      in if len = 0 then joinHex gs
         else joinHex (take start gs) @ ''::'' @ joinHex (drop (start + len) gs))"

text \<open>\<open>IP.String\<close> on a slice of 4 or 16 bytes, the only ones the source makes.\<close>

definition IPString :: "byte list \<Rightarrow> string" where
  "IPString ip = (case To4 ip of Some p4 \<Rightarrow> dotted p4 | None \<Rightarrow> ipv6Text ip)"

section \<open>Parsing\<close>

definition octet :: "string \<Rightarrow> byte option" where
  "octet f =
     (if f = [] \<or> \<not> list_all isDigit f \<or> (1 < length f \<and> hd f = CHR ''0'') \<or> 255 < decVal f
      then None else Some (word_of_nat (decVal f)))"

definition parseIPv4 :: "string \<Rightarrow> byte list option" where
  "parseIPv4 s =
     (case map octet (splitByte CHR ''.'' s) of
        [Some a, Some b, Some c, Some d] \<Rightarrow> Some [a, b, c, d]
      | _ \<Rightarrow> None)"

definition hexVal :: "char \<Rightarrow> nat option" where
  "hexVal c =
     (let n = of_char c :: nat in
      if 48 \<le> n \<and> n \<le> 57 then Some (n - 48)
      else if 97 \<le> n \<and> n \<le> 102 then Some (n - 87)
      else if 65 \<le> n \<and> n \<le> 70 then Some (n - 55)
      else None)"

definition hexNum :: "string \<Rightarrow> nat" where
  "hexNum s = foldl (\<lambda>acc c. 16 * acc + the (hexVal c)) 0 s"

text \<open>
  The loop of \<open>parseIPv6\<close>, at most eight turns: the string still to read, the bytes read so far and
  the position of the ellipsis. The result is the bytes, the ellipsis and what is left unread.
\<close>

fun v6loop :: "nat \<Rightarrow> string \<Rightarrow> byte list \<Rightarrow> nat option \<Rightarrow> (byte list \<times> nat option \<times> string) option" where
  "v6loop 0 s acc ell = Some (acc, ell, s)"
| "v6loop (Suc n) s acc ell =
     (let h = takeWhile (\<lambda>c. hexVal c \<noteq> None) s; r = dropWhile (\<lambda>c. hexVal c \<noteq> None) s in
      if h = [] \<or> 4 < length h then None
      else if r \<noteq> [] \<and> hd r = CHR ''.'' then
        (if ell = None \<and> length acc \<noteq> 12 then None
         else if 16 < length acc + 4 then None
         else (case parseIPv4 s of None \<Rightarrow> None | Some bs \<Rightarrow> Some (acc @ bs, ell, [])))
      else
        (let acc' = acc @ [word_of_nat (hexNum h div 256), word_of_nat (hexNum h mod 256)] in
         case r of
           [] \<Rightarrow> Some (acc', ell, [])
         | c # t \<Rightarrow>
             if c \<noteq> CHR '':'' then None
             else if t = [] then None
             else if hd t = CHR '':'' then
               (if ell \<noteq> None then None
                else if tl t = [] then Some (acc', Some (length acc'), [])
                else v6loop n (tl t) acc' (Some (length acc')))
             else v6loop n t acc' ell))"

definition parseIPv6 :: "string \<Rightarrow> byte list option" where
  "parseIPv6 s =
     (if CHR ''%'' \<in> set s then None
      else
        (let lead = HasPrefix s ''::''; s' = (if lead then drop 2 s else s) in
         if lead \<and> s' = [] then Some (replicate 16 0)
         else
           (case v6loop 8 s' [] (if lead then Some 0 else None) of
              None \<Rightarrow> None
            | Some (bs, ell, rest) \<Rightarrow>
                if rest \<noteq> [] then None
                else if length bs < 16 then
                  (case ell of
                     None \<Rightarrow> None
                   | Some e \<Rightarrow> Some (take e bs @ replicate (16 - length bs) 0 @ drop e bs))
                else if ell \<noteq> None then None
                else Some bs)))"

text \<open>
  \<open>net.ParseIP\<close>: the first of \<open>.\<close>, \<open>:\<close> and \<open>%\<close> in the string decides the family. The result has
  sixteen bytes, an IPv4 address in its mapped form; a zone makes it fail.
\<close>

definition ParseIP :: "string \<Rightarrow> byte list option" where
  "ParseIP s =
     (case dropWhile (\<lambda>c. c \<notin> {CHR ''.'', CHR '':'', CHR ''%''}) s of
        [] \<Rightarrow> None
      | c # _ \<Rightarrow>
          if c = CHR ''.'' then
            (case parseIPv4 s of None \<Rightarrow> None | Some bs \<Rightarrow> Some (replicate 10 0 @ [0xFF, 0xFF] @ bs))
          else if c = CHR '':'' then parseIPv6 s
          else None)"

section \<open>Dotted decimal round trip\<close>

lemma Itoa_no_lead_zero: "1 < length (Itoa n) \<Longrightarrow> hd (Itoa n) \<noteq> CHR ''0''"
proof (induction n rule: Itoa.induct)
  case (1 n)
  show ?case
  proof (cases "n < 10")
    case True
    with "1.prems" show ?thesis by (simp add: Itoa.simps [of n])
  next
    case False
    have hd: "hd (Itoa n) = hd (Itoa (n div 10))"
      using False Itoa_digits [of "n div 10"] by (simp add: Itoa.simps [of n])
    show ?thesis
    proof (cases "n div 10 < 10")
      case True
      then have "hd (Itoa (n div 10)) = char_of (48 + n div 10)" by (simp add: Itoa.simps [of "n div 10"])
      moreover have "of_char (char_of (48 + n div 10) :: char) = (48 + n div 10 :: nat)" using True by simp
      moreover have "of_char CHR ''0'' = (48 :: nat)" by simp
      moreover have "n div 10 \<noteq> 0" using False by simp
      ultimately show ?thesis using hd by (metis add_cancel_right_right)
    next
      case small: False
      then have "1 < length (Itoa (n div 10))"
        using Itoa_digits [of "n div 10 div 10"] by (simp add: Itoa.simps [of "n div 10"] Suc_lessI)
      with "1.IH" [OF False] hd show ?thesis by simp
    qed
  qed
qed

lemma octet_byteDec [simp]: "octet (byteDec b) = Some b"
proof -
  have "unat b \<le> 255" using unsigned_less [of b, where ?'a = nat] by simp
  then show ?thesis
    using Itoa_digits [of "unat b"] Itoa_no_lead_zero [of "unat b"]
    by (auto simp: octet_def byteDec_def)
qed

lemma byteDec_chars: "c \<in> set (byteDec b) \<Longrightarrow> isDigit c"
  using Itoa_digits [of "unat b"] by (simp add: byteDec_def list_all_iff)

lemma byteDec_no: "CHR ''.'' \<notin> set (byteDec b)" "CHR '':'' \<notin> set (byteDec b)" "CHR ''%'' \<notin> set (byteDec b)"
  "CHR ''['' \<notin> set (byteDec b)" "CHR '']'' \<notin> set (byteDec b)"
  using byteDec_chars [of "CHR ''.''" b] byteDec_chars [of "CHR '':''" b] byteDec_chars [of "CHR ''%''" b]
    byteDec_chars [of "CHR ''[''" b] byteDec_chars [of "CHR '']''" b]
  by (auto simp: isDigit_def)

lemma splitByte_dotted: "bs \<noteq> [] \<Longrightarrow> splitByte CHR ''.'' (dotted bs) = map byteDec bs"
proof (induction bs rule: dotted.induct)
  case (2 b)
  then show ?case by (simp add: splitByte_self byteDec_no)
next
  case (3 b c bs)
  then show ?case by (simp add: splitByte_append byteDec_no)
qed simp

lemma length4_cases:
  assumes "length bs = 4"
  obtains a b c d where "bs = [a, b, c, d]"
  using assms by (auto simp: numeral_eq_Suc length_Suc_conv)

lemma parseIPv4_dotted:
  assumes "length bs = 4"
  shows "parseIPv4 (dotted bs) = Some bs"
proof -
  obtain a b c d where bs: "bs = [a, b, c, d]" using assms by (rule length4_cases)
  have sp: "splitByte CHR ''.'' (dotted bs) = map byteDec bs"
    by (rule splitByte_dotted) (simp add: bs)
  show ?thesis
    unfolding parseIPv4_def sp by (simp add: bs)
qed

lemma ParseIP_dotted:
  assumes "length bs = 4"
  shows "ParseIP (dotted bs) = Some (replicate 10 0 @ [0xFF, 0xFF] @ bs)"
proof -
  obtain a b c d where bs: "bs = [a, b, c, d]" using assms by (rule length4_cases)
  have "dropWhile (\<lambda>x. x \<notin> {CHR ''.'', CHR '':'', CHR ''%''}) (byteDec a @ CHR ''.'' # t) = CHR ''.'' # t" for t
    using byteDec_no [of a] by (subst dropWhile_append2) auto
  then show ?thesis
    using parseIPv4_dotted [OF assms] by (simp add: ParseIP_def bs)
qed

lemma To4_mapped: "length bs = 4 \<Longrightarrow> To4 (replicate 10 0 @ [0xFF, 0xFF] @ bs) = Some bs"
  by (simp add: To4_def)

lemma dotted_clean: "length bs = 4 \<Longrightarrow> CHR '':'' \<notin> set (dotted bs) \<and> CHR ''['' \<notin> set (dotted bs) \<and> CHR '']'' \<notin> set (dotted bs)"
  by (erule length4_cases) (simp add: byteDec_no)

section \<open>A parsed address has sixteen bytes\<close>

lemma parseIPv4_length: "parseIPv4 s = Some bs \<Longrightarrow> length bs = 4"
  by (auto simp: parseIPv4_def split: list.splits option.splits)

lemma v6loop_length:
  "v6loop n s acc ell = Some (bs, ell', rest) \<Longrightarrow> length acc + 2 * n \<le> 16 \<Longrightarrow> length bs \<le> 16"
proof (induction n s acc ell rule: v6loop.induct)
  case (2 n s acc ell)
  then show ?case
    by (auto simp: Let_def split: if_splits option.splits list.splits dest: parseIPv4_length)
qed simp

lemma parseIPv6_length: "parseIPv6 s = Some bs \<Longrightarrow> length bs = 16"
  using v6loop_length [of 8 s "[]" None] v6loop_length [of 8 "drop 2 s" "[]" "Some 0"]
  by (auto simp: parseIPv6_def Let_def split: if_splits option.splits)

lemma ParseIP_length: "ParseIP s = Some ip \<Longrightarrow> length ip = 16"
  by (auto simp: ParseIP_def split: list.splits if_splits option.splits dest: parseIPv6_length parseIPv4_length)

lemma To4_length: "To4 ip = Some bs \<Longrightarrow> length bs = 4"
  by (auto simp: To4_def split: if_splits)

lemma IPString_To4: "To4 ip = Some bs \<Longrightarrow> IPString bs = IPString ip"
  using To4_length [of ip bs] by (simp add: IPString_def To4_def)

end
