(* ===== verification/Go_Encoding.thy ===== *)
theory Go_Encoding
  imports Go_IP
begin

text \<open>
  \<open>strconv.Quote\<close> (also the verb \<open>%q\<close>), \<open>hex.EncodeToString\<close> and \<open>base64.StdEncoding\<close>. Quoting decodes
  the string as UTF-8; whether a rune beyond ASCII is printable is Unicode data, so it is the argument
  \<open>isPrint\<close>, asked only for runes of 128 and above.
\<close>

section \<open>UTF-8\<close>

definition inRange :: "nat \<Rightarrow> nat \<Rightarrow> char \<Rightarrow> bool" where
  "inRange lo hi c \<longleftrightarrow> (let n = of_char c in lo \<le> n \<and> n \<le> hi)"

definition contVal :: "char \<Rightarrow> nat" where
  "contVal c = of_char c - 0x80"

text \<open>The multi-byte encodings, given the first byte; an invalid one is U+FFFD of width one.\<close>

fun decode2 :: "nat \<Rightarrow> string \<Rightarrow> nat \<times> nat" where
  "decode2 b0 (c1 # r) =
     (if inRange 0x80 0xBF c1 then ((b0 - 0xC0) * 64 + contVal c1, 2) else (0xFFFD, 1))"
| "decode2 b0 _ = (0xFFFD, 1)"

fun decode3 :: "nat \<Rightarrow> string \<Rightarrow> nat \<times> nat" where
  "decode3 b0 (c1 # c2 # r) =
     (if inRange (if b0 = 0xE0 then 0xA0 else 0x80) (if b0 = 0xED then 0x9F else 0xBF) c1
       \<and> inRange 0x80 0xBF c2
      then ((b0 - 0xE0) * 4096 + contVal c1 * 64 + contVal c2, 3) else (0xFFFD, 1))"
| "decode3 b0 _ = (0xFFFD, 1)"

fun decode4 :: "nat \<Rightarrow> string \<Rightarrow> nat \<times> nat" where
  "decode4 b0 (c1 # c2 # c3 # r) =
     (if inRange (if b0 = 0xF0 then 0x90 else 0x80) (if b0 = 0xF4 then 0x8F else 0xBF) c1
       \<and> inRange 0x80 0xBF c2 \<and> inRange 0x80 0xBF c3
      then ((b0 - 0xF0) * 262144 + contVal c1 * 4096 + contVal c2 * 64 + contVal c3, 4)
      else (0xFFFD, 1))"
| "decode4 b0 _ = (0xFFFD, 1)"

text \<open>\<open>utf8.DecodeRuneInString\<close>: the rune and its width.\<close>

fun decodeRune :: "string \<Rightarrow> nat \<times> nat" where
  "decodeRune [] = (0xFFFD, 0)"
| "decodeRune (c0 # r) =
     (let b0 = of_char c0 in
      if b0 < 0x80 then (b0, 1)
      else if 0xC2 \<le> b0 \<and> b0 \<le> 0xDF then decode2 b0 r
      else if 0xE0 \<le> b0 \<and> b0 \<le> 0xEF then decode3 b0 r
      else if 0xF0 \<le> b0 \<and> b0 \<le> 0xF4 then decode4 b0 r
      else (0xFFFD, 1))"

text \<open>What a decoder of a multi-byte encoding promises: either the invalid result, or a rune beyond
  ASCII whose continuation bytes are all beyond ASCII.\<close>

definition multiOk :: "string \<Rightarrow> nat \<times> nat \<Rightarrow> bool" where
  "multiOk r d \<longleftrightarrow> d = (0xFFFD, 1) \<or>
     (0x80 \<le> fst d \<and> 2 \<le> snd d \<and> snd d \<le> Suc (length r) \<and> list_all (\<lambda>c. 0x80 \<le> (of_char c :: nat)) (take (snd d - 1) r))"

lemma decode2_ok: "0xC2 \<le> b0 \<Longrightarrow> multiOk r (decode2 b0 r)"
  by (cases r) (auto simp: multiOk_def inRange_def Let_def)

lemma decode3_ok: "0xE0 \<le> b0 \<Longrightarrow> multiOk r (decode3 b0 r)"
proof (cases "(b0, r)" rule: decode3.cases)
  case (1 b c1 c2 s)
  assume "0xE0 \<le> b0"
  with 1 have "0x80 \<le> (b0 - 0xE0) * 4096 + contVal c1 * 64"
    if "inRange (if b0 = 0xE0 then 0xA0 else 0x80) (if b0 = 0xED then 0x9F else 0xBF) c1"
    using that by (cases "b0 = 0xE0") (auto simp: inRange_def Let_def contVal_def)
  with 1 show ?thesis
    by (auto simp: multiOk_def inRange_def Let_def numeral_2_eq_2)
qed (auto simp: multiOk_def)

lemma decode4_ok: "0xF0 \<le> b0 \<Longrightarrow> multiOk r (decode4 b0 r)"
proof (cases "(b0, r)" rule: decode4.cases)
  case (1 b c1 c2 c3 s)
  assume "0xF0 \<le> b0"
  with 1 have "0x80 \<le> (b0 - 0xF0) * 262144 + contVal c1 * 4096"
    if "inRange (if b0 = 0xF0 then 0x90 else 0x80) (if b0 = 0xF4 then 0x8F else 0xBF) c1"
    using that by (cases "b0 = 0xF0") (auto simp: inRange_def Let_def contVal_def)
  with 1 show ?thesis
    by (auto simp: multiOk_def inRange_def Let_def numeral_3_eq_3)
qed (auto simp: multiOk_def)

lemma decodeRune_multiOk: "0x80 \<le> (of_char c :: nat) \<Longrightarrow> multiOk s (decodeRune (c # s))"
  using decode2_ok decode3_ok decode4_ok by (auto simp: Let_def multiOk_def [of s "(0xFFFD, Suc 0)"])

declare decodeRune.simps(2) [simp del]

lemma decodeRune_low [simp]: "(of_char c :: nat) < 0x80 \<Longrightarrow> decodeRune (c # s) = (of_char c, 1)"
  by (simp add: decodeRune.simps)

lemma decodeRune_width: "s \<noteq> [] \<Longrightarrow> 1 \<le> snd (decodeRune s) \<and> snd (decodeRune s) \<le> length s"
proof (cases s)
  case (Cons c r)
  then show ?thesis
    using decodeRune_multiOk [of c r] by (cases "(of_char c :: nat) < 0x80") (auto simp: multiOk_def)
qed simp

lemma decodeRune_ascii:
  "fst (decodeRune (c # s)) < 0x80 \<Longrightarrow> snd (decodeRune (c # s)) = 1 \<and> fst (decodeRune (c # s)) = of_char c"
  using decodeRune_multiOk [of c s] by (cases "(of_char c :: nat) < 0x80") (auto simp: multiOk_def)

lemma decodeRune_high:
  assumes "0x80 \<le> fst (decodeRune (c # s))" "\<not> (snd (decodeRune (c # s)) = 1 \<and> fst (decodeRune (c # s)) = 0xFFFD)"
    "d \<in> set (take (snd (decodeRune (c # s))) (c # s))"
  shows "0x80 \<le> (of_char d :: nat)"
proof (cases "(of_char c :: nat) < 0x80")
  case False
  with decodeRune_multiOk [of c s] assms show ?thesis
    by (auto simp: multiOk_def list_all_iff take_Cons')
qed (use assms in simp)

section \<open>Quoting\<close>

definition hex2 :: "nat \<Rightarrow> string" where
  "hex2 n = [hexDigit (n div 16 mod 16), hexDigit (n mod 16)]"

fun hexFixed :: "nat \<Rightarrow> nat \<Rightarrow> string" where
  "hexFixed 0 n = []"
| "hexFixed (Suc k) n = hexFixed k (n div 16) @ [hexDigit (n mod 16)]"

definition BS :: char where "BS = CHR 0x5C"
definition DQ :: char where "DQ = CHR 0x22"

text \<open>\<open>appendEscapedRune\<close> with the double quote; \<open>raw\<close> is the rune's own encoding.\<close>

definition escapeRune :: "(nat \<Rightarrow> bool) \<Rightarrow> nat \<Rightarrow> string \<Rightarrow> string" where
  "escapeRune isPrint r raw =
     (if r = 0x22 \<or> r = 0x5C then [BS, char_of r]
      else if (if r < 0x80 then 0x20 \<le> r \<and> r < 0x7F else isPrint r) then raw
      else if r = 7 then [BS, CHR ''a'']
      else if r = 8 then [BS, CHR ''b'']
      else if r = 12 then [BS, CHR ''f'']
      else if r = 10 then [BS, CHR ''n'']
      else if r = 13 then [BS, CHR ''r'']
      else if r = 9 then [BS, CHR ''t'']
      else if r = 11 then [BS, CHR ''v'']
      else if r < 0x20 \<or> r = 0x7F then BS # CHR ''x'' # hex2 r
      else if r < 0x10000 then BS # CHR ''u'' # hexFixed 4 r
      else BS # CHR ''U'' # hexFixed 8 r)"

function quoteBody :: "(nat \<Rightarrow> bool) \<Rightarrow> string \<Rightarrow> string" where
  "quoteBody isPrint [] = []"
| "quoteBody isPrint (c # s) =
     (case decodeRune (c # s) of (r, w) \<Rightarrow>
        (if w = 1 \<and> r = 0xFFFD then BS # CHR ''x'' # hex2 (of_char c)
         else escapeRune isPrint r (take w (c # s))) @
        quoteBody isPrint (drop w (c # s)))"
  by pat_completeness auto
termination
proof (relation "measure (\<lambda>(p, s). length s)", goal_cases)
  case (2 p c s x w)
  then have "1 \<le> w" using decodeRune_width [of "c # s"] by (metis list.discI snd_conv)
  then show ?case by simp
qed simp

definition Quote :: "(nat \<Rightarrow> bool) \<Rightarrow> string \<Rightarrow> string" where
  "Quote isPrint s = DQ # quoteBody isPrint s @ [DQ]"

text \<open>A character that cannot end or break a line: no control character, no delete.\<close>

definition plainChar :: "char \<Rightarrow> bool" where
  "plainChar c \<longleftrightarrow> (let n = of_char c :: nat in 0x20 \<le> n \<and> n \<noteq> 0x7F)"

lemma plainChar_not_newline: "plainChar c \<Longrightarrow> c \<noteq> CHR 0x0A \<and> c \<noteq> CHR 0x0D"
  by (auto simp: plainChar_def)

lemma plainChar_lits [simp]:
  "plainChar BS" "plainChar DQ" "plainChar (CHR 0x22)" "plainChar (CHR 0x5C)" "plainChar (CHR ''a'')"
  "plainChar (CHR ''b'')" "plainChar (CHR ''f'')" "plainChar (CHR ''n'')" "plainChar (CHR ''r'')"
  "plainChar (CHR ''t'')" "plainChar (CHR ''v'')" "plainChar (CHR ''x'')" "plainChar (CHR ''u'')"
  "plainChar (CHR ''U'')" "plainChar (CHR ''='')"
  by (simp_all add: plainChar_def BS_def DQ_def)

lemma plainChar_char_of [simp]: "(n :: nat) < 256 \<Longrightarrow> plainChar (char_of n) \<longleftrightarrow> 0x20 \<le> n \<and> n \<noteq> 0x7F"
  by (simp add: plainChar_def)

lemma plainChar_hexDigit [simp]: "n < 16 \<Longrightarrow> plainChar (hexDigit n)"
  by (auto simp: plainChar_def hexDigit_def)

lemma plainChar_hexFixed: "list_all plainChar (hexFixed k n)"
  by (induction k n rule: hexFixed.induct) auto

lemma plainChar_hex2: "list_all plainChar (hex2 n)"
  by (simp add: hex2_def)

lemma plainChar_escape:
  assumes "r < 0x80 \<Longrightarrow> raw = [char_of r]" "\<And>c. 0x80 \<le> r \<Longrightarrow> c \<in> set raw \<Longrightarrow> 0x80 \<le> (of_char c :: nat)"
  shows "list_all plainChar (escapeRune isPrint r raw)"
proof -
  have "list_all plainChar raw" if "if r < 0x80 then 0x20 \<le> r \<and> r < 0x7F else isPrint r"
  proof (cases "r < 0x80")
    case False
    then show ?thesis
      using assms(2) by (fastforce simp: list_all_iff plainChar_def)
  qed (use that assms(1) in simp)
  then show ?thesis
    unfolding escapeRune_def
    by (auto simp: plainChar_hexFixed plainChar_hex2)
qed

lemma quoteBody_plain: "list_all plainChar (quoteBody isPrint s)"
proof (induction isPrint s rule: quoteBody.induct)
  case (2 isPrint c s)
  obtain r w where rw: "decodeRune (c # s) = (r, w)" by (cases "decodeRune (c # s)")
  have IH: "list_all plainChar (quoteBody isPrint (drop w (c # s)))"
    using 2 rw by simp
  have "list_all plainChar (escapeRune isPrint r (take w (c # s)))" if "\<not> (w = 1 \<and> r = 0xFFFD)"
  proof (rule plainChar_escape)
    show "r < 0x80 \<Longrightarrow> take w (c # s) = [char_of r]"
      using decodeRune_ascii [of c s] rw by simp
    show "0x80 \<le> r \<Longrightarrow> d \<in> set (take w (c # s)) \<Longrightarrow> 0x80 \<le> (of_char d :: nat)" for d
      using decodeRune_high [of c s d] rw that by simp
  qed
  with IH rw show ?case
    by (simp add: plainChar_hex2)
qed simp

lemma Quote_plain: "list_all plainChar (Quote isPrint s)"
  using quoteBody_plain by (simp add: Quote_def)

section \<open>Hexadecimal and base64\<close>

fun hexEncode :: "byte list \<Rightarrow> string" where
  "hexEncode [] = []"
| "hexEncode (b # bs) = hex2 (unat b) @ hexEncode bs"

lemma hexEncode_plain: "list_all plainChar (hexEncode bs)"
  by (induction bs) (auto simp: plainChar_hex2)

lemma length_hexEncode: "length (hexEncode bs) = 2 * length bs"
  by (induction bs) (auto simp: hex2_def)

definition bytesOf :: "string \<Rightarrow> byte list" where
  "bytesOf s = map (\<lambda>c. word_of_nat (of_char c)) s"

definition stringOf :: "byte list \<Rightarrow> string" where
  "stringOf bs = map (\<lambda>b. char_of (unat b)) bs"

lemma stringOf_bytesOf [simp]: "stringOf (bytesOf s) = s"
proof -
  have "char_of (unat (word_of_nat (of_char c) :: byte)) = c" for c
    by (simp add: unat_of_nat)
  then show ?thesis by (simp add: stringOf_def bytesOf_def comp_def)
qed

lemma bytesOf_stringOf [simp]: "bytesOf (stringOf bs) = bs"
proof -
  have "word_of_nat (of_char (char_of (unat b) :: char)) = b" for b :: byte
    using unsigned_less [of b, where ?'a = nat] by simp
  then show ?thesis by (simp add: stringOf_def bytesOf_def comp_def)
qed

lemma length_bytesOf [simp]: "length (bytesOf s) = length s"
  by (simp add: bytesOf_def)

lemma length_stringOf [simp]: "length (stringOf bs) = length bs"
  by (simp add: stringOf_def)

definition b64Char :: "nat \<Rightarrow> char" where
  "b64Char n =
     (if n < 26 then char_of (65 + n) else if n < 52 then char_of (71 + n)
      else if n < 62 then char_of (n - 4) else if n = 62 then CHR ''+'' else CHR ''/'')"

fun base64Encode :: "byte list \<Rightarrow> string" where
  "base64Encode [] = []"
| "base64Encode [a] =
     [b64Char (unat a div 4), b64Char (unat a mod 4 * 16), CHR ''='', CHR ''='']"
| "base64Encode [a, b] =
     [b64Char (unat a div 4), b64Char (unat a mod 4 * 16 + unat b div 16),
      b64Char (unat b mod 16 * 4), CHR ''='']"
| "base64Encode (a # b # c # bs) =
     [b64Char (unat a div 4), b64Char (unat a mod 4 * 16 + unat b div 16),
      b64Char (unat b mod 16 * 4 + unat c div 64), b64Char (unat c mod 64)] @ base64Encode bs"

lemma plainChar_b64 [simp]: "plainChar (b64Char n)"
  by (auto simp: b64Char_def plainChar_def Let_def)

lemma base64Encode_plain: "list_all plainChar (base64Encode bs)"
  by (induction bs rule: base64Encode.induct) auto

end
