(* ===== verification/Go_Conn.thy ===== *)
theory Go_Conn
  imports Go_Encoding
begin

text \<open>
  A \<open>net.Conn\<close> as one end of the connection sees it, and the functions of Go's \<open>io\<close> package that
  the source calls on it. The peer is described by what it does: the bytes it sends (\<open>rd_data\<close>), how
  reading ends after them (\<open>rd_err\<close>: an orderly close, a reset, or the deadline the code has set),
  and how many bytes can be written before writing fails (\<open>wr_room\<close>, none when it never does). A
  statement for all connections is therefore a statement for all peers. What the code does to the
  connection is recorded: the bytes written (\<open>wr_log\<close>), the deadline in force, the half-close and
  the close.
\<close>

datatype io_error =
    EOF
  | UnexpectedEOF
  | ErrShortWrite
  | ErrInvalidWrite
  | ErrClosed
  | OtherErr string

record conn =
  rd_data :: "byte list"
  rd_err :: io_error
  wr_room :: "nat option"
  wr_err :: io_error
  wr_log :: "byte list"
  deadline :: "int option"
  wr_closed :: bool
  closed :: bool

text \<open>\<open>conn.Write\<close>: the count, the error, and the connection after it.\<close>

definition conn_write :: "conn \<Rightarrow> byte list \<Rightarrow> nat \<times> io_error option \<times> conn" where
  "conn_write c bs =
     (if closed c \<or> wr_closed c then (0, Some ErrClosed, c)
      else case wr_room c of
          None \<Rightarrow> (length bs, None, c\<lparr>wr_log := wr_log c @ bs\<rparr>)
        | Some k \<Rightarrow>
            if length bs \<le> k
            then (length bs, None, c\<lparr>wr_log := wr_log c @ bs, wr_room := Some (k - length bs)\<rparr>)
            else (k, Some (wr_err c), c\<lparr>wr_log := wr_log c @ take k bs, wr_room := Some 0\<rparr>))"

text \<open>\<open>io.ReadFull\<close> on a buffer of \<open>n\<close> bytes; an empty buffer reads nothing.\<close>

definition ReadFull :: "nat \<Rightarrow> conn \<Rightarrow> (io_error + byte list) \<times> conn" where
  "ReadFull n c =
     (if n = 0 then (Inr [], c)
      else if closed c then (Inl ErrClosed, c)
      else if n \<le> length (rd_data c)
        then (Inr (take n (rd_data c)), c\<lparr>rd_data := drop n (rd_data c)\<rparr>)
      else (Inl (if rd_err c = EOF \<and> rd_data c \<noteq> [] then UnexpectedEOF else rd_err c),
            c\<lparr>rd_data := []\<rparr>))"

text \<open>\<open>io.CopyN(io.Discard, conn, n)\<close>: a stream that ends early is \<open>EOF\<close>.\<close>

definition discardN :: "nat \<Rightarrow> conn \<Rightarrow> (io_error + unit) \<times> conn" where
  "discardN n c =
     (if n = 0 then (Inr (), c)
      else if closed c then (Inl ErrClosed, c)
      else if n \<le> length (rd_data c) then (Inr (), c\<lparr>rd_data := drop n (rd_data c)\<rparr>)
      else (Inl (rd_err c), c\<lparr>rd_data := []\<rparr>))"

definition conn_close :: "conn \<Rightarrow> conn" where
  "conn_close c = c\<lparr>closed := True\<rparr>"

definition conn_closeWrite :: "conn \<Rightarrow> conn" where
  "conn_closeWrite c = c\<lparr>wr_closed := True\<rparr>"

definition SetDeadline :: "int option \<Rightarrow> conn \<Rightarrow> conn" where
  "SetDeadline d c = c\<lparr>deadline := d\<rparr>"

section \<open>Sequencing\<close>

text \<open>A function that uses one connection and may return an error: the error or the value, and the
  connection after it. \<open>bindC\<close> is Go's \<open>if err != nil \<lbrace> return err \<rbrace>\<close> between two calls.\<close>

type_synonym ('e, 'a) connM = "conn \<Rightarrow> ('e + 'a) \<times> conn"

definition returnC :: "'a \<Rightarrow> ('e, 'a) connM" where
  "returnC x = (\<lambda>c. (Inr x, c))"

definition throwC :: "'e \<Rightarrow> ('e, 'a) connM" where
  "throwC e = (\<lambda>c. (Inl e, c))"

definition bindC :: "('e, 'a) connM \<Rightarrow> ('a \<Rightarrow> ('e, 'b) connM) \<Rightarrow> ('e, 'b) connM" where
  "bindC m f = (\<lambda>c. case m c of (Inl e, c') \<Rightarrow> (Inl e, c') | (Inr x, c') \<Rightarrow> f x c')"

text \<open>\<open>io.ReadFull\<close> with its error wrapped by \<open>w\<close>, after the clean-up \<open>fin\<close> of the error branch.\<close>

definition readC :: "(conn \<Rightarrow> conn) \<Rightarrow> (io_error \<Rightarrow> 'e) \<Rightarrow> nat \<Rightarrow> ('e, byte list) connM" where
  "readC fin w n = (\<lambda>c. case ReadFull n c of (Inl e, c') \<Rightarrow> (Inl (w e), fin c') | (Inr b, c') \<Rightarrow> (Inr b, c'))"

definition discardC :: "(conn \<Rightarrow> conn) \<Rightarrow> (io_error \<Rightarrow> 'e) \<Rightarrow> nat \<Rightarrow> ('e, unit) connM" where
  "discardC fin w n = (\<lambda>c. case discardN n c of (Inl e, c') \<Rightarrow> (Inl (w e), fin c') | (Inr b, c') \<Rightarrow> (Inr b, c'))"

definition writeC :: "(conn \<Rightarrow> conn) \<Rightarrow> (io_error \<Rightarrow> 'e) \<Rightarrow> byte list \<Rightarrow> ('e, unit) connM" where
  "writeC fin w bs = (\<lambda>c. case conn_write c bs of
       (_, Some e, c') \<Rightarrow> (Inl (w e), fin c') | (_, None, c') \<Rightarrow> (Inr (), c'))"

text \<open>An error return after the clean-up, and a call whose error is ignored.\<close>

definition failC :: "(conn \<Rightarrow> conn) \<Rightarrow> 'e \<Rightarrow> ('e, 'a) connM" where
  "failC fin e = (\<lambda>c. (Inl e, fin c))"

definition ignoreC :: "('e, 'a) connM \<Rightarrow> ('f, unit) connM" where
  "ignoreC m = (\<lambda>c. (Inr (), snd (m c)))"

lemmas connM_defs = returnC_def throwC_def bindC_def readC_def discardC_def writeC_def failC_def
  ignoreC_def

declare connM_defs [conn_defs] conn_write_def [conn_defs] ReadFull_def [conn_defs] discardN_def [conn_defs]
  conn_close_def [conn_defs] conn_closeWrite_def [conn_defs] SetDeadline_def [conn_defs]

section \<open>An open connection with data\<close>

text \<open>The situation of most lemmas: the connection is open, the peer sends \<open>d\<close>, and writes succeed.\<close>

definition openConn :: "conn \<Rightarrow> bool" where
  "openConn c \<longleftrightarrow> \<not> closed c \<and> \<not> wr_closed c \<and> wr_room c = None"

lemma openConn_updates [simp]:
  "openConn (c\<lparr>rd_data := d\<rparr>) = openConn c" "openConn (c\<lparr>wr_log := l\<rparr>) = openConn c"
  "openConn (c\<lparr>deadline := t\<rparr>) = openConn c"
  by (auto simp: openConn_def)

lemma readC_ok:
  assumes "\<not> closed c" "rd_data c = b @ r" "length b = n"
  shows "readC fin w n c = (Inr b, c\<lparr>rd_data := r\<rparr>)"
  using assms by (cases "n = 0") (auto simp: readC_def ReadFull_def)

lemma readC_short:
  assumes "\<not> closed c" "length (rd_data c) < n"
  shows "\<exists>e c'. readC fin w n c = (Inl (w e), fin c')"
  using assms by (auto simp: readC_def ReadFull_def)

lemma readC_Inr:
  "readC fin w n c = (Inr b, c') \<longleftrightarrow>
     (n = 0 \<and> b = [] \<and> c' = c) \<or>
     (0 < n \<and> \<not> closed c \<and> length b = n \<and> rd_data c = b @ rd_data c' \<and> c' = c\<lparr>rd_data := rd_data c'\<rparr>)"
  (is "?l \<longleftrightarrow> ?r")
proof
  show "?l \<Longrightarrow> ?r"
    by (auto simp: readC_def ReadFull_def split: if_splits)
  assume ?r
  then show ?l
    by (cases "n = 0") (auto simp: readC_def ReadFull_def)
qed

lemma writeC_ok: "openConn c \<Longrightarrow> writeC fin w bs c = (Inr (), c\<lparr>wr_log := wr_log c @ bs\<rparr>)"
  by (simp add: writeC_def conn_write_def openConn_def)

lemma discardC_ok:
  "\<not> closed c \<Longrightarrow> rd_data c = b @ r \<Longrightarrow> length b = n \<Longrightarrow> discardC fin w n c = (Inr (), c\<lparr>rd_data := r\<rparr>)"
  by (cases "n = 0") (auto simp: discardC_def discardN_def)

lemma bindC_Inr: "m c = (Inr x, c') \<Longrightarrow> bindC m f c = f x c'"
  by (simp add: bindC_def)

lemma bindC_Inl: "m c = (Inl e, c') \<Longrightarrow> bindC m f c = (Inl e, c')"
  by (simp add: bindC_def)

lemma bindC_cases:
  assumes "bindC m f c = (r, c')"
  obtains (err) e where "m c = (Inl e, c')" "r = Inl e"
    | (ok) x c1 where "m c = (Inr x, c1)" "f x c1 = (r, c')"
  using assms by (auto simp: bindC_def split: prod.splits sum.splits)

lemma bindC_InrD: "bindC m f c = (Inr y, c') \<Longrightarrow> \<exists>x c1. m c = (Inr x, c1) \<and> f x c1 = (Inr y, c')"
  by (auto simp: bindC_def split: prod.splits sum.splits)

text \<open>A connection whose peer sends \<open>d\<close> and closes, and takes everything.\<close>

definition peer :: "byte list \<Rightarrow> conn" where
  "peer d = \<lparr>rd_data = d, rd_err = EOF, wr_room = None, wr_err = EOF, wr_log = [], deadline = None,
     wr_closed = False, closed = False\<rparr>"

lemma peer_simps [simp]: "openConn (peer d)" "\<not> closed (peer d)" "rd_data (peer d) = d" "wr_log (peer d) = []"
  by (simp_all add: peer_def openConn_def)

end
