(* ===== verification/Logx.thy ===== *)
theory Logx
  imports Go_Conn
begin

text \<open>
  The package \<open>logx\<close> (\<open>internal/logx/logx.go\<close>): levels, the logger and its gates, the data dump,
  and \<open>Copy\<close>, the loop both relays move bytes with. A logger pointer is an option, \<^const>\<open>None\<close>
  for nil. What a call writes to the log is the list of entries it returns; the text of an error
  argument is not modelled. A reader is the sequence of results its \<open>Read\<close> calls give; where the
  sequence ends without an error the next \<open>Read\<close> blocks for ever, and \<open>Copy\<close> has no result.
\<close>

section \<open>Levels and the logger\<close>

definition LevelError :: int where "LevelError = 0"
definition LevelWarn :: int where "LevelWarn = 1"
definition LevelInfo :: int where "LevelInfo = 2"
definition LevelDebug :: int where "LevelDebug = 3"
definition MaxLevel :: int where "MaxLevel = LevelDebug"

lemmas level_defs = LevelError_def LevelWarn_def LevelInfo_def LevelDebug_def MaxLevel_def

definition Clamp :: "int \<Rightarrow> int" where
  "Clamp level = (if level < LevelError then LevelError else if MaxLevel < level then MaxLevel else level)"

record logger =
  level :: int
  verbose :: bool

definition New :: "int \<Rightarrow> bool \<Rightarrow> logger option" where
  "New lv v = Some \<lparr>level = Clamp lv, verbose = v\<rparr>"

datatype log_arg = ArgS string | ArgI int | ArgErr

datatype log_entry =
    Printf string "log_arg list"
  | Dump string

definition log_Error :: "logger option \<Rightarrow> string \<Rightarrow> log_arg list \<Rightarrow> log_entry list" where
  "log_Error l format args = [Printf format args]"

definition log_Print :: "logger option \<Rightarrow> string \<Rightarrow> log_arg list \<Rightarrow> log_entry list" where
  "log_Print l format args = [Printf format args]"

definition logAt :: "logger option \<Rightarrow> int \<Rightarrow> string \<Rightarrow> log_arg list \<Rightarrow> log_entry list" where
  "logAt l min_level format args =
     (case l of None \<Rightarrow> [] | Some lg \<Rightarrow> if level lg < min_level then [] else [Printf format args])"

definition log_Warn :: "logger option \<Rightarrow> string \<Rightarrow> log_arg list \<Rightarrow> log_entry list" where
  "log_Warn l format args = logAt l LevelWarn format args"

definition log_Info :: "logger option \<Rightarrow> string \<Rightarrow> log_arg list \<Rightarrow> log_entry list" where
  "log_Info l format args = logAt l LevelInfo format args"

definition log_Debug :: "logger option \<Rightarrow> string \<Rightarrow> log_arg list \<Rightarrow> log_entry list" where
  "log_Debug l format args = logAt l LevelDebug format args"

definition InfoEnabled :: "logger option \<Rightarrow> bool" where
  "InfoEnabled l = (case l of None \<Rightarrow> False | Some lg \<Rightarrow> LevelInfo \<le> level lg)"

definition DebugEnabled :: "logger option \<Rightarrow> bool" where
  "DebugEnabled l = (case l of None \<Rightarrow> False | Some lg \<Rightarrow> LevelDebug \<le> level lg)"

definition log_Verbose :: "logger option \<Rightarrow> bool" where
  "log_Verbose l = (case l of None \<Rightarrow> False | Some lg \<Rightarrow> verbose lg)"

definition Data :: "(nat \<Rightarrow> bool) \<Rightarrow> logger option \<Rightarrow> string \<Rightarrow> bool \<Rightarrow> byte list \<Rightarrow> log_entry list" where
  "Data isPrint l label out p =
     (if \<not> log_Verbose l \<or> length p = 0 then []
      else let arrow = (if out then ''> '' else ''< '') in
        [Dump (label @ '': '' @ arrow @ Quote isPrint (stringOf p) @ [CHR 0x0A])])"

section \<open>Copy\<close>

type_synonym reads = "(byte list \<times> io_error option) list"
type_synonym 's writer = "'s \<Rightarrow> byte list \<Rightarrow> nat \<times> io_error option \<times> 's"

text \<open>\<open>io.Copy\<close> by its generic loop: the result (none while a read blocks) and the destination.\<close>

fun ioCopy :: "'s writer \<Rightarrow> reads \<Rightarrow> 's \<Rightarrow> int \<Rightarrow> (int \<times> io_error option) option \<times> 's" where
  "ioCopy wrf [] s tot = (None, s)"
| "ioCopy wrf ((chunk, rerr) # rs) s tot =
     (let n = length chunk in
      if 0 < n then
        (case wrf s chunk of (wn, werr, s') \<Rightarrow>
           let nw = (if n < wn then 0 else wn);
               ew = (if n < wn \<and> werr = None then Some ErrInvalidWrite else werr);
               tot' = tot + int nw
           in if ew \<noteq> None then (Some (tot', ew), s')
              else if nw \<noteq> n then (Some (tot', Some ErrShortWrite), s')
              else (case rerr of
                  Some e \<Rightarrow> (Some (tot', if e = EOF then None else Some e), s')
                | None \<Rightarrow> ioCopy wrf rs s' tot'))
      else (case rerr of
          Some e \<Rightarrow> (Some (tot, if e = EOF then None else Some e), s)
        | None \<Rightarrow> ioCopy wrf rs s tot))"

text \<open>The instrumented loop of \<open>Copy\<close>, with the log entries of each chunk.\<close>

fun copyLoop :: "(nat \<Rightarrow> bool) \<Rightarrow> logger option \<Rightarrow> string \<Rightarrow> bool \<Rightarrow> string \<Rightarrow> 's writer \<Rightarrow> reads \<Rightarrow> 's \<Rightarrow> int
    \<Rightarrow> (int \<times> io_error option) option \<times> 's \<times> log_entry list" where
  "copyLoop isPrint l label out arrow wrf [] s tot = (None, s, [])"
| "copyLoop isPrint l label out arrow wrf ((chunk, rerr) # rs) s tot =
     (let n = length chunk in
      if 0 < n then
        let lg = Data isPrint l label out chunk @
                 log_Debug l ''%s: %s %d bytes'' [ArgS label, ArgS arrow, ArgI (int n)] in
        (case wrf s chunk of (wn, werr, s') \<Rightarrow>
           let tot' = tot + int wn in
           if werr \<noteq> None then (Some (tot', werr), s', lg)
           else if wn \<noteq> n then (Some (tot', Some ErrShortWrite), s', lg)
           else (case rerr of
               Some e \<Rightarrow> (Some (tot', if e = EOF then None else Some e), s', lg)
             | None \<Rightarrow>
                 (case copyLoop isPrint l label out arrow wrf rs s' tot' of
                    (res, s'', lg') \<Rightarrow> (res, s'', lg @ lg'))))
      else (case rerr of
          Some e \<Rightarrow> (Some (tot, if e = EOF then None else Some e), s, [])
        | None \<Rightarrow> copyLoop isPrint l label out arrow wrf rs s tot))"

definition Copy :: "(nat \<Rightarrow> bool) \<Rightarrow> logger option \<Rightarrow> string \<Rightarrow> bool \<Rightarrow> 's writer \<Rightarrow> reads \<Rightarrow> 's
    \<Rightarrow> (int \<times> io_error option) option \<times> 's \<times> log_entry list" where
  "Copy isPrint l label out wrf rs dst =
     (if \<not> log_Verbose l \<and> \<not> DebugEnabled l
      then (case ioCopy wrf rs dst 0 of (res, s) \<Rightarrow> (res, s, []))
      else copyLoop isPrint l label out (if out then ''->'' else ''<-'') wrf rs dst 0)"

section \<open>What a writer promises\<close>

text \<open>The contract of \<open>io.Writer\<close>: the count is at most the length of the argument, the bytes counted
  are the ones appended to what the writer has taken, and a short count comes with an error.\<close>

locale io_writer =
  fixes wrf :: "'s writer" and taken :: "'s \<Rightarrow> byte list"
  assumes write_prefix: "wrf s bs = (n, e, s') \<Longrightarrow> n \<le> length bs \<and> taken s' = taken s @ take n bs"
    and write_short: "wrf s bs = (n, e, s') \<Longrightarrow> n < length bs \<Longrightarrow> e \<noteq> None"
begin

lemma copyLoop_ioCopy:
  "(case copyLoop isPrint l label out arrow wrf rs s tot of (res, s', lg) \<Rightarrow> (res, s')) = ioCopy wrf rs s tot"
proof (induction rs arbitrary: s tot)
  case (Cons r rs)
  obtain chunk rerr where r: "r = (chunk, rerr)" by (cases r)
  show ?case
  proof (cases "chunk = []")
    case True
    then show ?thesis using Cons r by (auto split: option.splits)
  next
    case False
    obtain wn werr s' where w: "wrf s chunk = (wn, werr, s')" by (metis prod_cases3)
    then have "wn \<le> length chunk" using write_prefix by blast
    then show ?thesis
      using False r w Cons [of s' "tot + int wn"]
      by (auto simp: Let_def split: option.splits prod.splits)
  qed
qed simp

lemma Copy_ioCopy:
  "(case Copy isPrint l label out wrf rs s of (res, s', lg) \<Rightarrow> (res, s')) = ioCopy wrf rs s 0"
  using copyLoop_ioCopy by (auto simp: Copy_def split: prod.splits)

text \<open>Only a prefix of what was read is ever written, and the total counts it.\<close>

lemma ioCopy_prefix:
  "ioCopy wrf rs s tot = (res, s') \<Longrightarrow>
   \<exists>k. taken s' = taken s @ take k (concat (map fst rs)) \<and> k \<le> length (concat (map fst rs)) \<and>
     (\<forall>t e. res = Some (t, e) \<longrightarrow> t = tot + int k)"
proof (induction rs arbitrary: s tot)
  case Nil
  then show ?case by auto
next
  case (Cons r rs)
  obtain chunk rerr where r: "r = (chunk, rerr)" by (cases r)
  obtain wn werr s1 where w: "wrf s chunk = (wn, werr, s1)" by (metis prod_cases3)
  have wp: "wn \<le> length chunk" "taken s1 = taken s @ take wn chunk" using w write_prefix by blast+
  consider (empty) "chunk = []" | (stop) "chunk \<noteq> []" "werr \<noteq> None \<or> wn \<noteq> length chunk \<or> rerr \<noteq> None"
    | (go) "chunk \<noteq> []" "werr = None" "wn = length chunk" "rerr = None" by blast
  then show ?case
  proof cases
    case empty
    then show ?thesis using Cons r by (cases rerr) auto
  next
    case stop
    then have "s' = s1" "\<forall>t e. res = Some (t, e) \<longrightarrow> t = tot + int wn"
      using Cons.prems r w wp by (auto simp: Let_def split: if_splits option.splits)
    with wp r show ?thesis by (intro exI [of _ wn]) auto
  next
    case go
    with Cons.prems r w have "ioCopy wrf rs s1 (tot + int (length chunk)) = (res, s')"
      by simp
    from Cons.IH [OF this] obtain k where
      "taken s' = taken s1 @ take k (concat (map fst rs))" "k \<le> length (concat (map fst rs))"
      "\<forall>t e. res = Some (t, e) \<longrightarrow> t = tot + int (length chunk) + int k" by blast
    with go r wp show ?thesis by (intro exI [of _ "length chunk + k"]) auto
  qed
qed

text \<open>A result without an error means that everything up to the end of the stream was written.\<close>

lemma ioCopy_complete:
  "ioCopy wrf rs s tot = (Some (t, None), s') \<Longrightarrow>
   \<exists>rs1 chunk rs2. rs = rs1 @ (chunk, Some EOF) # rs2 \<and> list_all (\<lambda>r. snd r = None) rs1 \<and>
     taken s' = taken s @ concat (map fst rs1) @ chunk \<and>
     t = tot + int (length (concat (map fst rs1) @ chunk))"
proof (induction rs arbitrary: s tot)
  case (Cons r rs)
  obtain chunk rerr where r: "r = (chunk, rerr)" by (cases r)
  obtain wn werr s1 where w: "wrf s chunk = (wn, werr, s1)" by (metis prod_cases3)
  have full: "chunk \<noteq> [] \<Longrightarrow> wn = length chunk \<and> werr = None \<and> taken s1 = taken s @ chunk"
    using Cons.prems r w write_prefix [OF w] by (auto simp: Let_def split: if_splits)
  show ?case
  proof (cases rerr)
    case (Some e)
    then show ?thesis
      using Cons.prems r w full
      by (intro exI [of _ "[]"] exI [of _ chunk] exI [of _ rs]) (cases "chunk = []", auto split: if_splits)
  next
    case None
    let ?s = "if chunk = [] then s else s1"
    have "ioCopy wrf rs ?s (tot + int (length chunk)) = (Some (t, None), s')"
      using Cons.prems r w full None by (auto split: if_splits)
    from Cons.IH [OF this] obtain rs1 c2 rs2 where
      "rs = rs1 @ (c2, Some EOF) # rs2" "list_all (\<lambda>r. snd r = None) rs1"
      "taken s' = taken ?s @ concat (map fst rs1) @ c2"
      "t = tot + int (length chunk) + int (length (concat (map fst rs1) @ c2))" by blast
    with r None full show ?thesis
      by (intro exI [of _ "(chunk, None) # rs1"] exI [of _ c2] exI [of _ rs2]) auto
  qed
qed simp

end

text \<open>A writer that does not fail on the bytes still to come copies the whole stream.\<close>

locale total_writer = io_writer +
  fixes ready :: "'a \<Rightarrow> bool"
  assumes write_all: "ready s \<Longrightarrow> \<exists>s'. wrf s bs = (length bs, None, s') \<and> ready s'"
begin

lemma ioCopy_total:
  assumes "ready s"
  shows "\<exists>s'. ioCopy wrf (map (\<lambda>b. (b, None)) chunks @ [([], Some e)]) s tot =
     (Some (tot + int (length (concat chunks)), if e = EOF then None else Some e), s') \<and>
     taken s' = taken s @ concat chunks \<and> ready s'"
  using assms
proof (induction chunks arbitrary: s tot)
  case (Cons b bs)
  show ?case
  proof (cases "b = []")
    case True
    then show ?thesis using Cons by simp
  next
    case False
    obtain s1 where s1: "wrf s b = (length b, None, s1)" "ready s1" using write_all Cons.prems by blast
    then have t1: "taken s1 = taken s @ b" using write_prefix by fastforce
    from Cons.IH [OF s1(2), of "tot + int (length b)"] show ?thesis
      using False s1 t1 by (auto simp: add.assoc)
  qed
qed simp

end

interpretation conn_writer: io_writer conn_write wr_log
  by unfold_locales (auto simp: conn_write_def split: if_splits option.splits)

interpretation conn_total: total_writer conn_write wr_log openConn
  by unfold_locales (auto simp: conn_write_def openConn_def)

section \<open>Properties of the logger and of Copy\<close>

lemma Clamp_range: "LevelError \<le> Clamp lv \<and> Clamp lv \<le> MaxLevel"
  by (simp add: Clamp_def level_defs)

text \<open>Stacking: a configured logger prints a message of a tier exactly when its level, clamped
  to the four tiers, reaches that tier, whatever integer was given; so each further tier includes
  the ones before it, and the two enabling tests agree with the gates.\<close>

theorem logger_tiers:
  "(log_Warn (New lv v) fmt args \<noteq> [] \<longleftrightarrow> 1 \<le> lv) \<and>
   (log_Info (New lv v) fmt args \<noteq> [] \<longleftrightarrow> 2 \<le> lv) \<and>
   (log_Debug (New lv v) fmt args \<noteq> [] \<longleftrightarrow> 3 \<le> lv) \<and>
   (InfoEnabled (New lv v) \<longleftrightarrow> log_Info (New lv v) fmt args \<noteq> []) \<and>
   (DebugEnabled (New lv v) \<longleftrightarrow> log_Debug (New lv v) fmt args \<noteq> []) \<and>
   log_Error (New lv v) fmt args = [Printf fmt args] \<and>
   (\<forall>x \<in> {log_Warn, log_Info, log_Debug}. x None fmt args = x (New LevelError False) fmt args)"
  by (simp add: New_def Clamp_def log_Warn_def log_Info_def log_Debug_def logAt_def InfoEnabled_def
      DebugEnabled_def log_Error_def level_defs)

theorem logger_tiers_witness:
  "log_Info (New 7 False) ''x'' [] \<noteq> [] \<and> log_Warn (New (-2) True) ''x'' [] = [] \<and>
   log_Debug None ''x'' [] = log_Debug (New LevelError False) ''x'' []"
  using logger_tiers [of 7 False "''x''" "[]"] logger_tiers [of "-2" True "''x''" "[]"] by simp

lemma plainChar_no_LF: "list_all plainChar s \<Longrightarrow> CHR 0x0A \<notin> set s"
  using plainChar_not_newline by (auto simp: list_all_iff)

text \<open>The dump of a chunk stays on one line whatever bytes were relayed: with a label free of
  line feeds, the entry written has exactly one line feed, its last character.\<close>

theorem data_one_line:
  assumes "CHR 0x0A \<notin> set label" and "p \<noteq> []" and "log_Verbose l"
  shows "\<exists>s. Data isPrint l label out p = [Dump (s @ [CHR 0x0A])] \<and> CHR 0x0A \<notin> set s"
proof -
  have "CHR 0x0A \<notin> set (Quote isPrint (stringOf p))"
    by (rule plainChar_no_LF [OF Quote_plain])
  with assms show ?thesis
    by (auto simp: Data_def intro!: exI [of _ "label @ '': '' @ (if out then ''> '' else ''< '') @ Quote isPrint (stringOf p)"])
qed

theorem data_one_line_witness:
  "\<exists>s. Data (\<lambda>r. True) (New 0 True) ''tcp'' True [0x41, 0x0A, 0xFF] = [Dump (s @ [CHR 0x0A])] \<and> CHR 0x0A \<notin> set s"
  by (rule data_one_line) (simp_all add: New_def log_Verbose_def)

text \<open>The instrumented loop of \<open>Copy\<close> moves the same bytes with the same result as \<open>io.Copy\<close>, for
  every logger, every sequence of reads and every destination connection, failing ones included.\<close>

theorem copy_equals_ioCopy:
  "fst (Copy isPrint l label out conn_write rs dst) = fst (ioCopy conn_write rs dst 0) \<and>
   fst (snd (Copy isPrint l label out conn_write rs dst)) = snd (ioCopy conn_write rs dst 0)"
  using conn_writer.Copy_ioCopy [of isPrint l label out rs dst]
  by (metis (no_types, lifting) case_prod_conv prod.collapse prod.sel)

lemma Copy_split:
  "Copy isPrint l label out conn_write rs dst = (res, dst', lg) \<Longrightarrow> ioCopy conn_write rs dst 0 = (res, dst')"
  using conn_writer.Copy_ioCopy [of isPrint l label out rs dst] by simp

text \<open>Nothing is invented, reordered or counted wrongly: whatever happens, the bytes handed to the
  destination are a prefix of the bytes read, the returned count is its length, and a nil error means
  that the stream ended and all of it up to there was written.\<close>

theorem copy_writes_prefix:
  assumes "Copy isPrint l label out conn_write rs dst = (Some (n, e), dst', lg)"
  shows "\<exists>k. n = int k \<and> wr_log dst' = wr_log dst @ take k (concat (map fst rs)) \<and> k \<le> length (concat (map fst rs)) \<and>
     (e = None \<longrightarrow> (\<exists>rs1 chunk rs2. rs = rs1 @ (chunk, Some EOF) # rs2 \<and> list_all (\<lambda>r. snd r = None) rs1 \<and>
        wr_log dst' = wr_log dst @ concat (map fst rs1) @ chunk))"
proof -
  have c: "ioCopy conn_write rs dst 0 = (Some (n, e), dst')" using assms by (rule Copy_split)
  obtain k where "wr_log dst' = wr_log dst @ take k (concat (map fst rs))" "k \<le> length (concat (map fst rs))" "n = int k"
    using conn_writer.ioCopy_prefix [OF c] by auto
  with c conn_writer.ioCopy_complete [of rs dst 0 n dst'] show ?thesis
    by (intro exI [of _ k]) blast
qed

theorem copy_writes_prefix_witness:
  "\<exists>k. (2::int) = int k \<and> [1, 2] = take k [1, 2, 3::byte]"
proof -
  let ?dst = "\<lparr>rd_data = [], rd_err = EOF, wr_room = Some 2, wr_err = OtherErr ''EPIPE'', wr_log = [], deadline = None, wr_closed = False, closed = False\<rparr>"
  have "Copy (\<lambda>r. True) None ''t'' True conn_write [([1, 2, 3], None)] ?dst =
      (Some (2, Some (OtherErr ''EPIPE'')), ?dst\<lparr>wr_log := [1, 2], wr_room := Some 0\<rparr>, [])"
    by (simp add: Copy_def log_Verbose_def DebugEnabled_def conn_write_def)
  from copy_writes_prefix [OF this] show ?thesis by auto
qed

text \<open>A stream that ends is relayed whole and the loop returns: into an open connection, every chunk
  read arrives in order, the count is the length of the stream, and only an error of the source other
  than its end is reported.\<close>

theorem copy_relays_stream:
  assumes "openConn dst"
  shows "\<exists>dst' lg. Copy isPrint l label out conn_write (map (\<lambda>b. (b, None)) chunks @ [([], Some e)]) dst =
     (Some (int (length (concat chunks)), if e = EOF then None else Some e), dst', lg) \<and>
     wr_log dst' = wr_log dst @ concat chunks \<and> openConn dst'"
proof -
  let ?rs = "map (\<lambda>b. (b, None)) chunks @ [([], Some e)]"
  obtain res dst' lg where c: "Copy isPrint l label out conn_write ?rs dst = (res, dst', lg)" by (metis prod_cases3)
  with conn_total.ioCopy_total [OF assms, of chunks e 0] Copy_split [OF c] show ?thesis by auto
qed

theorem copy_relays_stream_witness:
  "\<exists>dst' lg. Copy (\<lambda>r. True) (New 3 True) ''t'' True conn_write [([1, 2], None), ([3], None), ([], Some EOF)]
       (peer []) =
     (Some (3, None), dst', lg) \<and> wr_log dst' = [1, 2, 3]"
proof -
  have "openConn (peer [])" by simp
  from copy_relays_stream [OF this, of "\<lambda>r. True" "New 3 True" "''t''" True "[[1, 2], [3]]" EOF] show ?thesis
    by auto
qed

end
