(* ===== verification/Pipe.thy ===== *)
theory Pipe
  imports Logx
begin

text \<open>
  The bidirectional relay: \<open>pipeConn\<close> (\<open>internal/relay/tcp.go\<close>), \<open>pipeSOCKS\<close>
  (\<open>internal/proxy/socks.go\<close>) and the tunnel of \<open>handleConnect\<close> (\<open>internal/proxy/http.go\<close>) run one
  goroutine per direction. A direction is a state machine whose step is one turn of the loop of
  \<open>Copy\<close>, a read and the write of what was read; the two directions take their steps in any order.
  The bytes read from a connection are given by the sequence of its \<open>Read\<close> results.
\<close>

section \<open>One direction\<close>

record dir =
  d_out :: bool
  d_reads :: reads
  d_dst :: conn
  d_hc :: bool
  d_total :: int
  d_done :: bool
  d_err :: "io_error option"
  d_log :: "log_entry list"

text \<open>\<open>if hc, ok := dst.(halfCloser); ok \<lbrace> hc.CloseWrite() \<rbrace>\<close>; the flag says whether it is one.\<close>

definition halfClose :: "bool \<Rightarrow> conn \<Rightarrow> conn" where
  "halfClose hc c = (if hc then conn_closeWrite c else c)"

lemma wr_log_halfClose [simp]: "wr_log (halfClose hc c) = wr_log c" "deadline (halfClose hc c) = deadline c"
  by (simp_all add: halfClose_def conn_closeWrite_def)

definition finishDir :: "io_error option \<Rightarrow> dir \<Rightarrow> dir" where
  "finishDir e d = d\<lparr>d_done := True, d_err := e, d_dst := halfClose (d_hc d) (d_dst d)\<rparr>"

definition endRead :: "io_error option \<Rightarrow> dir \<Rightarrow> dir" where
  "endRead rerr d = (case rerr of None \<Rightarrow> d | Some e \<Rightarrow> finishDir (if e = EOF then None else Some e) d)"

definition arrowOf :: "bool \<Rightarrow> string" where
  "arrowOf out = (if out then ''->'' else ''<-'')"

definition dirStep :: "(nat \<Rightarrow> bool) \<Rightarrow> logger option \<Rightarrow> string \<Rightarrow> dir \<Rightarrow> dir option" where
  "dirStep isPrint l label d =
     (if d_done d then None
      else case d_reads d of
          [] \<Rightarrow> None
        | (chunk, rerr) # rs \<Rightarrow>
            (let n = length chunk; d1 = d\<lparr>d_reads := rs\<rparr> in
             if 0 < n then
               (case conn_write (d_dst d) chunk of (wn, werr, s') \<Rightarrow>
                  let lg = Data isPrint l label (d_out d) chunk @
                           log_Debug l ''%s: %s %d bytes'' [ArgS label, ArgS (arrowOf (d_out d)), ArgI (int n)];
                      d2 = d1\<lparr>d_dst := s', d_total := d_total d + int wn, d_log := d_log d @ lg\<rparr>
                  in Some (if werr \<noteq> None then finishDir werr d2
                           else if wn \<noteq> n then finishDir (Some ErrShortWrite) d2
                           else endRead rerr d2))
             else Some (endRead rerr d1)))"

text \<open>What the goroutine of a direction ends with, if it ends: the count, the error \<open>Copy\<close> returns, the
  destination after the half-close, and the log.\<close>

definition outcome :: "(nat \<Rightarrow> bool) \<Rightarrow> logger option \<Rightarrow> string \<Rightarrow> dir \<Rightarrow> (int \<times> io_error option \<times> conn \<times> log_entry list) option" where
  "outcome isPrint l label d =
     (if d_done d then Some (d_total d, d_err d, d_dst d, d_log d)
      else case copyLoop isPrint l label (d_out d) (arrowOf (d_out d)) conn_write (d_reads d) (d_dst d) (d_total d) of
          (None, _, _) \<Rightarrow> None
        | (Some (t, e), s, lg) \<Rightarrow> Some (t, e, halfClose (d_hc d) s, d_log d @ lg))"

definition startDir :: "bool \<Rightarrow> reads \<Rightarrow> bool \<Rightarrow> conn \<Rightarrow> dir" where
  "startDir out rs hc dst = \<lparr>d_out = out, d_reads = rs, d_dst = dst, d_hc = hc, d_total = 0, d_done = False,
     d_err = None, d_log = []\<rparr>"

text \<open>Without instrumentation the loop logs nothing, so one loop describes both forms of \<open>Copy\<close>.\<close>

lemma copyLoop_quiet:
  "\<not> log_Verbose l \<Longrightarrow> \<not> DebugEnabled l \<Longrightarrow> snd (snd (copyLoop isPrint l label out arrow wrf rs s tot)) = []"
proof (induction rs arbitrary: s tot)
  case (Cons r rs)
  have quiet: "Data isPrint l label out c = []" "log_Debug l f a = []" for c f a
    using Cons.prems by (auto simp: Data_def log_Debug_def logAt_def DebugEnabled_def split: option.splits)
  obtain chunk rerr where r: "r = (chunk, rerr)" by (cases r)
  obtain wn werr s1 where w: "wrf s chunk = (wn, werr, s1)" by (metis prod_cases3)
  have IH: "snd (snd (copyLoop isPrint l label out arrow wrf rs s' t')) = []" for s' t'
    using Cons by blast
  show ?case
    using r w IH quiet by (auto simp: Let_def split: option.splits prod.splits)
qed simp

lemma Copy_copyLoop:
  "Copy isPrint l label out conn_write rs dst = copyLoop isPrint l label out (arrowOf out) conn_write rs dst 0"
proof (cases "\<not> log_Verbose l \<and> \<not> DebugEnabled l")
  case True
  obtain res s lg where c: "copyLoop isPrint l label out (arrowOf out) conn_write rs dst 0 = (res, s, lg)"
    by (metis prod_cases3)
  with copyLoop_quiet [of l isPrint label out "arrowOf out" conn_write rs dst 0] True have "lg = []" by simp
  moreover from c conn_writer.copyLoop_ioCopy [of isPrint l label out "arrowOf out" rs dst 0]
  have "ioCopy conn_write rs dst 0 = (res, s)" by simp
  ultimately show ?thesis using True c by (simp add: Copy_def)
qed (auto simp: Copy_def arrowOf_def)

lemma outcome_start:
  "outcome isPrint l label (startDir out rs hc dst) =
     (case Copy isPrint l label out conn_write rs dst of
        (None, _, _) \<Rightarrow> None | (Some (t, e), s, lg) \<Rightarrow> Some (t, e, halfClose hc s, lg))"
  by (simp add: outcome_def startDir_def Copy_copyLoop split: option.splits prod.splits)

lemma outcome_step:
  assumes "dirStep isPrint l label d = Some d'"
  shows "outcome isPrint l label d' = outcome isPrint l label d"
proof -
  obtain chunk rerr rs where d: "\<not> d_done d" "d_reads d = (chunk, rerr) # rs"
    using assms by (auto simp: dirStep_def split: if_splits list.splits)
  obtain wn werr s where w: "conn_write (d_dst d) chunk = (wn, werr, s)" by (metis prod_cases3)
  show ?thesis
  proof (cases "chunk = []")
    case True
    with assms d show ?thesis
      by (cases rerr) (auto simp: dirStep_def outcome_def endRead_def finishDir_def split: prod.splits option.splits)
  next
    case False
    with assms d w show ?thesis
      by (cases rerr)
        (auto simp: dirStep_def outcome_def endRead_def finishDir_def Let_def split: if_splits prod.splits option.splits)
  qed
qed

lemma dirStep_shrinks: "dirStep isPrint l label d = Some d' \<Longrightarrow> length (d_reads d) = Suc (length (d_reads d'))"
  by (auto simp: dirStep_def endRead_def finishDir_def Let_def split: if_splits list.splits option.splits prod.splits)

section \<open>Both directions\<close>

text \<open>A turn of either goroutine. The pair is (towards the target, back to the client).\<close>

inductive pipeStep :: "(nat \<Rightarrow> bool) \<Rightarrow> logger option \<Rightarrow> string \<Rightarrow> dir \<times> dir \<Rightarrow> dir \<times> dir \<Rightarrow> bool"
  for isPrint l label where
  towards: "dirStep isPrint l label a = Some a' \<Longrightarrow> pipeStep isPrint l label (a, b) (a', b)"
| backward: "dirStep isPrint l label b = Some b' \<Longrightarrow> pipeStep isPrint l label (a, b) (a, b')"

inductive_simps pipeStep_pair: "pipeStep isPrint l label (a, b) (a', b')"
inductive_cases pipeStepE: "pipeStep isPrint l label s t"

inductive pipeRun :: "(nat \<Rightarrow> bool) \<Rightarrow> logger option \<Rightarrow> string \<Rightarrow> dir \<times> dir \<Rightarrow> dir \<times> dir \<Rightarrow> bool"
  for isPrint l label where
  stop: "pipeRun isPrint l label s s"
| turn: "pipeStep isPrint l label s t \<Longrightarrow> pipeRun isPrint l label t u \<Longrightarrow> pipeRun isPrint l label s u"

text \<open>\<open>wg.Wait()\<close> returns when both goroutines are done.\<close>

definition bothDone :: "dir \<times> dir \<Rightarrow> bool" where
  "bothDone s \<longleftrightarrow> d_done (fst s) \<and> d_done (snd s)"

text \<open>The three relays as they start: \<open>pipeConn\<close> and \<open>pipeSOCKS\<close> half-close each destination that
  supports it, the tunnel of \<open>handleConnect\<close> does not half-close at all.\<close>

definition pipeConn :: "bool \<Rightarrow> bool \<Rightarrow> reads \<Rightarrow> reads \<Rightarrow> conn \<Rightarrow> conn \<Rightarrow> dir \<times> dir" where
  "pipeConn hcA hcB ra rb a b = (startDir True ra hcB b, startDir False rb hcA a)"

definition pipeSOCKS :: "bool \<Rightarrow> bool \<Rightarrow> reads \<Rightarrow> reads \<Rightarrow> conn \<Rightarrow> conn \<Rightarrow> dir \<times> dir" where
  "pipeSOCKS hcA hcB ra rb a b = (startDir True ra hcB b, startDir False rb hcA a)"

definition pipeTunnel :: "reads \<Rightarrow> reads \<Rightarrow> conn \<Rightarrow> conn \<Rightarrow> dir \<times> dir" where
  "pipeTunnel ra rb src dst = (startDir True ra False dst, startDir False rb False src)"

lemma outcome_run:
  "pipeRun isPrint l label s t \<Longrightarrow>
   outcome isPrint l label (fst t) = outcome isPrint l label (fst s) \<and>
   outcome isPrint l label (snd t) = outcome isPrint l label (snd s)"
proof (induction rule: pipeRun.induct)
  case (turn s t u)
  then show ?case by (cases s; cases t) (auto simp: pipeStep_pair dest: outcome_step)
qed simp

definition pipeSize :: "dir \<times> dir \<Rightarrow> nat" where
  "pipeSize s = length (d_reads (fst s)) + length (d_reads (snd s))"

lemma pipeStep_shrinks: "pipeStep isPrint l label s t \<Longrightarrow> pipeSize t < pipeSize s"
  by (cases s; cases t) (auto simp: pipeStep_pair pipeSize_def dest!: dirStep_shrinks)

text \<open>A direction whose source ends: some read of its sequence returns an error.\<close>

definition endsDir :: "dir \<Rightarrow> bool" where
  "endsDir d \<longleftrightarrow> d_done d \<or> (\<exists>r \<in> set (d_reads d). snd r \<noteq> None)"

lemma endsDir_step: "endsDir d \<Longrightarrow> dirStep isPrint l label d = Some d' \<Longrightarrow> endsDir d'"
  by (auto simp: endsDir_def dirStep_def endRead_def finishDir_def Let_def split: if_splits list.splits option.splits prod.splits)

lemma endsDir_progress: "endsDir d \<Longrightarrow> \<not> d_done d \<Longrightarrow> \<exists>d'. dirStep isPrint l label d = Some d'"
  by (auto simp: endsDir_def dirStep_def Let_def split: list.splits prod.splits)

lemma pipe_completes:
  "endsDir (fst s) \<Longrightarrow> endsDir (snd s) \<Longrightarrow> \<exists>t. pipeRun isPrint l label s t \<and> bothDone t"
proof (induction "pipeSize s" arbitrary: s rule: less_induct)
  case less
  obtain a b where s: "s = (a, b)" by (cases s)
  show ?case
  proof (cases "bothDone s")
    case True
    then show ?thesis using pipeRun.stop by blast
  next
    case False
    with less.prems s obtain t where t: "pipeStep isPrint l label s t" "endsDir (fst t)" "endsDir (snd t)"
      unfolding bothDone_def
      by (metis endsDir_progress endsDir_step fst_conv snd_conv pipeStep.intros)
    from less.hyps [OF pipeStep_shrinks [OF t(1)] t(2,3)] t(1) show ?thesis
      using pipeRun.turn by blast
  qed
qed

lemma endsDir_run:
  "pipeRun isPrint l label s t \<Longrightarrow> endsDir (fst s) \<and> endsDir (snd s) \<Longrightarrow> endsDir (fst t) \<and> endsDir (snd t)"
proof (induction rule: pipeRun.induct)
  case (turn s t u)
  then show ?case by (cases s; cases t) (auto simp: pipeStep_pair dest: endsDir_step)
qed simp

lemma pipeStep_bound: "(pipeStep isPrint l label ^^ n) s t \<Longrightarrow> n + pipeSize t \<le> pipeSize s"
proof (induction n arbitrary: t)
  case (Suc n)
  then obtain u where "(pipeStep isPrint l label ^^ n) s u" "pipeStep isPrint l label u t" by auto
  with Suc.IH [of u] pipeStep_shrinks [of isPrint l label u t] show ?case by simp
qed simp

section \<open>Properties of the relay\<close>

text \<open>C8. The order in which the two goroutines take their turns does not matter: when both are done, the
  counts, errors, destinations and logs of the two directions are those of running \<open>Copy\<close> on each
  direction alone, with the half-close after it.\<close>

theorem pipeConn_schedule_independent:
  assumes "pipeRun isPrint l label (pipeConn hcA hcB ra rb a b) (ds, dr)" "bothDone (ds, dr)"
  shows "\<exists>sent es b' ls recv er a' lr.
     Copy isPrint l label True conn_write ra b = (Some (sent, es), b', ls) \<and>
     Copy isPrint l label False conn_write rb a = (Some (recv, er), a', lr) \<and>
     (d_total ds, d_err ds, d_dst ds, d_log ds) = (sent, es, halfClose hcB b', ls) \<and>
     (d_total dr, d_err dr, d_dst dr, d_log dr) = (recv, er, halfClose hcA a', lr)"
proof -
  have "outcome isPrint l label ds = outcome isPrint l label (startDir True ra hcB b)"
    "outcome isPrint l label dr = outcome isPrint l label (startDir False rb hcA a)"
    using outcome_run [OF assms(1)] by (simp_all add: pipeConn_def)
  moreover have "outcome isPrint l label ds = Some (d_total ds, d_err ds, d_dst ds, d_log ds)"
    "outcome isPrint l label dr = Some (d_total dr, d_err dr, d_dst dr, d_log dr)"
    using assms(2) by (simp_all add: bothDone_def outcome_def)
  ultimately show ?thesis
    by (auto simp: outcome_start split: prod.splits option.splits)
qed

lemma pipeRun_two:
  assumes "dirStep isPrint l label a = Some a'" "dirStep isPrint l label b = Some b'"
  shows "pipeRun isPrint l label (a, b) (a', b')"
proof -
  have "pipeStep isPrint l label (a, b) (a', b)" "pipeStep isPrint l label (a', b) (a', b')"
    using assms by (auto intro: towards backward)
  then show ?thesis by (blast intro: pipeRun.intros)
qed

theorem pipeConn_schedule_independent_witness:
  "\<exists>sent es b' ls. Copy (\<lambda>r. True) None ''t'' True conn_write [([7], Some EOF)]
       (peer []) =
     (Some (sent, es), b', ls) \<and> sent = 1 \<and> wr_log b' = [7]"
proof -
  let ?c = "peer []"
  let ?s = "pipeConn True True [([7], Some EOF)] [([], Some EOF)] ?c ?c"
  let ?d1 = "the (dirStep (\<lambda>r. True) None ''t'' (fst ?s))" and ?d2 = "the (dirStep (\<lambda>r. True) None ''t'' (snd ?s))"
  note defs = dirStep_def pipeConn_def startDir_def conn_write_def endRead_def finishDir_def halfClose_def
    conn_closeWrite_def Data_def log_Verbose_def log_Debug_def logAt_def peer_def
  have "dirStep (\<lambda>r. True) None ''t'' (fst ?s) = Some ?d1" "dirStep (\<lambda>r. True) None ''t'' (snd ?s) = Some ?d2"
    by (simp_all add: defs)
  from pipeRun_two [OF this] have "pipeRun (\<lambda>r. True) None ''t'' ?s (?d1, ?d2)"
    by simp
  moreover have "bothDone (?d1, ?d2)" "d_total ?d1 = 1" "d_dst ?d1 = halfClose True (?c\<lparr>wr_log := [7]\<rparr>)"
    by (simp_all add: bothDone_def defs)
  ultimately have run: "pipeRun (\<lambda>r. True) None ''t'' ?s (?d1, ?d2)" "bothDone (?d1, ?d2)"
    and d1: "d_total ?d1 = 1" "d_dst ?d1 = halfClose True (?c\<lparr>wr_log := [7]\<rparr>)" by blast+
  from pipeConn_schedule_independent [OF run] obtain sent es b' ls where
      "Copy (\<lambda>r. True) None ''t'' True conn_write [([7], Some EOF)] ?c = (Some (sent, es), b', ls)"
      "d_total ?d1 = sent" "d_dst ?d1 = halfClose True b'"
    unfolding prod.inject by (elim exE conjE)
  moreover from this d1 have "wr_log (halfClose True b') = [7]" by (metis conn.select_convs(5) conn.surjective conn.update_convs(5) wr_log_halfClose)
  ultimately show ?thesis
    using d1 by simp
qed

text \<open>C9. The relay ends: if both streams end, then from every state it can get into, both goroutines can
  still finish, so neither waits for the other; and no execution takes more turns than there are reads.\<close>

theorem pipeConn_terminates:
  assumes "\<exists>r \<in> set ra. snd r \<noteq> None" "\<exists>r \<in> set rb. snd r \<noteq> None"
  shows "(\<forall>s. pipeRun isPrint l label (pipeConn hcA hcB ra rb a b) s \<longrightarrow>
            (\<exists>t. pipeRun isPrint l label s t \<and> bothDone t)) \<and>
         (\<forall>n t. (pipeStep isPrint l label ^^ n) (pipeConn hcA hcB ra rb a b) t \<longrightarrow> n \<le> length ra + length rb)"
proof -
  let ?s = "pipeConn hcA hcB ra rb a b"
  have e: "endsDir (fst ?s) \<and> endsDir (snd ?s)" and sz: "pipeSize ?s = length ra + length rb"
    using assms by (auto simp: pipeConn_def startDir_def endsDir_def pipeSize_def)
  have "\<exists>t. pipeRun isPrint l label s t \<and> bothDone t" if "pipeRun isPrint l label ?s s" for s
    using endsDir_run [OF that e] by (intro pipe_completes) simp_all
  moreover have "n \<le> length ra + length rb" if "(pipeStep isPrint l label ^^ n) ?s t" for n t
    using pipeStep_bound [OF that] sz by simp
  ultimately show ?thesis by blast
qed

theorem pipeConn_terminates_witness:
  "\<exists>t. pipeRun (\<lambda>r. True) None ''t'' (pipeConn True True [([7], Some EOF)] [([], Some EOF)] (peer []) (peer [])) t \<and> bothDone t"
proof -
  let ?s = "pipeConn True True [([7], Some EOF)] [([], Some EOF)] (peer []) (peer [])"
  have e: "\<exists>r \<in> set [([7 :: byte], Some EOF)]. snd r \<noteq> None" "\<exists>r \<in> set [([] :: byte list, Some EOF)]. snd r \<noteq> None"
    by simp_all
  from pipeConn_terminates [OF e, of "\<lambda>r. True" None "''t''" True True "peer []" "peer []"] pipeRun.stop show ?thesis
    by blast
qed

lemma dirStep_no_hc: "dirStep isPrint l label d = Some d' \<Longrightarrow> \<not> d_hc d \<Longrightarrow> \<not> d_hc d' \<and> (wr_closed (d_dst d') = wr_closed (d_dst d))"
  by (auto simp: dirStep_def endRead_def finishDir_def halfClose_def Let_def conn_write_def
      split: if_splits list.splits option.splits)

lemma tunnel_no_hc:
  "pipeRun isPrint l label s t \<Longrightarrow> \<not> d_hc (fst s) \<Longrightarrow> \<not> d_hc (fst t) \<and> wr_closed (d_dst (fst t)) = wr_closed (d_dst (fst s))"
proof (induction rule: pipeRun.induct)
  case (turn s t u)
  then show ?case by (cases s; cases t) (auto simp: pipeStep_pair dest: dirStep_no_hc)
qed simp

lemma copyLoop_blocks:
  "openConn s \<Longrightarrow> list_all (\<lambda>r. snd r = None) rs \<Longrightarrow> fst (copyLoop isPrint l label out arrow conn_write rs s tot) = None"
proof (induction rs arbitrary: s tot)
  case (Cons r rs)
  obtain chunk where r: "r = (chunk, None)" using Cons.prems(2) by (cases r) auto
  obtain s1 where w: "conn_write s chunk = (length chunk, None, s1)" "openConn s1"
    using conn_total.write_all [OF Cons.prems(1)] by blast
  with r Cons.IH [OF w(2)] Cons show ?case
    by (cases "chunk = []") (simp_all add: Let_def split_beta)
qed simp

text \<open>The tunnel of \<open>handleConnect\<close> never tells the target that the client has finished: in every
  state it can get into, also once the client's stream has ended, the write side of the target is as
  open as at the start; and as long as the target keeps its own stream open, the tunnel does not end.\<close>

theorem tunnel_never_half_closes:
  assumes "pipeRun isPrint l label (pipeTunnel ra rb src dst) (ds, dr)"
  shows "wr_closed (d_dst ds) = wr_closed dst \<and>
    (openConn src \<longrightarrow> list_all (\<lambda>r. snd r = None) rb \<longrightarrow> \<not> bothDone (ds, dr))"
proof -
  have "outcome isPrint l label dr = None" if "openConn src" "list_all (\<lambda>r. snd r = None) rb"
    using outcome_run [OF assms] copyLoop_blocks [OF that, of isPrint l label False "arrowOf False" 0]
    by (auto simp: pipeTunnel_def outcome_def startDir_def split: prod.splits option.splits)
  then show ?thesis
    using tunnel_no_hc [OF assms] by (auto simp: pipeTunnel_def startDir_def bothDone_def outcome_def)
qed

theorem tunnel_never_half_closes_witness:
  "\<exists>ds. pipeRun (\<lambda>r. True) None ''t'' (pipeTunnel [([], Some EOF)] [] (peer []) (peer [])) (ds, startDir False [] False (peer [])) \<and>
     d_done ds \<and> \<not> wr_closed (d_dst ds) \<and> \<not> bothDone (ds, startDir False [] False (peer []))"
proof -
  let ?ds = "finishDir None (startDir True [] False (peer []))" and ?dr = "startDir False [] False (peer [])"
  have "dirStep (\<lambda>r. True) None ''t'' (startDir True [([], Some EOF)] False (peer [])) = Some ?ds"
    by (simp add: dirStep_def startDir_def endRead_def)
  then have r: "pipeRun (\<lambda>r. True) None ''t'' (pipeTunnel [([], Some EOF)] [] (peer []) (peer [])) (?ds, ?dr)"
    unfolding pipeTunnel_def by (metis pipeRun.stop pipeRun.turn towards)
  from tunnel_never_half_closes [OF r] have "\<not> wr_closed (d_dst ?ds) \<and> \<not> bothDone (?ds, ?dr)"
    by (simp add: peer_def openConn_def)
  with r show ?thesis by (auto simp: finishDir_def)
qed

end
