(* ===== verification/Go_Net.thy ===== *)
theory Go_Net
  imports Go_Strings
begin

text \<open>
  \<open>net.SplitHostPort\<close> and \<open>net.JoinHostPort\<close> of Go's standard library, with the laws the parser,
  the relay and the SOCKS client rely on. Both directions of the round trip hold: what the split
  returns is free of brackets, so joining and splitting again gives it back.
\<close>

datatype addr_error = MissingPort | TooManyColons | MissingBracket | UnexpectedOpen | UnexpectedClose

definition SplitHostPort :: "string \<Rightarrow> (addr_error, string \<times> string) result" where
  "SplitHostPort hp =
     (let i = LastIndexByte hp CHR '':'' in
      if i < 0 then Inl MissingPort
      else bindR
        (if HasPrefix hp ''['' then
           (let e = IndexByte hp CHR '']'' in
            if e < 0 then Inl MissingBracket
            else if e + 1 = int (length hp) then Inl MissingPort
            else if e + 1 = i then Inr (sliceFrom (sliceTo hp e) 1, 1, e + 1)
            else if hp ! nat (e + 1) = CHR '':'' then Inl TooManyColons
            else Inl MissingPort)
         else if ContainsByte (sliceTo hp i) CHR '':'' then Inl TooManyColons
         else Inr (sliceTo hp i, 0, 0))
        (\<lambda>(host, j, k).
           if ContainsByte (sliceFrom hp j) CHR ''['' then Inl UnexpectedOpen
           else if ContainsByte (sliceFrom hp k) CHR '']'' then Inl UnexpectedClose
           else Inr (host, sliceFrom hp (i + 1))))"

definition JoinHostPort :: "string \<Rightarrow> string \<Rightarrow> string" where
  "JoinHostPort host port =
     (if ContainsByte host CHR '':'' then ''['' @ host @ '']:'' @ port
      else host @ '':'' @ port)"

definition noBrackets :: "string \<Rightarrow> bool" where
  "noBrackets s \<longleftrightarrow> CHR ''['' \<notin> set s \<and> CHR '']'' \<notin> set s"

lemma SplitHostPort_plain:
  assumes "CHR '':'' \<notin> set h" "CHR '':'' \<notin> set p" "noBrackets h" "noBrackets p"
  shows "SplitHostPort (h @ CHR '':'' # p) = Inr (h, p)"
proof -
  have "\<not> HasPrefix (h @ CHR '':'' # p) ''[''"
    using assms(3) by (cases h) (auto simp: noBrackets_def)
  with assms show ?thesis
    by (simp add: SplitHostPort_def LastIndexByte_append slice_append ContainsByte_def Let_def
        sliceFrom_def [of _ 0] noBrackets_def)
qed

lemma drop_bracketed: "drop (3 + length h) (c # h @ d # e # p) = p"
  by (simp add: numeral_3_eq_3)

lemma SplitHostPort_bracketed:
  assumes "CHR '':'' \<notin> set p" "noBrackets h" "noBrackets p"
  shows "SplitHostPort (''['' @ h @ '']:'' @ p) = Inr (h, p)"
proof -
  let ?s = "CHR ''['' # h @ CHR '']'' # CHR '':'' # p"
  have i: "LastIndexByte ?s CHR '':'' = int (length h) + 2"
    using LastIndexByte_append [of "CHR '':''" p "CHR ''['' # h @ [CHR '']'']"] assms(1) by simp
  have e: "IndexByte ?s CHR '']'' = int (length h) + 1"
    using IndexByte_append [of "CHR '']''" "CHR ''['' # h" "CHR '':'' # p"] assms(2)
    by (simp add: noBrackets_def)
  have "SplitHostPort ?s = Inr (h, p)"
    using assms
    by (simp add: SplitHostPort_def i e Let_def ContainsByte_def sliceTo_def sliceFrom_def
        noBrackets_def nat_add_distrib drop_bracketed)
  then show ?thesis by simp
qed

theorem SplitHostPort_JoinHostPort [simp]:
  assumes "noBrackets h" "noBrackets p" "CHR '':'' \<notin> set p"
  shows "SplitHostPort (JoinHostPort h p) = Inr (h, p)"
  using assms SplitHostPort_plain SplitHostPort_bracketed
  by (simp add: JoinHostPort_def ContainsByte_def)

text \<open>What a successful split says of its argument: the two written forms of an address.\<close>

lemma SplitHostPort_InrD:
  assumes "SplitHostPort hp = Inr (h, p)"
  shows "noBrackets h \<and> noBrackets p \<and> CHR '':'' \<notin> set p \<and>
    (hp = ''['' @ h @ '']:'' @ p \<or> (hp = h @ '':'' @ p \<and> CHR '':'' \<notin> set h))"
proof -
  from assms have "CHR '':'' \<in> set hp"
    by (auto simp: SplitHostPort_def Let_def split: if_splits)
  then obtain a b where hp: "hp = a @ CHR '':'' # b" and b: "CHR '':'' \<notin> set b"
    and i: "LastIndexByte hp CHR '':'' = int (length a)"
    by (rule LastIndexByte_split)
  show ?thesis
  proof (cases "HasPrefix hp ''[''")
    case False
    with assms hp b i show ?thesis
      by (auto simp: SplitHostPort_def Let_def slice_append ContainsByte_def noBrackets_def
          sliceFrom_def [of _ 0] split: if_splits)
  next
    case True
    with assms i have br: "CHR '']'' \<in> set hp"
      by (auto simp: SplitHostPort_def Let_def split: if_splits)
    then obtain u v where uv: "hp = u @ CHR '']'' # v" and u: "CHR '']'' \<notin> set u"
      and e: "IndexByte hp CHR '']'' = int (length u)"
      by (rule IndexByte_split)
    from assms i e True br have la: "length a = Suc (length u)"
      by (auto simp: SplitHostPort_def Let_def split: if_splits)
    have "take (length a) hp = a" using hp by simp
    moreover have "take (length a) hp = u @ [CHR '']'']" using uv la by simp
    ultimately have a: "a = u @ [CHR '']'']" by simp
    from True uv obtain t where t: "u = CHR ''['' # t"
      by (cases u) auto
    have "h = t" "p = b" "CHR ''['' \<notin> set (t @ CHR '']'' # CHR '':'' # b)" "CHR '']'' \<notin> set b"
      using assms True i e la hp
      by (auto simp: SplitHostPort_def Let_def ContainsByte_def sliceTo_def sliceFrom_def a t
          nat_add_distrib drop_bracketed split: if_splits)
    with u b show ?thesis
      unfolding hp a t by (auto simp: noBrackets_def)
  qed
qed

lemma Join_Split_stable:
  assumes "SplitHostPort hp = Inr (h, p)"
  shows "SplitHostPort (JoinHostPort h p) = Inr (h, p)"
  using SplitHostPort_InrD [OF assms] by simp

lemma JoinHostPort_contains_colon [simp]: "CHR '':'' \<in> set (JoinHostPort h p)"
  by (simp add: JoinHostPort_def)

lemma JoinHostPort_not_Nil [simp]: "JoinHostPort h p \<noteq> []"
  by (simp add: JoinHostPort_def)

end
