(* ===== verification/Config_Types.thy ===== *)
theory Config_Types
  imports Go_Net
begin

text \<open>
  The data of package \<open>config\<close>: the parsed configuration (\<open>config.go\<close>), the option scopes of
  \<open>parse.go\<close> and the errors the parser returns, one constructor per error message with the values
  the message prints.
\<close>

section \<open>The parsed configuration\<close>

datatype mode = ModeForward | ModeHTTPProxy | ModeSOCKSProxy | ModeVersion | ModeHelp

record Endpoint =
  Addr :: string
  TCP :: bool
  UDP :: bool
  SSL :: bool

record ClientTLSConfig =
  ct_KeyPath :: string
  ct_CertPath :: string
  ct_CAPath :: string
  ct_Verify :: bool

record ServerTLSConfig =
  st_KeyPath :: string
  st_CertPath :: string
  st_CAPath :: string
  st_VerifyClient :: bool

record MITMConfig =
  mi_SignCAPath :: string
  mi_ServerName :: string
  mi_CAPath :: string
  mi_VerifyClient :: bool

record ForwardAuthConfig =
  User :: string
  Pass :: string

record Config =
  Mode :: mode
  Target :: Endpoint
  Listen :: Endpoint
  UpstreamAddr :: string
  UpstreamKind :: mode
  ForwardAuth :: ForwardAuthConfig
  ClientTLS :: ClientTLSConfig
  ServerTLS :: ServerTLSConfig
  MITM :: MITMConfig
  LogLevel :: int
  Verbose :: bool

text \<open>Go's zero values, for the fields a composite literal leaves out.\<close>

definition zeroEndpoint :: Endpoint where
  "zeroEndpoint = \<lparr>Addr = '''', TCP = False, UDP = False, SSL = False\<rparr>"

definition zeroClientTLS :: ClientTLSConfig where
  "zeroClientTLS = \<lparr>ct_KeyPath = '''', ct_CertPath = '''', ct_CAPath = '''', ct_Verify = False\<rparr>"

definition zeroServerTLS :: ServerTLSConfig where
  "zeroServerTLS = \<lparr>st_KeyPath = '''', st_CertPath = '''', st_CAPath = '''', st_VerifyClient = False\<rparr>"

definition zeroMITM :: MITMConfig where
  "zeroMITM = \<lparr>mi_SignCAPath = '''', mi_ServerName = '''', mi_CAPath = '''', mi_VerifyClient = False\<rparr>"

definition zeroForwardAuth :: ForwardAuthConfig where
  "zeroForwardAuth = \<lparr>User = '''', Pass = ''''\<rparr>"

definition zeroConfig :: Config where
  "zeroConfig = \<lparr>Mode = ModeForward, Target = zeroEndpoint, Listen = zeroEndpoint,
     UpstreamAddr = '''', UpstreamKind = ModeForward, ForwardAuth = zeroForwardAuth,
     ClientTLS = zeroClientTLS, ServerTLS = zeroServerTLS, MITM = zeroMITM,
     LogLevel = 0, Verbose = False\<rparr>"

lemmas zero_defs = zeroEndpoint_def zeroClientTLS_def zeroServerTLS_def zeroMITM_def
  zeroForwardAuth_def zeroConfig_def

section \<open>Option scopes\<close>

record sslScope =
  s_keyPath :: string
  s_certPath :: string
  s_caPath :: string
  s_verify :: bool
  s_seen :: bool

record mitmScope =
  m_signCAPath :: string
  m_serverName :: string
  m_caPath :: string
  m_verify :: bool
  m_seen :: bool

record forwardAuthScope =
  f_user :: string
  f_pass :: string
  f_userSeen :: bool
  f_seen :: bool

record options =
  o_q :: sslScope
  o_z :: sslScope
  o_m :: mitmScope
  o_f :: forwardAuthScope
  o_help :: bool
  o_version :: bool
  o_logLevel :: int
  o_verbose :: bool

datatype sslScopeKind = scopeNone | scopeQ | scopeZ | scopeM | scopeF

section \<open>Errors\<close>

datatype block = BlockQ | BlockZ | BlockM | BlockF

datatype subopt = SubKey | SubCert | SubCa | SubVerify | SubSignca | SubServername | SubUser

datatype option_error =
    BlockRepeated block
  | SubRepeated block subopt
  | SubNeedsScope subopt
  | BadUser string

datatype address_error =
    EmptyAddress
  | AddressMissingPort string
  | TargetNeedsPort string
  | TargetNeedsHost string
  | InvalidAddress string addr_error
  | InvalidPort string
  | PortOutOfRange int

datatype suffix_error =
    EmptySuffix string
  | MixedCaseKeyword string
  | UnknownSuffix string string
  | SuffixOnTarget string string
  | SuffixRepeated string string
  | SuffixOrder string
  | ListenSuffixNotSingle string
  | ListenSuffixUnknown string string

datatype ssl_error =
    ZandM
  | QNeedsTargetSSL
  | ZNeedsListenSSL
  | MNeedsListenSSL
  | ServerNameRequiredForDTLS
  | ServerNameNeedsSignca
  | KeyWithoutCert block
  | CertUnreadable block string string
  | CertWithoutKey block string
  | ListenSSLNeedsCert

datatype config_error =
    OptionErr option_error
  | AddressErr address_error
  | InvalidUpstream string config_error
  | SuffixErr suffix_error
  | SSLErr ssl_error
  | PositionalCount nat
  | ProxyWithTLSBlocks
  | ForwardNeedsUpstream
  | ForwardNeedsUser
  | ForwardOnlyChained

text \<open>What \<open>ParseAll\<close> reports: one group's error as it is, or the joined errors of several groups.\<close>

datatype group_error =
    GroupError nat "string list" config_error
  | HelpInGroup nat "string list"

datatype parse_error = SingleError config_error | JoinedErrors "group_error list"

section \<open>Protocol keywords\<close>

text \<open>
  The suffix keywords as a type, ordered as \<open>keywordOrder\<close> orders them. The parser works on strings
  and on the numbers of the \<open>keywordOrder\<close> table; \<open>keyword\<close> is what they stand for, used to state what an
  accepted suffix list is.
\<close>

datatype keyword = KwTCP | KwUDP | KwSSL

fun kw_rank :: "keyword \<Rightarrow> int" where
  "kw_rank KwTCP = 0"
| "kw_rank KwUDP = 1"
| "kw_rank KwSSL = 2"

instantiation keyword :: linorder
begin

definition less_eq_keyword :: "keyword \<Rightarrow> keyword \<Rightarrow> bool" where
  "less_eq_keyword a b \<longleftrightarrow> kw_rank a \<le> kw_rank b"

definition less_keyword :: "keyword \<Rightarrow> keyword \<Rightarrow> bool" where
  "less_keyword a b \<longleftrightarrow> kw_rank a < kw_rank b"

instance
proof
  fix a b c :: keyword
  show "(a < b) = (a \<le> b \<and> \<not> b \<le> a)"
    by (auto simp: less_eq_keyword_def less_keyword_def)
  show "a \<le> a"
    by (simp add: less_eq_keyword_def)
  show "a \<le> b \<Longrightarrow> b \<le> c \<Longrightarrow> a \<le> c"
    by (simp add: less_eq_keyword_def)
  show "a \<le> b \<Longrightarrow> b \<le> a \<Longrightarrow> a = b"
    by (cases a; cases b) (simp_all add: less_eq_keyword_def)
  show "a \<le> b \<or> b \<le> a"
    by (auto simp: less_eq_keyword_def)
qed

end

definition keywordOrder :: "string \<Rightarrow> int option" where
  "keywordOrder s =
     (if s = ''TCP'' then Some 0 else if s = ''UDP'' then Some 1
      else if s = ''SSL'' then Some 2 else None)"

definition keyword_of :: "string \<Rightarrow> keyword option" where
  "keyword_of s =
     (if s = ''TCP'' then Some KwTCP else if s = ''UDP'' then Some KwUDP
      else if s = ''SSL'' then Some KwSSL else None)"

lemma keywordOrder_rank: "keywordOrder s = map_option kw_rank (keyword_of s)"
  by (simp add: keywordOrder_def keyword_of_def)

lemma keyword_of_inj:
  "keyword_of s = Some k \<Longrightarrow> keyword_of t = Some k \<Longrightarrow> s = t"
  by (auto simp: keyword_of_def split: if_splits)

lemma kw_rank_bounds: "0 \<le> kw_rank k \<and> kw_rank k \<le> 2"
  by (cases k) auto

end
