(* ===== verification/Socks_Wire.thy ===== *)
theory Socks_Wire
  imports Config_Types Go_Conn
begin

text \<open>
  The SOCKS5 wire protocol of \<open>internal/proxy/socks.go\<close>: the server's handshake, request and reply
  (\<open>socksHandshake\<close>, \<open>socksReadRequest\<close>, \<open>socksWriteReply\<close>) and the client that chains to an upstream
  SOCKS server (\<open>dialUpstreamSOCKS\<close>). Bytes and ports keep their widths. \<open>net.DialTimeout\<close> is the
  argument \<open>dial\<close>, and \<open>now\<close> the clock, in seconds.
\<close>

unbundle bit_operations_syntax

section \<open>Constants and errors\<close>

definition socksVersion5 :: byte where "socksVersion5 = 0x05"
definition socksAuthNone :: byte where "socksAuthNone = 0x00"
definition socksAuthUserPass :: byte where "socksAuthUserPass = 0x02"
definition socksAuthNoAcceptable :: byte where "socksAuthNoAcceptable = 0xFF"
definition socksUserPassVersion :: byte where "socksUserPassVersion = 0x01"
definition socksUserPassSuccess :: byte where "socksUserPassSuccess = 0x00"
definition socksCmdConnect :: byte where "socksCmdConnect = 0x01"
definition socksAtypIPv4 :: byte where "socksAtypIPv4 = 0x01"
definition socksAtypDomain :: byte where "socksAtypDomain = 0x03"
definition socksAtypIPv6 :: byte where "socksAtypIPv6 = 0x04"
definition socksReplySucceeded :: byte where "socksReplySucceeded = 0x00"
definition socksReplyGeneralFail :: byte where "socksReplyGeneralFail = 0x01"
definition socksReplyCmdNotSupport :: byte where "socksReplyCmdNotSupport = 0x07"
definition socksReplyAtypNotSupp :: byte where "socksReplyAtypNotSupp = 0x08"

lemmas socks_consts [wire_defs] = socksVersion5_def socksAuthNone_def socksAuthUserPass_def
  socksAuthNoAcceptable_def socksUserPassVersion_def socksUserPassSuccess_def socksCmdConnect_def
  socksAtypIPv4_def socksAtypDomain_def socksAtypIPv6_def socksReplySucceeded_def
  socksReplyGeneralFail_def socksReplyCmdNotSupport_def socksReplyAtypNotSupp_def

datatype socks_error =
    SocksIO io_error
  | UnsupportedVersion byte
  | NoAcceptableMethod
  | UnsupportedCommand byte
  | UnsupportedAtyp byte

datatype upstream_error =
    DialUpstream string io_error
  | WriteGreeting io_error
  | ReadGreeting io_error
  | MethodRefused byte
  | CredentialsTooLong
  | WriteUserPass io_error
  | ReadUserPass io_error
  | AuthFailed byte
  | InvalidTarget string addr_error
  | InvalidTargetPort string
  | HostTooLong string
  | WriteRequest io_error
  | ReadReply io_error
  | ReplyVersion byte
  | ReplyRefused string byte
  | ReadReplyAddr io_error
  | ReplyAtyp byte

section \<open>Big-endian ports\<close>

text \<open>\<open>binary.BigEndian\<close>: \<open>PutUint16\<close> and \<open>Uint16\<close>.\<close>

definition PutUint16 :: "16 word \<Rightarrow> byte list" where
  "PutUint16 v = [ucast (drop_bit 8 v), ucast v]"

definition Uint16 :: "byte list \<Rightarrow> 16 word" where
  "Uint16 b = ucast (b ! 1) OR push_bit 8 (ucast (b ! 0))"

lemma Uint16_PutUint16 [simp]: "Uint16 (PutUint16 v) = v"
proof (rule bit_word_eqI)
  fix n assume "n < LENGTH(16)"
  then have "n < 16" by simp
  then show "bit (Uint16 (PutUint16 v)) n = bit v n"
    by (auto simp: Uint16_def PutUint16_def bit_simps not_le)
qed

lemma length_PutUint16 [simp]: "length (PutUint16 v) = 2"
  by (simp add: PutUint16_def)

section \<open>The server side\<close>

definition socksHandshake :: "(socks_error, unit) connM" where
  "socksHandshake =
     bindC (readC id SocksIO 2) (\<lambda>hdr.
     if hdr ! 0 \<noteq> socksVersion5 then throwC (UnsupportedVersion (hdr ! 0))
     else bindC (readC id SocksIO (unat (hdr ! 1))) (\<lambda>methods.
       if socksAuthNone \<in> set methods then writeC id SocksIO [socksVersion5, socksAuthNone]
       else bindC (ignoreC (writeC id SocksIO [socksVersion5, socksAuthNoAcceptable])) (\<lambda>_.
         throwC NoAcceptableMethod)))"

definition socksWriteReply :: "byte \<Rightarrow> (socks_error, unit) connM" where
  "socksWriteReply replyCode =
     writeC id SocksIO [socksVersion5, replyCode, 0x00, socksAtypIPv4, 0, 0, 0, 0, 0, 0]"

text \<open>The address part of a request, after its type byte.\<close>

definition socksReadHost :: "byte \<Rightarrow> (socks_error, string) connM" where
  "socksReadHost atyp =
     (if atyp = socksAtypIPv4 then bindC (readC id SocksIO 4) (\<lambda>b. returnC (IPString b))
      else if atyp = socksAtypIPv6 then bindC (readC id SocksIO 16) (\<lambda>b. returnC (IPString b))
      else if atyp = socksAtypDomain then
        bindC (readC id SocksIO 1) (\<lambda>lenBuf.
        bindC (readC id SocksIO (unat (lenBuf ! 0))) (\<lambda>b. returnC (stringOf b)))
      else bindC (ignoreC (socksWriteReply socksReplyAtypNotSupp)) (\<lambda>_. throwC (UnsupportedAtyp atyp)))"

definition socksReadRequest :: "(socks_error, string) connM" where
  "socksReadRequest =
     bindC (readC id SocksIO 4) (\<lambda>hdr.
     if hdr ! 0 \<noteq> socksVersion5 then throwC (UnsupportedVersion (hdr ! 0))
     else if hdr ! 1 \<noteq> socksCmdConnect then
       bindC (ignoreC (socksWriteReply socksReplyCmdNotSupport)) (\<lambda>_. throwC (UnsupportedCommand (hdr ! 1)))
     else bindC (socksReadHost (hdr ! 3)) (\<lambda>host.
       bindC (readC id SocksIO 2) (\<lambda>portBuf.
       returnC (JoinHostPort host (Itoa (unat (Uint16 portBuf)))))))"

section \<open>The upstream client\<close>

text \<open>The method offered upstream: only one, chosen by whether credentials are configured.\<close>

definition wantMethod :: "ForwardAuthConfig \<Rightarrow> byte" where
  "wantMethod auth = (if User auth \<noteq> [] then socksAuthUserPass else socksAuthNone)"

text \<open>The greeting, and the username/password exchange of RFC 1929 when it was chosen.\<close>

definition socksUserPass :: "ForwardAuthConfig \<Rightarrow> (upstream_error, unit) connM" where
  "socksUserPass auth =
     (if length (User auth) > 255 \<or> length (Pass auth) > 255 then failC conn_close CredentialsTooLong
      else
        bindC (writeC conn_close WriteUserPass
          ([socksUserPassVersion, word_of_nat (length (User auth))] @ bytesOf (User auth) @
           [word_of_nat (length (Pass auth))] @ bytesOf (Pass auth))) (\<lambda>_.
        bindC (readC conn_close ReadUserPass 2) (\<lambda>authResp.
        if authResp ! 1 \<noteq> socksUserPassSuccess then failC conn_close (AuthFailed (authResp ! 1))
        else returnC ())))"

definition socksGreet :: "ForwardAuthConfig \<Rightarrow> (upstream_error, unit) connM" where
  "socksGreet auth =
     (let want = wantMethod auth in
      bindC (writeC conn_close WriteGreeting [socksVersion5, 1, want]) (\<lambda>_.
      bindC (readC conn_close ReadGreeting 2) (\<lambda>methodResp.
      if methodResp ! 0 \<noteq> socksVersion5 \<or> methodResp ! 1 \<noteq> want
      then failC conn_close (MethodRefused (methodResp ! 1))
      else if want = socksAuthUserPass then socksUserPass auth
      else returnC ())))"

text \<open>The CONNECT request; \<open>To16\<close> of a parsed address is the address itself, and the port is cut to
  its low sixteen bits.\<close>

definition socksConnectRequest :: "string \<Rightarrow> int \<Rightarrow> (upstream_error, byte list) result" where
  "socksConnectRequest host port =
     (let addr =
        (case ParseIP host of
           Some ip \<Rightarrow>
             (case To4 ip of
                Some ip4 \<Rightarrow> Inr (socksAtypIPv4 # ip4)
              | None \<Rightarrow> Inr (socksAtypIPv6 # ip))
         | None \<Rightarrow>
             if length host > 255 then Inl (HostTooLong host)
             else Inr ([socksAtypDomain, word_of_nat (length host)] @ bytesOf host))
      in bindR addr (\<lambda>a.
        Inr ([socksVersion5, socksCmdConnect, 0x00] @ a @ PutUint16 (word_of_int port))))"

text \<open>The reply to CONNECT, with the bound address consumed.\<close>

definition socksReadReply :: "string \<Rightarrow> (upstream_error, unit) connM" where
  "socksReadReply target =
     bindC (readC conn_close ReadReply 4) (\<lambda>hdr.
     if hdr ! 0 \<noteq> socksVersion5 then failC conn_close (ReplyVersion (hdr ! 0))
     else if hdr ! 1 \<noteq> socksReplySucceeded then failC conn_close (ReplyRefused target (hdr ! 1))
     else bindC
       (if hdr ! 3 = socksAtypIPv4 then returnC 4
        else if hdr ! 3 = socksAtypIPv6 then returnC 16
        else if hdr ! 3 = socksAtypDomain then
          bindC (readC conn_close ReadReplyAddr 1) (\<lambda>lenBuf. returnC (unat (lenBuf ! 0)))
        else failC conn_close (ReplyAtyp (hdr ! 3)))
       (\<lambda>addrLen. discardC conn_close ReadReplyAddr (addrLen + 2)))"

text \<open>What \<open>dialUpstreamSOCKS\<close> does on the connection it has dialed.\<close>

definition socksNegotiate :: "string \<Rightarrow> ForwardAuthConfig \<Rightarrow> (upstream_error, unit) connM" where
  "socksNegotiate target auth =
     bindC (socksGreet auth) (\<lambda>_.
     case SplitHostPort target of
       Inl e \<Rightarrow> failC conn_close (InvalidTarget target e)
     | Inr (host, portStr) \<Rightarrow>
         (case Atoi portStr of
            None \<Rightarrow> failC conn_close (InvalidTargetPort portStr)
          | Some port \<Rightarrow>
              (case socksConnectRequest host port of
                 Inl e \<Rightarrow> failC conn_close e
               | Inr req \<Rightarrow>
                   bindC (writeC conn_close WriteRequest req) (\<lambda>_. socksReadReply target))))"

text \<open>The whole function: the error or the connection, and every connection it has opened as it
  leaves it. The deadline is cleared on every return after the dial.\<close>

definition dialUpstreamSOCKS ::
    "(string \<Rightarrow> (io_error, conn) result) \<Rightarrow> int \<Rightarrow> string \<Rightarrow> string \<Rightarrow> ForwardAuthConfig
     \<Rightarrow> (upstream_error, conn) result \<times> conn option" where
  "dialUpstreamSOCKS dial now upstream target auth =
     (case dial upstream of
        Inl e \<Rightarrow> (Inl (DialUpstream upstream e), None)
      | Inr c0 \<Rightarrow>
          (case socksNegotiate target auth (SetDeadline (Some (now + 10)) c0) of
             (Inl e, c) \<Rightarrow> (Inl e, Some (SetDeadline None c))
           | (Inr _, c) \<Rightarrow> (Inr (SetDeadline None c), Some (SetDeadline None c))))"

lemmas socks_server_defs = socksHandshake_def socksWriteReply_def socksReadHost_def socksReadRequest_def
lemmas socks_client_defs = wantMethod_def socksUserPass_def socksGreet_def socksConnectRequest_def
  socksReadReply_def socksNegotiate_def dialUpstreamSOCKS_def

section \<open>Readers of an encoding\<close>

text \<open>What a reader of the wire promises about an encoding it accepts: on an open connection whose next
  bytes are the encoding of \<open>x\<close>, it returns the value of \<open>x\<close>, writes \<open>answer x\<close>, and leaves exactly the
  bytes after the encoding unread.\<close>

locale wire_reader =
  fixes enc :: "'x \<Rightarrow> byte list" and dec :: "('e, 'a) connM"
    and val :: "'x \<Rightarrow> 'a" and answer :: "'x \<Rightarrow> byte list" and ok :: "'x \<Rightarrow> bool"
  assumes reads: "openConn c \<Longrightarrow> ok x \<Longrightarrow> rd_data c = enc x @ r \<Longrightarrow>
    dec c = (Inr (val x), c\<lparr>rd_data := r, wr_log := wr_log c @ answer x\<rparr>)"
begin

lemma prefix_free:
  assumes "ok x" "ok y" "enc x @ r = enc y @ r'"
  shows "r = r' \<and> val x = val y"
proof -
  let ?c = "\<lparr>rd_data = enc x @ r, rd_err = EOF, wr_room = None, wr_err = EOF, wr_log = [],
             deadline = None, wr_closed = False, closed = False\<rparr>"
  have "openConn ?c" by (simp add: openConn_def)
  from reads [OF this assms(1), of r] reads [OF this assms(2), of r'] assms(3) show ?thesis
    by auto
qed

lemma then_read:
  assumes "openConn c" "ok x" "rd_data c = enc x @ r"
  shows "bindC dec f c = f (val x) (c\<lparr>rd_data := r, wr_log := wr_log c @ answer x\<rparr>)"
  using reads [OF assms] by (simp add: bindC_def)

end

text \<open>Two readers in a row, as the server runs its handshake and its request.\<close>

locale wire_session =
  first: wire_reader enc1 dec1 val1 answer1 ok1 + second: wire_reader enc2 dec2 val2 answer2 ok2
  for enc1 :: "'x \<Rightarrow> byte list" and dec1 :: "('e, 'a) connM" and val1 answer1 ok1
    and enc2 :: "'y \<Rightarrow> byte list" and dec2 :: "('e, 'b) connM" and val2 answer2 ok2
begin

lemma session:
  assumes "openConn c" "ok1 x" "ok2 y" "rd_data c = enc1 x @ enc2 y @ r"
  shows "bindC dec1 (\<lambda>_. dec2) c =
    (Inr (val2 y), c\<lparr>rd_data := r, wr_log := wr_log c @ answer1 x @ answer2 y\<rparr>)"
proof -
  have "bindC dec1 (\<lambda>_. dec2) c = dec2 (c\<lparr>rd_data := enc2 y @ r, wr_log := wr_log c @ answer1 x\<rparr>)"
    using assms(1,2,4) by (rule first.then_read)
  with assms show ?thesis
    by (simp add: second.reads [of _ y r])
qed

end

section \<open>The encodings\<close>

definition greeting :: "byte list \<Rightarrow> byte list" where
  "greeting methods = [socksVersion5, word_of_nat (length methods)] @ methods"

text \<open>A host as it travels, and how the server writes it back: an address literal in canonical form.\<close>

definition hostBytes :: "string \<Rightarrow> byte list" where
  "hostBytes host =
     (case ParseIP host of
        Some ip \<Rightarrow> (case To4 ip of Some ip4 \<Rightarrow> socksAtypIPv4 # ip4 | None \<Rightarrow> socksAtypIPv6 # ip)
      | None \<Rightarrow> [socksAtypDomain, word_of_nat (length host)] @ bytesOf host)"

definition canonHost :: "string \<Rightarrow> string" where
  "canonHost host = (case ParseIP host of Some ip \<Rightarrow> IPString ip | None \<Rightarrow> host)"

definition hostFits :: "string \<Rightarrow> bool" where
  "hostFits host \<longleftrightarrow> ParseIP host \<noteq> None \<or> length host \<le> 255"

definition requestBytes :: "string \<times> 16 word \<Rightarrow> byte list" where
  "requestBytes hp = [socksVersion5, socksCmdConnect, 0x00] @ hostBytes (fst hp) @ PutUint16 (snd hp)"

lemma socksConnectRequest_eq:
  "socksConnectRequest host port =
     (if hostFits host then Inr (requestBytes (host, word_of_int port)) else Inl (HostTooLong host))"
  by (auto simp: socksConnectRequest_def hostFits_def requestBytes_def hostBytes_def split: option.splits)

lemma unat_of_nat_byte: "n \<le> 255 \<Longrightarrow> unat (word_of_nat n :: byte) = n"
  by (simp add: unat_of_nat)

lemma unat_byte_le: "unat (b :: byte) \<le> 255"
  using unsigned_less [of b, where ?'a = nat] by simp

lemma openConn_not_closed: "openConn c \<Longrightarrow> \<not> closed c"
  by (simp add: openConn_def)

lemma socksReadHost_reads:
  assumes "openConn c" "hostFits host" "rd_data c = tl (hostBytes host) @ r"
  shows "socksReadHost (hd (hostBytes host)) c = (Inr (canonHost host), c\<lparr>rd_data := r\<rparr>)"
proof (cases "ParseIP host")
  case None
  then have len: "length host \<le> 255" using assms(2) by (simp add: hostFits_def)
  have h: "hostBytes host = [socksAtypDomain, word_of_nat (length host)] @ bytesOf host"
    using None by (simp add: hostBytes_def)
  then have "readC id SocksIO 1 c = (Inr [word_of_nat (length host)], c\<lparr>rd_data := bytesOf host @ r\<rparr>)"
    using assms by (intro readC_ok) (auto simp: openConn_def)
  moreover have "readC id SocksIO (length host) (c\<lparr>rd_data := bytesOf host @ r\<rparr>) = (Inr (bytesOf host), c\<lparr>rd_data := r\<rparr>)"
    using readC_ok [of "c\<lparr>rd_data := bytesOf host @ r\<rparr>" "bytesOf host" r "length host" id SocksIO] assms(1)
    by (simp add: openConn_def)
  ultimately show ?thesis
    using h None len by (simp add: socksReadHost_def bindC_def returnC_def canonHost_def unat_of_nat_byte wire_defs)
next
  case (Some ip)
  note len = ParseIP_length [OF Some]
  show ?thesis
  proof (cases "To4 ip")
    case None
    then show ?thesis
      using Some assms len readC_ok [of c ip r 16 id SocksIO]
      by (simp add: hostBytes_def canonHost_def socksReadHost_def bindC_def returnC_def openConn_def wire_defs)
  next
    case (Some b)
    then show ?thesis
      using \<open>ParseIP host = Some ip\<close> assms To4_length [OF Some] readC_ok [of c b r 4 id SocksIO]
      by (simp add: hostBytes_def canonHost_def socksReadHost_def bindC_def returnC_def openConn_def
          IPString_To4 wire_defs)
  qed
qed

lemma hostBytes_Cons: "hostBytes host = hd (hostBytes host) # tl (hostBytes host)"
  by (simp add: hostBytes_def split: option.splits)

lemma socksReadRequest_reads:
  assumes "openConn c" "hostFits host" "rd_data c = requestBytes (host, p) @ r"
  shows "socksReadRequest c = (Inr (JoinHostPort (canonHost host) (Itoa (unat p))), c\<lparr>rd_data := r\<rparr>)"
proof -
  let ?h = "hd (hostBytes host)" and ?t = "tl (hostBytes host)"
  let ?c1 = "c\<lparr>rd_data := ?t @ PutUint16 p @ r\<rparr>" and ?c2 = "c\<lparr>rd_data := PutUint16 p @ r\<rparr>"
  have "rd_data c = [socksVersion5, socksCmdConnect, 0, ?h] @ ?t @ PutUint16 p @ r"
    using assms(3) hostBytes_Cons [of host] by (metis (no_types, lifting) append.assoc append_Cons append_Nil fst_conv requestBytes_def snd_conv)
  then have 1: "readC id SocksIO 4 c = (Inr [socksVersion5, socksCmdConnect, 0, ?h], ?c1)"
    using assms(1) by (intro readC_ok) (auto simp: openConn_def)
  have 2: "socksReadHost ?h ?c1 = (Inr (canonHost host), ?c2)"
    using socksReadHost_reads [of ?c1 host "PutUint16 p @ r"] assms by simp
  have 3: "readC id SocksIO 2 ?c2 = (Inr (PutUint16 p), c\<lparr>rd_data := r\<rparr>)"
    using readC_ok [of ?c2 "PutUint16 p" r 2 id SocksIO] assms(1) by (simp add: openConn_def)
  show ?thesis
    by (simp add: socksReadRequest_def bindC_def returnC_def 1 2 3)
qed

interpretation greet: wire_reader greeting socksHandshake "\<lambda>_. ()" "\<lambda>_. [socksVersion5, socksAuthNone]"
    "\<lambda>ms. length ms \<le> 255 \<and> socksAuthNone \<in> set ms"
proof
  fix c :: conn and ms r
  assume a: "openConn c" "length ms \<le> 255 \<and> socksAuthNone \<in> set ms" "rd_data c = greeting ms @ r"
  let ?c1 = "c\<lparr>rd_data := ms @ r\<rparr>"
  have 1: "readC id SocksIO 2 c = (Inr [socksVersion5, word_of_nat (length ms)], ?c1)"
    using a by (intro readC_ok) (auto simp: openConn_def greeting_def)
  have 2: "readC id SocksIO (length ms) ?c1 = (Inr ms, c\<lparr>rd_data := r\<rparr>)"
    using readC_ok [of ?c1 ms r "length ms" id SocksIO] a by (simp add: openConn_def)
  show "socksHandshake c = (Inr (), c\<lparr>rd_data := r, wr_log := wr_log c @ [socksVersion5, socksAuthNone]\<rparr>)"
    using a by (simp add: socksHandshake_def bindC_def 1 2 unat_of_nat_byte writeC_ok)
qed

interpretation request: wire_reader requestBytes socksReadRequest
    "\<lambda>(host, p). JoinHostPort (canonHost host) (Itoa (unat p))" "\<lambda>_. []" "\<lambda>(host, p). hostFits host"
  by unfold_locales (auto simp: socksReadRequest_reads)

interpretation session: wire_session greeting socksHandshake "\<lambda>_. ()" "\<lambda>_. [socksVersion5, socksAuthNone]"
    "\<lambda>ms. length ms \<le> 255 \<and> socksAuthNone \<in> set ms"
    requestBytes socksReadRequest "\<lambda>(host, p). JoinHostPort (canonHost host) (Itoa (unat p))" "\<lambda>_. []"
    "\<lambda>(host, p). hostFits host"
  by unfold_locales


end
