(* ===== verification/Socks_Props.thy ===== *)
theory Socks_Props
  imports Socks_Wire
begin

text \<open>
  Properties of the SOCKS wire protocol: what the server accepts and answers, that the upstream client
  and the server understand each other, and that the client never leaks a connection or credentials.
\<close>

section \<open>Clean-up on errors\<close>

text \<open>A step that closes the connection exactly when it fails.\<close>

definition closesOnErr :: "('e, 'a) connM \<Rightarrow> bool" where
  "closesOnErr m \<longleftrightarrow> (\<forall>c. \<not> closed c \<longrightarrow> (case m c of (Inl e, c') \<Rightarrow> closed c' | (Inr x, c') \<Rightarrow> \<not> closed c'))"

named_theorems closes \<open>steps that close the connection exactly on failure\<close>

lemma closes_bindC [closes]: "closesOnErr m \<Longrightarrow> (\<And>x. closesOnErr (f x)) \<Longrightarrow> closesOnErr (bindC m f)"
  by (fastforce simp: closesOnErr_def bindC_def split: prod.splits sum.splits)

lemma closes_readC [closes]: "closesOnErr (readC conn_close w n)"
  by (auto simp: closesOnErr_def readC_def ReadFull_def conn_close_def)

lemma closes_discardC [closes]: "closesOnErr (discardC conn_close w n)"
  by (auto simp: closesOnErr_def discardC_def discardN_def conn_close_def)

lemma closes_writeC [closes]: "closesOnErr (writeC conn_close w bs)"
  by (auto simp: closesOnErr_def writeC_def conn_write_def conn_close_def split: option.splits)

lemma closes_failC [closes]: "closesOnErr (failC conn_close e)"
  by (auto simp: closesOnErr_def failC_def conn_close_def)

lemma closes_returnC [closes]: "closesOnErr (returnC x)"
  by (auto simp: closesOnErr_def returnC_def)

lemma closes_userPass [closes]: "closesOnErr (socksUserPass auth)"
  by (auto simp: socksUserPass_def intro!: closes)

lemma closes_greet [closes]: "closesOnErr (socksGreet auth)"
  by (auto simp: socksGreet_def Let_def intro!: closes)

lemma closes_reply [closes]: "closesOnErr (socksReadReply target)"
  by (auto simp: socksReadReply_def intro!: closes)

lemma closes_negotiate: "closesOnErr (socksNegotiate target auth)"
  by (auto simp: socksNegotiate_def intro!: closes split: sum.splits prod.splits option.splits)

lemma dialUpstreamSOCKS_closed:
  assumes "dial upstream = Inr c0" "\<not> closed c0"
  shows "\<exists>r c. dialUpstreamSOCKS dial now upstream target auth = (r, Some c) \<and> deadline c = None \<and>
    (case r of Inl e \<Rightarrow> closed c | Inr c' \<Rightarrow> c' = c \<and> \<not> closed c)"
proof -
  let ?c = "SetDeadline (Some (now + 10)) c0"
  have "\<not> closed ?c" using assms by (simp add: SetDeadline_def)
  with closes_negotiate [of target auth]
  have "case socksNegotiate target auth ?c of (Inl e, c') \<Rightarrow> closed c' | (Inr x, c') \<Rightarrow> \<not> closed c'"
    by (simp add: closesOnErr_def)
  then show ?thesis
    using assms by (auto simp: dialUpstreamSOCKS_def SetDeadline_def split: prod.splits sum.splits)
qed

text \<open>C17. \<open>dialUpstreamSOCKS\<close> never leaks a connection: whatever the upstream does, a connection that
  was dialed is closed when an error is returned and open when it is handed to the caller, and in both
  cases the negotiation deadline has been cleared.\<close>

theorem dialUpstreamSOCKS_no_leak:
  assumes "dial upstream = Inr c0" "\<not> closed c0"
  shows "\<exists>r c. dialUpstreamSOCKS dial now upstream target auth = (r, Some c) \<and> deadline c = None \<and>
    (case r of Inl e \<Rightarrow> closed c | Inr c' \<Rightarrow> c' = c \<and> \<not> closed c)"
  using assms by (rule dialUpstreamSOCKS_closed)

theorem dialUpstreamSOCKS_no_leak_witness:
  "\<exists>r c. dialUpstreamSOCKS (\<lambda>_. Inr (peer [5, 0xFF])) 0 ''up:1080'' ''h:80'' zeroForwardAuth = (r, Some c) \<and>
     deadline c = None \<and> (case r of Inl e \<Rightarrow> closed c | Inr c' \<Rightarrow> c' = c \<and> \<not> closed c)"
  by (rule dialUpstreamSOCKS_no_leak [OF refl]) simp

section \<open>The server's handshake and request\<close>

lemma bytes2: "length b = 2 \<Longrightarrow> b = [b ! 0, b ! 1]"
  by (cases b) (auto simp: numeral_2_eq_2 length_Suc_conv)

lemma bytes4: "length b = 4 \<Longrightarrow> b = [b ! 0, b ! 1, b ! 2, b ! 3]"
  by (auto simp: numeral_eq_Suc length_Suc_conv)

lemma readC_InrE:
  assumes "readC fin w n c = (Inr b, c')"
  obtains r where "rd_data c = b @ r" "c' = c\<lparr>rd_data := r\<rparr>" "length b = n"
  using assms by (auto simp: readC_Inr)

lemma readC_id_InlE:
  assumes "readC id SocksIO n c = (Inl e, c')"
  obtains i r where "e = SocksIO i" "c' = c\<lparr>rd_data := r\<rparr>"
proof -
  have "c' = c\<lparr>rd_data := rd_data c'\<rparr>" "\<exists>i. e = SocksIO i"
    using assms by (auto simp: readC_def ReadFull_def split: if_splits)
  with that show thesis by blast
qed

text \<open>The handshake, on every input: it succeeds exactly when the peer sends a version-5 greeting
  that offers "no authentication", and then answers with that method; a complete greeting without it
  is answered with "no acceptable method"; anything else is answered with nothing.\<close>

theorem socksHandshake_spec:
  assumes "openConn c" "socksHandshake c = (r, c')"
  shows "(case r of
       Inr _ \<Rightarrow> (\<exists>ms. rd_data c = greeting ms @ rd_data c' \<and> length ms \<le> 255 \<and> socksAuthNone \<in> set ms) \<and>
                wr_log c' = wr_log c @ [socksVersion5, socksAuthNone]
     | Inl NoAcceptableMethod \<Rightarrow>
                (\<exists>ms. rd_data c = greeting ms @ rd_data c' \<and> length ms \<le> 255 \<and> socksAuthNone \<notin> set ms) \<and>
                wr_log c' = wr_log c @ [socksVersion5, socksAuthNoAcceptable]
     | Inl (UnsupportedVersion v) \<Rightarrow> v \<noteq> socksVersion5 \<and> wr_log c' = wr_log c
     | Inl (SocksIO e) \<Rightarrow> wr_log c' = wr_log c
     | Inl _ \<Rightarrow> False) \<and>
    (\<forall>ms rest. rd_data c = greeting ms @ rest \<longrightarrow> length ms \<le> 255 \<longrightarrow> socksAuthNone \<in> set ms \<longrightarrow> r = Inr ())"
  (is "?spec \<and> ?conv")
proof (rule conjI)
  show ?conv
    using greet.reads [OF assms(1)] assms(2) by auto
  from assms(2) [unfolded socksHandshake_def] show ?spec
  proof (cases rule: bindC_cases)
    case (err e)
    then show ?thesis by (auto elim: readC_id_InlE)
  next
    case (ok b c1)
    from ok(1) obtain d where d: "rd_data c = b @ d" "c1 = c\<lparr>rd_data := d\<rparr>" "length b = 2"
      by (rule readC_InrE)
    show ?thesis
    proof (cases "b ! 0 = socksVersion5")
      case False
      with ok(2) d show ?thesis by (auto simp: throwC_def)
    next
      case True
      with ok(2) have "bindC (readC id SocksIO (unat (b ! 1))) (\<lambda>methods.
          if socksAuthNone \<in> set methods then writeC id SocksIO [socksVersion5, socksAuthNone]
          else bindC (ignoreC (writeC id SocksIO [socksVersion5, socksAuthNoAcceptable])) (\<lambda>_. throwC NoAcceptableMethod))
          c1 = (r, c')" by simp
      then show ?thesis
      proof (cases rule: bindC_cases)
        case (err e)
        with d show ?thesis by (auto elim!: readC_id_InlE)
      next
        case (ok ms c2)
        from ok(1) obtain d2 where d2: "rd_data c1 = ms @ d2" "c2 = c1\<lparr>rd_data := d2\<rparr>" "length ms = unat (b ! 1)"
          by (rule readC_InrE)
        have "openConn c2" "rd_data c = greeting ms @ d2" "length ms \<le> 255"
          using d d2 assms(1) True bytes2 [OF d(3)] unat_byte_le [of "b ! 1"] by (auto simp: greeting_def)
        with ok(2) d d2 show ?thesis
          by (auto intro!: exI [of _ ms] simp: writeC_ok ignoreC_def bindC_def throwC_def split: if_splits)
      qed
    qed
  qed
qed

theorem socksHandshake_spec_witness:
  "socksHandshake (peer [5, 2, 2, 0, 9]) = (Inr (), (peer [9])\<lparr>wr_log := [5, 0]\<rparr>) \<and>
   (\<exists>ms. [5, 2, 2, 0, 9] = greeting ms @ [9] \<and> socksAuthNone \<in> set ms)"
proof -
  have e: "socksHandshake (peer [5, 2, 2, 0, 9]) = (Inr (), (peer [9])\<lparr>wr_log := [5, 0]\<rparr>)"
    by (simp add: socksHandshake_def conn_defs wire_defs peer_def)
  from socksHandshake_spec [OF _ e] e show ?thesis by auto
qed

lemma PutUint16_Uint16: "length b = 2 \<Longrightarrow> PutUint16 (Uint16 b) = b"
proof -
  have 1: "ucast (drop_bit 8 (ucast y OR push_bit 8 (ucast x) :: 16 word)) = (x :: byte)" for x y :: byte
    by (rule bit_word_eqI) (auto simp: bit_simps dest: bit_imp_le_length)
  have 2: "ucast (ucast y OR push_bit 8 (ucast x) :: 16 word) = (y :: byte)" for x y :: byte
    by (rule bit_word_eqI) (auto simp: bit_simps)
  have "PutUint16 (Uint16 [x, y]) = [x, y]" for x y
    by (simp only: PutUint16_def Uint16_def nth_Cons_0 nth_Cons_Suc One_nat_def 1 2)
  then show "length b = 2 \<Longrightarrow> ?thesis" by (metis bytes2)
qed

text \<open>What the bytes after an address type stand for.\<close>

definition hostBody :: "byte \<Rightarrow> byte list \<Rightarrow> string \<Rightarrow> bool" where
  "hostBody atyp body host \<longleftrightarrow>
     (atyp = socksAtypIPv4 \<and> length body = 4 \<and> host = IPString body) \<or>
     (atyp = socksAtypIPv6 \<and> length body = 16 \<and> host = IPString body) \<or>
     (atyp = socksAtypDomain \<and> body = word_of_nat (length host) # bytesOf host \<and> length host \<le> 255)"

definition replyBytes :: "byte \<Rightarrow> byte list" where
  "replyBytes code = [socksVersion5, code, 0x00, socksAtypIPv4, 0, 0, 0, 0, 0, 0]"

lemma socksWriteReply_ok: "openConn c \<Longrightarrow> socksWriteReply code c = (Inr (), c\<lparr>wr_log := wr_log c @ replyBytes code\<rparr>)"
  by (simp add: socksWriteReply_def replyBytes_def writeC_ok)

lemma readC_id_cases:
  assumes "bindC (readC id SocksIO n) f c = (r, c')"
  obtains (err) i d where "r = Inl (SocksIO i)" "c' = c\<lparr>rd_data := d\<rparr>"
    | (ok) b d where "rd_data c = b @ d" "length b = n" "f b (c\<lparr>rd_data := d\<rparr>) = (r, c')"
  using assms by (cases rule: bindC_cases) (auto elim!: readC_id_InlE readC_InrE)

lemma socksReadHost_cases:
  assumes "openConn c" "socksReadHost a c = (r, c')"
  obtains (io) i d where "r = Inl (SocksIO i)" "c' = c\<lparr>rd_data := d\<rparr>"
    | (atyp) "r = Inl (UnsupportedAtyp a)" "a \<notin> {socksAtypIPv4, socksAtypIPv6, socksAtypDomain}"
        "c' = c\<lparr>wr_log := wr_log c @ replyBytes socksReplyAtypNotSupp\<rparr>"
    | (host) host body d where "r = Inr host" "rd_data c = body @ d" "c' = c\<lparr>rd_data := d\<rparr>" "hostBody a body host"
proof -
  consider (ip) n :: nat where "(a = socksAtypIPv4 \<and> n = 4) \<or> (a = socksAtypIPv6 \<and> n = 16)" | (dom) "a = socksAtypDomain"
    | (other) "a \<notin> {socksAtypIPv4, socksAtypIPv6, socksAtypDomain}" by blast
  then show thesis
  proof cases
    case (ip n)
    then have "bindC (readC id SocksIO n) (\<lambda>b. returnC (IPString b)) c = (r, c')"
      using assms(2) by (auto simp: socksReadHost_def wire_defs)
    then show thesis
      by (cases rule: readC_id_cases) (use ip io host in \<open>auto simp: returnC_def hostBody_def\<close>)
  next
    case dom
    then have "bindC (readC id SocksIO 1) (\<lambda>lenBuf.
        bindC (readC id SocksIO (unat (lenBuf ! 0))) (\<lambda>b. returnC (stringOf b))) c = (r, c')"
      using assms(2) by (auto simp: socksReadHost_def wire_defs)
    then show thesis
    proof (cases rule: readC_id_cases)
      case (ok l d)
      from ok(3) show thesis
      proof (cases rule: readC_id_cases)
        case (ok b d2)
        have "l = [l ! 0]" using \<open>length l = 1\<close> by (cases l) auto
        then show thesis
          using ok \<open>rd_data c = l @ d\<close> dom unat_byte_le [of "l ! 0"]
          by (intro host [of "stringOf b" "l @ b" d2]) (auto simp: returnC_def hostBody_def)
      qed (use io in auto)
    qed (use io in auto)
  next
    case other
    then show thesis
      using assms atyp by (auto simp: socksReadHost_def bindC_def ignoreC_def socksWriteReply_ok throwC_def)
  qed
qed

text \<open>C38. The request reader, on every input: a target is returned only for a version-5 CONNECT with a
  known address type, it is the address and port sent, and nothing is written; a request for another
  command is answered with reply 7 and one with an unknown address type with reply 8; in every other
  case nothing is written.\<close>

theorem socksReadRequest_spec:
  assumes "openConn c" "socksReadRequest c = (r, c')"
  shows "case r of
      Inr target \<Rightarrow> wr_log c' = wr_log c \<and>
        (\<exists>rsv atyp body host p. hostBody atyp body host \<and> target = JoinHostPort host (Itoa (unat p)) \<and>
           rd_data c = [socksVersion5, socksCmdConnect, rsv, atyp] @ body @ PutUint16 p @ rd_data c')
    | Inl (UnsupportedCommand m) \<Rightarrow> m \<noteq> socksCmdConnect \<and> wr_log c' = wr_log c @ replyBytes 7
    | Inl (UnsupportedAtyp a) \<Rightarrow> a \<notin> {1, 3, 4} \<and> wr_log c' = wr_log c @ replyBytes 8
    | Inl (UnsupportedVersion v) \<Rightarrow> v \<noteq> socksVersion5 \<and> wr_log c' = wr_log c
    | Inl (SocksIO e) \<Rightarrow> wr_log c' = wr_log c
    | Inl _ \<Rightarrow> False"
  using assms(2) unfolding socksReadRequest_def
proof (cases rule: readC_id_cases)
  case (ok b d)
  have b: "b = [b ! 0, b ! 1, b ! 2, b ! 3]" using ok(2) by (rule bytes4)
  show ?thesis
  proof (cases "b ! 0 = socksVersion5 \<and> b ! 1 = socksCmdConnect")
    case False
    with ok(3) assms(1) show ?thesis
      by (auto simp: throwC_def bindC_def ignoreC_def socksWriteReply_ok socksReplyCmdNotSupport_def split: if_splits)
  next
    case True
    with ok(3) have "bindC (socksReadHost (b ! 3)) (\<lambda>host. bindC (readC id SocksIO 2) (\<lambda>portBuf.
       returnC (JoinHostPort host (Itoa (unat (Uint16 portBuf)))))) (c\<lparr>rd_data := d\<rparr>) = (r, c')" by simp
    then show ?thesis
    proof (cases rule: bindC_cases)
      case (err e)
      from _ err(1) show ?thesis
        by (cases rule: socksReadHost_cases) (use assms err in \<open>auto simp: wire_defs\<close>)
    next
      case hd: (ok host c1)
      from _ hd(1) obtain body d1 where h: "d = body @ d1" "c1 = c\<lparr>rd_data := d1\<rparr>" "hostBody (b ! 3) body host"
        by (cases rule: socksReadHost_cases) (use assms in auto)
      from hd(2) show ?thesis
      proof (cases rule: readC_id_cases)
        case pt: (ok pb d2)
        have "rd_data c = [socksVersion5, socksCmdConnect, b ! 2, b ! 3] @ body @ PutUint16 (Uint16 pb) @ d2"
          using ok(1) b True h pt PutUint16_Uint16 [OF pt(2)]
          by (metis append.assoc append_Cons append_Nil conn.select_convs(1) conn.surjective conn.update_convs(1))
        moreover have "r = Inr (JoinHostPort host (Itoa (unat (Uint16 pb))))" "c' = c\<lparr>rd_data := d2\<rparr>"
          using pt(3) h(2) by (auto simp: returnC_def)
        ultimately show ?thesis using h(3) by simp blast
      qed (use h in auto)
    qed
  qed
qed auto

theorem socksReadRequest_spec_witness:
  "case socksReadRequest (peer [5, 2, 0, 1]) of (r, c') \<Rightarrow> r = Inl (UnsupportedCommand 2) \<and> wr_log c' = replyBytes 7"
proof -
  obtain c' where e: "socksReadRequest (peer [5, 2, 0, 1]) = (Inl (UnsupportedCommand 2), c')"
    by (simp add: socksReadRequest_def socksWriteReply_def conn_defs wire_defs peer_def)
  from socksReadRequest_spec [OF _ e] e show ?thesis by simp
qed

section \<open>The upstream client\<close>

text \<open>From \<open>c\<close> to \<open>c'\<close> the code has read \<open>rd\<close> and written \<open>wr\<close>.\<close>

definition moves :: "conn \<Rightarrow> byte list \<Rightarrow> byte list \<Rightarrow> conn \<Rightarrow> bool" where
  "moves c rd wr c' \<longleftrightarrow> rd_data c = rd @ rd_data c' \<and> wr_log c' = wr_log c @ wr"

lemma moves_refl: "moves c [] [] c"
  by (simp add: moves_def)

lemma moves_trans: "moves c r1 w1 c1 \<Longrightarrow> moves c1 r2 w2 c2 \<Longrightarrow> moves c (r1 @ r2) (w1 @ w2) c2"
  by (simp add: moves_def)

lemma readC_moves: "readC fin w n c = (Inr b, c') \<Longrightarrow> moves c b [] c' \<and> length b = n"
  by (auto simp: moves_def elim: readC_InrE)

lemma writeC_moves: "writeC fin w bs c = (Inr u, c') \<Longrightarrow> moves c [] bs c'"
  by (auto simp: moves_def writeC_def conn_write_def split: if_splits option.splits)

lemma discardC_moves: "discardC fin w n c = (Inr u, c') \<Longrightarrow> \<exists>b. moves c b [] c' \<and> length b = n"
  by (auto simp: moves_def discardC_def discardN_def split: if_splits intro!: exI [of _ "take n (rd_data c)"])

definition credentials :: "ForwardAuthConfig \<Rightarrow> byte list" where
  "credentials auth =
     [socksUserPassVersion, word_of_nat (length (User auth))] @ bytesOf (User auth) @
     [word_of_nat (length (Pass auth))] @ bytesOf (Pass auth)"

definition credentialsFit :: "ForwardAuthConfig \<Rightarrow> bool" where
  "credentialsFit auth \<longleftrightarrow> length (User auth) \<le> 255 \<and> length (Pass auth) \<le> 255"

text \<open>A positive reply to CONNECT: its header, the bound address of any of the three types, the port.\<close>

definition positiveReply :: "byte list \<Rightarrow> bool" where
  "positiveReply reply \<longleftrightarrow> (\<exists>rsv atyp addr port.
     reply = [socksVersion5, socksReplySucceeded, rsv, atyp] @ addr @ port \<and> length port = 2 \<and>
     ((atyp = socksAtypIPv4 \<and> length addr = 4) \<or> (atyp = socksAtypIPv6 \<and> length addr = 16) \<or>
      (atyp = socksAtypDomain \<and> addr \<noteq> [] \<and> length (tl addr) = unat (hd addr))))"

lemma socksUserPass_moves:
  assumes "socksUserPass auth c = (Inr u, c')"
  shows "\<exists>v. moves c [v, socksUserPassSuccess] (credentials auth) c' \<and> credentialsFit auth"
proof -
  have fit: "credentialsFit auth"
    using assms by (auto simp: socksUserPass_def credentialsFit_def failC_def split: if_splits)
  with assms have "bindC (writeC conn_close WriteUserPass (credentials auth)) (\<lambda>_.
        bindC (readC conn_close ReadUserPass 2) (\<lambda>authResp.
        if authResp ! 1 \<noteq> socksUserPassSuccess then failC conn_close (AuthFailed (authResp ! 1))
        else returnC ())) c = (Inr u, c')"
    by (auto simp: socksUserPass_def credentialsFit_def credentials_def)
  then obtain c1 b where "moves c [] (credentials auth) c1" "moves c1 b [] c'" "length b = 2" "b ! 1 = socksUserPassSuccess"
    by (auto dest!: bindC_InrD writeC_moves readC_moves simp: failC_def returnC_def split: if_splits)
  with moves_trans bytes2 fit show ?thesis by (metis append_Nil append_Nil2)
qed

lemma socksGreet_moves:
  assumes "socksGreet auth c = (Inr u, c')"
  shows "(User auth = [] \<and> moves c [socksVersion5, socksAuthNone] [socksVersion5, 1, socksAuthNone] c') \<or>
    (User auth \<noteq> [] \<and> credentialsFit auth \<and>
      (\<exists>v. moves c [socksVersion5, socksAuthUserPass, v, socksUserPassSuccess]
             ([socksVersion5, 1, socksAuthUserPass] @ credentials auth) c'))"
proof -
  obtain c1 c2 b where g: "moves c [] [socksVersion5, 1, wantMethod auth] c1" "moves c1 b [] c2" "length b = 2"
      "b ! 0 = socksVersion5" "b ! 1 = wantMethod auth"
      "(if wantMethod auth = socksAuthUserPass then socksUserPass auth else returnC ()) c2 = (Inr u, c')"
    using assms by (auto simp: socksGreet_def Let_def failC_def dest!: bindC_InrD writeC_moves readC_moves split: if_splits)
  have m: "moves c [socksVersion5, wantMethod auth] [socksVersion5, 1, wantMethod auth] c2"
    using moves_trans [OF g(1,2)] bytes2 [OF g(3)] g(4,5) by simp
  show ?thesis
  proof (cases "User auth = []")
    case True
    with g m show ?thesis by (auto simp: wantMethod_def wire_defs returnC_def)
  next
    case False
    then have w: "wantMethod auth = socksAuthUserPass" by (simp add: wantMethod_def)
    with g have "socksUserPass auth c2 = (Inr u, c')" by simp
    then obtain v where "moves c2 [v, socksUserPassSuccess] (credentials auth) c'" "credentialsFit auth"
      using socksUserPass_moves by blast
    with moves_trans [OF m this(1)] w False show ?thesis by auto
  qed
qed

lemma socksReadReply_moves:
  assumes "socksReadReply target c = (Inr u, c')"
  shows "\<exists>reply. positiveReply reply \<and> moves c reply [] c'"
proof -
  from assms obtain b c1 where 1: "moves c b [] c1" "length b = 4" "b ! 0 = socksVersion5" "b ! 1 = socksReplySucceeded"
    and r: "bindC
       (if b ! 3 = socksAtypIPv4 then returnC 4 else if b ! 3 = socksAtypIPv6 then returnC 16
        else if b ! 3 = socksAtypDomain then
          bindC (readC conn_close ReadReplyAddr 1) (\<lambda>lenBuf. returnC (unat (lenBuf ! 0)))
        else failC conn_close (ReplyAtyp (b ! 3)))
       (\<lambda>addrLen. discardC conn_close ReadReplyAddr (addrLen + 2)) c1 = (Inr u, c')"
    by (auto simp: socksReadReply_def failC_def dest!: bindC_InrD readC_moves split: if_splits)
  have "\<exists>addr port. moves c1 (addr @ port) [] c' \<and> length port = 2 \<and>
     ((b ! 3 = socksAtypIPv4 \<and> length addr = 4) \<or> (b ! 3 = socksAtypIPv6 \<and> length addr = 16) \<or>
      (b ! 3 = socksAtypDomain \<and> addr \<noteq> [] \<and> length (tl addr) = unat (hd addr)))"
  proof (cases "b ! 3 = socksAtypDomain")
    case True
    with r obtain l c2 x where "moves c1 l [] c2" "length l = 1" "moves c2 x [] c'" "length x = unat (l ! 0) + 2"
      by (auto simp: wire_defs returnC_def dest!: bindC_InrD readC_moves discardC_moves)
    then have "moves c1 ((l @ take (unat (l ! 0)) x) @ drop (unat (l ! 0)) x) [] c'" "length (drop (unat (l ! 0)) x) = 2"
        "l = [l ! 0]"
      using moves_trans [of c1 l "[]" c2 x "[]" c'] by (cases l; auto)+
    moreover have "length (tl (l @ take (unat (l ! 0)) x)) = unat (hd (l @ take (unat (l ! 0)) x))"
      using \<open>length x = unat (l ! 0) + 2\<close> \<open>l = [l ! 0]\<close> by (cases l) auto
    ultimately show ?thesis using True by (metis append_is_Nil_conv list.discI)
  next
    case False
    with r obtain n x where "(b ! 3 = socksAtypIPv4 \<and> n = 4) \<or> (b ! 3 = socksAtypIPv6 \<and> n = 16)"
        "moves c1 x [] c'" "length x = n + 2"
      by (auto simp: returnC_def failC_def dest!: bindC_InrD discardC_moves split: if_splits)
    then show ?thesis
      by (intro exI [of _ "take n x"] exI [of _ "drop n x"]) auto
  qed
  then obtain addr port where ap: "moves c1 (addr @ port) [] c'" "length port = 2"
     "(b ! 3 = socksAtypIPv4 \<and> length addr = 4) \<or> (b ! 3 = socksAtypIPv6 \<and> length addr = 16) \<or>
      (b ! 3 = socksAtypDomain \<and> addr \<noteq> [] \<and> length (tl addr) = unat (hd addr))" by blast
  have "b = [socksVersion5, socksReplySucceeded, b ! 2, b ! 3]" using bytes4 [OF 1(2)] 1 by simp
  with ap have "positiveReply (b @ addr @ port)" unfolding positiveReply_def by metis
  with moves_trans [OF 1(1) ap(1)] show ?thesis by auto
qed

text \<open>C16. What a connection returned by the upstream client stands for: the upstream chose the one
  method offered, accepted the credentials if that was username/password, and answered CONNECT
  positively; the client has written the greeting, then the credentials if and only if they are
  configured (each at most 255 bytes), then one request for the target; and exactly those answers are
  consumed, so the next byte read is the first of the relayed stream.\<close>

theorem dialUpstreamSOCKS_success:
  assumes "dialUpstreamSOCKS dial now upstream target auth = (Inr c', x)"
  shows "\<exists>c host portStr port v reply.
     dial upstream = Inr c \<and> SplitHostPort target = Inr (host, portStr) \<and> Atoi portStr = Some port \<and>
     hostFits host \<and> positiveReply reply \<and>
     (if User auth = []
      then rd_data c = [5, 0] @ reply @ rd_data c' \<and>
           wr_log c' = wr_log c @ [5, 1, 0] @ requestBytes (host, word_of_int port)
      else credentialsFit auth \<and> rd_data c = [5, 2, v, 0] @ reply @ rd_data c' \<and>
           wr_log c' = wr_log c @ [5, 1, 2] @ credentials auth @ requestBytes (host, word_of_int port))"
proof -
  obtain c cn where c: "dial upstream = Inr c" "socksNegotiate target auth (SetDeadline (Some (now + 10)) c) = (Inr (), cn)"
      "c' = SetDeadline None cn"
    using assms by (auto simp: dialUpstreamSOCKS_def split: sum.splits prod.splits)
  let ?c = "SetDeadline (Some (now + 10)) c"
  obtain c1 c2 host portStr port where n: "socksGreet auth ?c = (Inr (), c1)"
      "SplitHostPort target = Inr (host, portStr)" "Atoi portStr = Some port" "hostFits host"
      "moves c1 [] (requestBytes (host, word_of_int port)) c2" "socksReadReply target c2 = (Inr (), cn)"
    using c(2) by (auto simp: socksNegotiate_def failC_def socksConnectRequest_eq
        dest!: bindC_InrD writeC_moves split: sum.splits prod.splits option.splits if_splits)
  obtain reply where r: "positiveReply reply" "moves c2 reply [] cn" using socksReadReply_moves [OF n(6)] by blast
  have m: "moves c1 reply (requestBytes (host, word_of_int port)) cn"
    using moves_trans [OF n(5) r(2)] by simp
  have same: "moves ?c rd wr cn = moves c rd wr c'" for rd wr
    using c(3) by (simp add: moves_def SetDeadline_def)
  from socksGreet_moves [OF n(1)] show ?thesis
  proof (elim disjE conjE exE)
    assume u: "User auth = []" "moves ?c [socksVersion5, socksAuthNone] [socksVersion5, 1, socksAuthNone] c1"
    have "moves c ([5, 0] @ reply) ([5, 1, 0] @ requestBytes (host, word_of_int port)) c'"
      using moves_trans [OF u(2) m] same by (simp add: wire_defs)
    with u(1) c(1) n r(1) show ?thesis
      by (intro exI [of _ c] exI [of _ host] exI [of _ portStr] exI [of _ port] exI [of _ 0] exI [of _ reply])
        (simp add: moves_def)
  next
    fix v assume u: "User auth \<noteq> []" "credentialsFit auth"
      "moves ?c [socksVersion5, socksAuthUserPass, v, socksUserPassSuccess]
         ([socksVersion5, 1, socksAuthUserPass] @ credentials auth) c1"
    have "moves c ([5, 2, v, 0] @ reply) ([5, 1, 2] @ credentials auth @ requestBytes (host, word_of_int port)) c'"
      using moves_trans [OF u(3) m] same by (simp add: wire_defs)
    with u(1,2) c(1) n r(1) show ?thesis
      by (intro exI [of _ c] exI [of _ host] exI [of _ portStr] exI [of _ port] exI [of _ v] exI [of _ reply])
        (simp add: moves_def)
  qed
qed

theorem dialUpstreamSOCKS_success_witness:
  "\<exists>c'. dialUpstreamSOCKS (\<lambda>_. Inr (peer ([5, 0] @ replyBytes 0 @ [42]))) 0 ''up:1080'' ''1.2.3.4:80'' zeroForwardAuth
     = (Inr c', Some c') \<and> rd_data c' = [42] \<and>
     (\<exists>reply. positiveReply reply \<and> [5, 0] @ replyBytes 0 @ [42] = [5, 0] @ reply @ rd_data c')"
proof -
  have "ParseIP ''1.2.3.4'' = Some (replicate 10 0 @ [0xFF, 0xFF, 1, 2, 3, 4])"
    by code_simp
  moreover have "SplitHostPort ''1.2.3.4:80'' = Inr (''1.2.3.4'', ''80'')" "Atoi ''80'' = Some 80"
    by code_simp+
  ultimately have "\<exists>c'. dialUpstreamSOCKS (\<lambda>_. Inr (peer ([5, 0] @ replyBytes 0 @ [42]))) 0 ''up:1080'' ''1.2.3.4:80'' zeroForwardAuth
     = (Inr c', Some c') \<and> rd_data c' = [42]"
    by (simp add: dialUpstreamSOCKS_def socksNegotiate_def socksGreet_def socksConnectRequest_def socksReadReply_def
        wantMethod_def zeroForwardAuth_def conn_defs wire_defs peer_def replyBytes_def To4_def PutUint16_def)
  then obtain c' where c': "dialUpstreamSOCKS (\<lambda>_. Inr (peer ([5, 0] @ replyBytes 0 @ [42]))) 0 ''up:1080'' ''1.2.3.4:80'' zeroForwardAuth
     = (Inr c', Some c')" "rd_data c' = [42]" by blast
  from dialUpstreamSOCKS_success [OF c'(1)] c' show ?thesis
    by (auto simp: zeroForwardAuth_def)
qed

lemma Itoa_clean: "noBrackets (Itoa n)" "CHR '':'' \<notin> set (Itoa n)"
proof -
  have "c \<in> set (Itoa n) \<Longrightarrow> isDigit c" for c
    using Itoa_digits [of n] by (auto simp: list_all_iff)
  then show "noBrackets (Itoa n)" "CHR '':'' \<notin> set (Itoa n)"
    using isDigit_not_sign by (fastforce simp: noBrackets_def)+
qed

text \<open>C14. The client and the server of this program understand each other. For a target whose host has no
  brackets and fits (an address literal, or at most 255 bytes), the upstream client returns a connection
  when the upstream sends the server's two answers, and the server, reading what the client has written,
  passes its handshake and obtains the same port and the same host, address literals in canonical form;
  each end leaves exactly the other's payload unread.\<close>

theorem socks_client_server_interop:
  assumes "noBrackets host" "hostFits host" "User auth = []"
    and "dial upstream = Inr c" "openConn c" "wr_log c = []"
    and "rd_data c = [5, 0] @ replyBytes socksReplySucceeded @ down"
    and "openConn s" "wr_log s = []"
  shows "\<exists>c'. fst (dialUpstreamSOCKS dial now upstream (JoinHostPort host (Itoa (unat (p :: 16 word)))) auth) = Inr c' \<and>
     rd_data c' = down \<and>
     (rd_data s = wr_log c' @ up \<longrightarrow>
       bindC socksHandshake (\<lambda>_. socksReadRequest) s =
         (Inr (JoinHostPort (canonHost host) (Itoa (unat p))), s\<lparr>rd_data := up, wr_log := [5, 0]\<rparr>))"
proof -
  let ?target = "JoinHostPort host (Itoa (unat p))" and ?req = "requestBytes (host, p)"
  have sp: "SplitHostPort ?target = Inr (host, Itoa (unat p))"
    using assms(1) Itoa_clean by simp
  have at: "Atoi (Itoa (unat p)) = Some (int (unat p))"
    using unsigned_less [of p, where ?'a = nat] by (simp add: order.strict_trans2)
  have rq: "socksConnectRequest host (uint p) = Inr ?req"
    using assms(2) by (simp add: socksConnectRequest_eq)
  let ?c0 = "c\<lparr>deadline := Some (now + 10)\<rparr>"
  let ?c1 = "?c0\<lparr>wr_log := [5, 1, 0], rd_data := replyBytes socksReplySucceeded @ down\<rparr>"
  have g: "socksGreet auth ?c0 = (Inr (), ?c1)"
    using assms by (simp add: socksGreet_def wantMethod_def bindC_def writeC_ok readC_ok [where b = "[5, 0]"]
        openConn_def returnC_def wire_defs)
  let ?c2 = "?c0\<lparr>rd_data := replyBytes socksReplySucceeded @ down, wr_log := 5 # 1 # 0 # ?req\<rparr>"
  have r: "socksReadReply ?target ?c2 = (Inr (), ?c2\<lparr>rd_data := down\<rparr>)"
    using assms by (simp add: socksReadReply_def replyBytes_def bindC_def readC_ok [where b = "[5, 0, 0, 1]"]
        discardC_ok [where b = "[0, 0, 0, 0, 0, 0]"] openConn_def returnC_def wire_defs)
  have cl: "dialUpstreamSOCKS dial now upstream ?target auth =
      (Inr (?c2\<lparr>rd_data := down, deadline := None\<rparr>), Some (?c2\<lparr>rd_data := down, deadline := None\<rparr>))"
    using assms by (simp add: dialUpstreamSOCKS_def SetDeadline_def socksNegotiate_def bindC_def g sp at rq writeC_ok r)
  have "bindC socksHandshake (\<lambda>_. socksReadRequest) s =
      (Inr (JoinHostPort (canonHost host) (Itoa (unat p))), s\<lparr>rd_data := up, wr_log := [5, 0]\<rparr>)"
    if "rd_data s = ([5, 1, 0] @ ?req) @ up"
    using session.session [of s "[0]" "(host, p)" up] that assms by (simp add: greeting_def wire_defs)
  with cl show ?thesis by simp
qed

theorem socks_client_server_interop_witness:
  "\<exists>c'. fst (dialUpstreamSOCKS (\<lambda>_. Inr (peer ([5, 0] @ replyBytes socksReplySucceeded @ [7]))) 0 ''up:1080'' (JoinHostPort ''example'' (Itoa (unat (443 :: 16 word)))) zeroForwardAuth) = Inr c' \<and>
     rd_data c' = [7] \<and>
     (rd_data (peer ([5, 1, 0, 5, 1, 0, 3, 7] @ bytesOf ''example'' @ [1, 187, 9])) = wr_log c' @ [9] \<longrightarrow>
       bindC socksHandshake (\<lambda>_. socksReadRequest) (peer ([5, 1, 0, 5, 1, 0, 3, 7] @ bytesOf ''example'' @ [1, 187, 9])) =
         (Inr (JoinHostPort (canonHost ''example'') (Itoa (unat (443 :: 16 word)))),
          (peer ([5, 1, 0, 5, 1, 0, 3, 7] @ bytesOf ''example'' @ [1, 187, 9]))\<lparr>rd_data := [9], wr_log := [5, 0]\<rparr>))"
  by (rule socks_client_server_interop [OF _ _ _ refl]) (simp_all add: noBrackets_def hostFits_def zeroForwardAuth_def)

lemma writeC_partial:
  "writeC conn_close w bs c = (Inl e, c') \<Longrightarrow> \<exists>k. wr_log c' = wr_log c @ take k bs"
  by (auto simp: writeC_def conn_write_def conn_close_def intro: exI [of _ 0] split: if_splits option.splits)

lemma readC_close_wr: "readC conn_close w n c = (Inl e, c') \<Longrightarrow> wr_log c' = wr_log c"
  by (auto simp: readC_def ReadFull_def conn_close_def split: if_splits)

lemma dialUpstreamSOCKS_some:
  "dial upstream = Inr c0 \<Longrightarrow> \<exists>r c. dialUpstreamSOCKS dial now upstream target auth = (r, Some c)"
  by (auto simp: dialUpstreamSOCKS_def split: prod.splits sum.splits)

text \<open>C18. Credentials are written only to an upstream that chose username/password for this connection:
  if its answer to the greeting is anything else, or too short, all that was written is the greeting,
  whatever the configuration and however writing fails.\<close>

theorem credentials_only_after_userpass:
  assumes "dialUpstreamSOCKS dial now upstream target auth = (r, Some c')" "dial upstream = Inr c"
    and "take 2 (rd_data c) \<noteq> [socksVersion5, wantMethod auth]"
  shows "(\<exists>e. r = Inl e) \<and> (\<exists>k. wr_log c' = wr_log c @ take k [socksVersion5, 1, wantMethod auth])"
proof -
  let ?c = "SetDeadline (Some (now + 10)) c" and ?w = "[socksVersion5, 1, wantMethod auth]"
  obtain rg cg where g: "socksGreet auth ?c = (rg, cg)" by force
  have "(\<exists>e. rg = Inl e) \<and> (\<exists>k. wr_log cg = wr_log ?c @ take k ?w)"
    using g unfolding socksGreet_def Let_def
  proof (cases rule: bindC_cases)
    case (err e)
    with writeC_partial [OF err(1)] show ?thesis by simp
  next
    case (ok u c1)
    from writeC_moves [OF ok(1)] have w: "wr_log c1 = wr_log ?c @ ?w" "rd_data c1 = rd_data c"
      by (simp_all add: moves_def SetDeadline_def)
    from ok(2) show ?thesis
    proof (cases rule: bindC_cases)
      case (err e)
      then have "wr_log cg = wr_log ?c @ take 3 ?w" using w by (simp add: readC_close_wr)
      with err show ?thesis by blast
    next
      case (ok b c2)
      from readC_moves [OF ok(1)] w have b: "length b = 2" "rd_data c = b @ rd_data c2" "wr_log c2 = wr_log ?c @ ?w"
        by (simp_all add: moves_def)
      have "b ! 0 \<noteq> socksVersion5 \<or> b ! 1 \<noteq> wantMethod auth"
        using assms(3) b bytes2 [OF b(1)] by auto
      then have "rg = Inl (MethodRefused (b ! 1))" "wr_log cg = wr_log ?c @ take 3 ?w"
        using ok(2) b(3) by (auto simp: failC_def conn_close_def)
      then show ?thesis by blast
    qed
  qed
  then obtain e k where "rg = Inl e" "wr_log cg = wr_log ?c @ take k ?w" by blast
  then show ?thesis
    using assms(1,2) g
    by (auto simp: dialUpstreamSOCKS_def socksNegotiate_def bindC_def SetDeadline_def intro: exI [of _ k])
qed

theorem credentials_only_after_userpass_witness:
  "\<exists>k. wr_log (the (snd (dialUpstreamSOCKS (\<lambda>_. Inr (peer [5, 0])) 0 ''up:1080'' ''h:80'' \<lparr>User = ''u'', Pass = ''p''\<rparr>))) =
     take k [5, 1, 2]"
proof -
  let ?a = "\<lparr>User = ''u'', Pass = ''p''\<rparr>"
  obtain r c' where d: "dialUpstreamSOCKS (\<lambda>_. Inr (peer [5, 0])) 0 ''up:1080'' ''h:80'' ?a = (r, Some c')"
    using dialUpstreamSOCKS_some [of "\<lambda>_. Inr (peer [5, 0])" "''up:1080''" "peer [5, 0]"] by blast
  have "take 2 (rd_data (peer [5, 0])) \<noteq> [socksVersion5, wantMethod ?a]"
    by (simp add: wantMethod_def wire_defs)
  from credentials_only_after_userpass [OF d refl this] d show ?thesis
    by (auto simp: wantMethod_def wire_defs)
qed

text \<open>C39. The port of a target is cut to sixteen bits without a range check: a target with a port beyond
  65535 produces the very request of another port, so \<open>CONNECT host:65616\<close> is relayed upstream as
  a connection to port 80.\<close>

theorem socksConnectRequest_port_truncated:
  "socksConnectRequest host port = socksConnectRequest host (port mod 65536) \<and>
   socksConnectRequest host 65616 = socksConnectRequest host 80"
proof -
  have "(word_of_int port :: 16 word) = word_of_int (port mod 65536)"
    by (simp add: word_of_int_eq_iff take_bit_eq_mod)
  moreover have "(65616 :: 16 word) = 80" by simp
  ultimately show ?thesis
    by (simp only: socksConnectRequest_eq word_of_int_numeral simp_thms)
qed

end
