(* ===== verification/Go_MD5.thy ===== *)
theory Go_MD5
  imports Go_Encoding
begin

text \<open>
  \<open>md5.Sum\<close> of Go's standard library (RFC 1321), on 32-bit words, with one of the RFC's test vectors evaluated.
  The properties of the digest computation do not depend on it.
\<close>

unbundle bit_operations_syntax

type_synonym w32 = "32 word"

definition md5K :: "w32 list" where
  "md5K =
     [0xD76AA478, 0xE8C7B756, 0x242070DB, 0xC1BDCEEE, 0xF57C0FAF, 0x4787C62A,
      0xA8304613, 0xFD469501, 0x698098D8, 0x8B44F7AF, 0xFFFF5BB1, 0x895CD7BE,
      0x6B901122, 0xFD987193, 0xA679438E, 0x49B40821, 0xF61E2562, 0xC040B340,
      0x265E5A51, 0xE9B6C7AA, 0xD62F105D, 0x02441453, 0xD8A1E681, 0xE7D3FBC8,
      0x21E1CDE6, 0xC33707D6, 0xF4D50D87, 0x455A14ED, 0xA9E3E905, 0xFCEFA3F8,
      0x676F02D9, 0x8D2A4C8A, 0xFFFA3942, 0x8771F681, 0x6D9D6122, 0xFDE5380C,
      0xA4BEEA44, 0x4BDECFA9, 0xF6BB4B60, 0xBEBFBC70, 0x289B7EC6, 0xEAA127FA,
      0xD4EF3085, 0x04881D05, 0xD9D4D039, 0xE6DB99E5, 0x1FA27CF8, 0xC4AC5665,
      0xF4292244, 0x432AFF97, 0xAB9423A7, 0xFC93A039, 0x655B59C3, 0x8F0CCC92,
      0xFFEFF47D, 0x85845DD1, 0x6FA87E4F, 0xFE2CE6E0, 0xA3014314, 0x4E0811A1,
      0xF7537E82, 0xBD3AF235, 0x2AD7D2BB, 0xEB86D391]"

definition md5S :: "nat list" where
  "md5S = concat (replicate 4 [7, 12, 17, 22] @ replicate 4 [5, 9, 14, 20] @
     replicate 4 [4, 11, 16, 23] @ replicate 4 [6, 10, 15, 21])"

text \<open>The word index read in each round.\<close>

definition md5G :: "nat list" where
  "md5G = [0..<16] @ map (\<lambda>i. (5 * i + 1) mod 16) [16..<32] @ map (\<lambda>i. (3 * i + 5) mod 16) [32..<48] @
     map (\<lambda>i. (7 * i) mod 16) [48..<64]"

definition md5F :: "nat \<Rightarrow> w32 \<Rightarrow> w32 \<Rightarrow> w32 \<Rightarrow> w32" where
  "md5F i b c d =
     (if i < 16 then (b AND c) OR (NOT b AND d)
      else if i < 32 then (d AND b) OR (NOT d AND c)
      else if i < 48 then b XOR c XOR d
      else c XOR (b OR NOT d))"

definition rotl32 :: "nat \<Rightarrow> w32 \<Rightarrow> w32" where
  "rotl32 n x = push_bit n x OR drop_bit (32 - n) x"

type_synonym md5state = "w32 \<times> w32 \<times> w32 \<times> w32"

fun md5Rounds :: "w32 list \<Rightarrow> (nat \<times> w32 \<times> nat \<times> nat) list \<Rightarrow> md5state \<Rightarrow> md5state" where
  "md5Rounds m [] st = st"
| "md5Rounds m ((i, k, s, g) # rs) (a, b, c, d) =
     md5Rounds m rs (d, b + rotl32 s (a + md5F i b c d + k + m ! g), b, c)"

definition word32LE :: "byte list \<Rightarrow> w32" where
  "word32LE bs = ucast (bs ! 0) OR push_bit 8 (ucast (bs ! 1)) OR push_bit 16 (ucast (bs ! 2)) OR push_bit 24 (ucast (bs ! 3))"

definition bytes32LE :: "w32 \<Rightarrow> byte list" where
  "bytes32LE w = [ucast w, ucast (drop_bit 8 w), ucast (drop_bit 16 w), ucast (drop_bit 24 w)]"

definition bytes64LE :: "64 word \<Rightarrow> byte list" where
  "bytes64LE w = bytes32LE (ucast w) @ bytes32LE (ucast (drop_bit 32 w))"

definition md5Block :: "md5state \<Rightarrow> byte list \<Rightarrow> md5state" where
  "md5Block st blk =
     (let m = map (\<lambda>i. word32LE (drop (4 * i) blk)) [0..<16];
          (a, b, c, d) = st;
          (a', b', c', d') = md5Rounds m (zip [0..<64] (zip md5K (zip md5S md5G))) st
      in (a + a', b + b', c + c', d + d'))"

fun md5Blocks :: "nat \<Rightarrow> byte list \<Rightarrow> md5state \<Rightarrow> md5state" where
  "md5Blocks 0 bs st = st"
| "md5Blocks (Suc n) bs st = md5Blocks n (drop 64 bs) (md5Block st (take 64 bs))"

definition md5Pad :: "byte list \<Rightarrow> byte list" where
  "md5Pad bs = bs @ [0x80] @ replicate ((119 - length bs mod 64) mod 64) 0 @ bytes64LE (8 * word_of_nat (length bs))"

definition md5Sum :: "byte list \<Rightarrow> byte list" where
  "md5Sum bs =
     (let p = md5Pad bs;
          (a, b, c, d) = md5Blocks (length p div 64) p (0x67452301, 0xEFCDAB89, 0x98BADCFE, 0x10325476)
      in bytes32LE a @ bytes32LE b @ bytes32LE c @ bytes32LE d)"

lemma length_md5Sum: "length (md5Sum bs) = 16"
  by (simp add: md5Sum_def bytes32LE_def Let_def split: prod.splits)

lemma md5Pad_blocks: "64 dvd length (md5Pad bs)"
proof -
  have "length (md5Pad bs) = length bs + 9 + (119 - length bs mod 64) mod 64"
    by (simp add: md5Pad_def bytes64LE_def bytes32LE_def)
  moreover have "(length bs + 9 + (119 - length bs mod 64) mod 64) mod 64 = 0"
  proof -
    have "(length bs mod 64 + 9 + (119 - length bs mod 64)) mod 64 = 0"
      using mod_less_divisor [of 64 "length bs"] by (simp add: less_imp_le_nat)
    then show ?thesis by (metis mod_add_left_eq mod_add_right_eq)
  qed
  ultimately show ?thesis by (metis dvd_eq_mod_eq_0)
qed

lemma md5Sum_abc: "hexEncode (md5Sum (bytesOf ''abc'')) = ''900150983cd24fb0d6963f7d28e17f72''"
  by code_simp

end
