(* ===== verification/Digest.thy ===== *)
theory Digest
  imports Go_MD5 Go_Conn
begin

text \<open>
  HTTP Digest authentication towards an upstream proxy (\<open>internal/proxy/digest.go\<close>): finding and
  parsing a challenge, splitting its parameters, and computing the answer. Randomness is the
  argument \<open>rand\<close>, the result of \<open>rand.Read\<close>; \<open>isPrint\<close> is the Unicode table \<open>%q\<close> consults.
\<close>

record digestChallenge =
  realm :: string
  nonce :: string
  opaque :: string
  algorithm :: string
  qop :: string

definition zeroChallenge :: digestChallenge where
  "zeroChallenge = \<lparr>realm = '''', nonce = '''', opaque = '''', algorithm = '''', qop = ''''\<rparr>"

section \<open>Parsing a challenge\<close>

lemma decodeRune_pos: "(r, w) = decodeRune (c # s) \<Longrightarrow> 0 < w"
  using decodeRune_width [of "c # s"] by (cases "decodeRune (c # s)") auto

text \<open>The bytes \<open>WriteRune\<close> appends for the rune at the front: itself, or U+FFFD for an invalid byte.\<close>

definition runeText :: "string \<Rightarrow> string" where
  "runeText s =
     (case decodeRune s of (r, w) \<Rightarrow>
        if r = 0xFFFD \<and> w = 1 then [CHR 0xEF, CHR 0xBF, CHR 0xBD] else take w s)"

text \<open>The loop of \<open>splitAuthParams\<close>: the state is \<open>inQuotes\<close> and the builder \<open>cur\<close>; the result is the
  list still to be appended to \<open>params\<close>.\<close>

function splitAuthLoop :: "bool \<Rightarrow> string \<Rightarrow> string \<Rightarrow> string list" where
  "splitAuthLoop inQuotes cur [] = (if 0 < length cur then [cur] else [])"
| "splitAuthLoop inQuotes cur (c # s) =
     (case decodeRune (c # s) of (r, w) \<Rightarrow>
        let rest = drop w (c # s) in
        if r = 0x22 then splitAuthLoop (\<not> inQuotes) (cur @ runeText (c # s)) rest
        else if r = 0x2C \<and> \<not> inQuotes then cur # splitAuthLoop inQuotes [] rest
        else splitAuthLoop inQuotes (cur @ runeText (c # s)) rest)"
  by pat_completeness auto
termination
  by (relation "measure (\<lambda>(q, cur, s). length s)") (auto dest: decodeRune_pos)

definition splitAuthParams :: "string \<Rightarrow> string list" where
  "splitAuthParams s = splitAuthLoop False [] s"

definition setQop :: "string \<Rightarrow> digestChallenge \<Rightarrow> digestChallenge" where
  "setQop value ch =
     (if \<exists>q \<in> set (splitByte CHR '','' value). TrimSpace q = ''auth'' then ch\<lparr>qop := ''auth''\<rparr> else ch)"

definition digestParam :: "string \<Rightarrow> digestChallenge \<Rightarrow> digestChallenge" where
  "digestParam param ch =
     (case Cut param CHR ''='' of (k, v, found) \<Rightarrow>
        if \<not> found then ch
        else
          (let key = TrimSpace k; value = trimBytes {CHR 0x22} (TrimSpace v); lk = ToLower key in
           if lk = ''realm'' then ch\<lparr>realm := value\<rparr>
           else if lk = ''nonce'' then ch\<lparr>nonce := value\<rparr>
           else if lk = ''opaque'' then ch\<lparr>opaque := value\<rparr>
           else if lk = ''algorithm'' then ch\<lparr>algorithm := value\<rparr>
           else if lk = ''qop'' then setQop value ch
           else ch))"

definition parseDigestChallenge :: "string \<Rightarrow> digestChallenge option" where
  "parseDigestChallenge header =
     (case Cut (TrimSpace header) CHR '' '' of (scheme, rest, _) \<Rightarrow>
        if \<not> EqualFold scheme ''Digest'' then None
        else
          (let ch = fold digestParam (splitAuthParams rest) zeroChallenge in
           if nonce ch = '''' then None else Some ch))"

fun findDigestChallenge :: "string list \<Rightarrow> digestChallenge option" where
  "findDigestChallenge [] = None"
| "findDigestChallenge (h # hs) =
     (case parseDigestChallenge h of Some ch \<Rightarrow> Some ch | None \<Rightarrow> findDigestChallenge hs)"

section \<open>Answering it\<close>

definition md5Hex :: "string \<Rightarrow> string" where
  "md5Hex s = hexEncode (md5Sum (bytesOf s))"

definition randomHex :: "(io_error + byte list) \<Rightarrow> io_error + string" where
  "randomHex rand = (case rand of Inl e \<Rightarrow> Inl e | Inr buf \<Rightarrow> Inr (hexEncode buf))"

datatype digest_error = UnsupportedAlgorithm string | RandomFailed io_error

definition nc :: string where "nc = ''00000001''"

definition buildDigestAuthorization ::
    "(nat \<Rightarrow> bool) \<Rightarrow> (io_error + byte list) \<Rightarrow> digestChallenge \<Rightarrow> string \<Rightarrow> string \<Rightarrow> string \<Rightarrow> string
     \<Rightarrow> (digest_error, string) result" where
  "buildDigestAuthorization isPrint rand ch method uri user pass =
     (let alg = (if algorithm ch = '''' then ''MD5'' else algorithm ch) in
      if \<not> EqualFold alg ''MD5'' \<and> \<not> EqualFold alg ''MD5-sess''
      then Inl (UnsupportedAlgorithm (algorithm ch))
      else
        (case randomHex rand of
           Inl e \<Rightarrow> Inl (RandomFailed e)
         | Inr cnonce \<Rightarrow>
             let ha0 = md5Hex (user @ '':'' @ realm ch @ '':'' @ pass);
                 ha1 = (if EqualFold alg ''MD5-sess'' then md5Hex (ha0 @ '':'' @ nonce ch @ '':'' @ cnonce) else ha0);
                 ha2 = md5Hex (method @ '':'' @ uri);
                 response =
                   (if qop ch \<noteq> '''' then md5Hex (joinByte CHR '':'' [ha1, nonce ch, nc, cnonce, qop ch, ha2])
                    else md5Hex (ha1 @ '':'' @ nonce ch @ '':'' @ ha2));
                 q = Quote isPrint
             in Inr (''Digest username='' @ q user @ '', realm='' @ q (realm ch) @ '', nonce='' @ q (nonce ch) @
                  '', uri='' @ q uri @ '', response='' @ q response @
                  (if opaque ch \<noteq> '''' then '', opaque='' @ q (opaque ch) else '''') @
                  (if algorithm ch \<noteq> '''' then '', algorithm='' @ alg else '''') @
                  (if qop ch \<noteq> '''' then '', qop='' @ qop ch @ '', nc='' @ nc @ '', cnonce='' @ q cnonce else ''''))))"

end
