(* ===== verification/Digest_Props.thy ===== *)
theory Digest_Props
  imports Digest
begin

text \<open>
  Properties of Digest authentication: parameter lists and challenges survive printing and parsing, the
  answer carries the response RFC 2617 prescribes in a form that reads back, and no challenge can make
  the header break a line.
\<close>

section \<open>Splitting parameters\<close>

definition asciiStr :: "string \<Rightarrow> bool" where
  "asciiStr s \<longleftrightarrow> list_all (\<lambda>c. (of_char c :: nat) < 0x80) s"

text \<open>A parameter: quotes balanced, commas only inside quotes. The flag is "inside quotes".\<close>

fun scanParam :: "bool \<Rightarrow> string \<Rightarrow> bool" where
  "scanParam q [] = (\<not> q)"
| "scanParam q (c # s) =
     (if c = CHR 0x22 then scanParam (\<not> q) s else if c = CHR '','' \<and> \<not> q then False else scanParam q s)"

lemma asciiStr_simps [simp]:
  "asciiStr []" "asciiStr (c # s) \<longleftrightarrow> (of_char c :: nat) < 0x80 \<and> asciiStr s" "asciiStr (s @ t) \<longleftrightarrow> asciiStr s \<and> asciiStr t"
  by (auto simp: asciiStr_def)

lemma splitAuthLoop_ascii:
  assumes "(of_char c :: nat) < 0x80"
  shows "splitAuthLoop q cur (c # s) =
    (if c = CHR 0x22 then splitAuthLoop (\<not> q) (cur @ [c]) s
     else if c = CHR '','' \<and> \<not> q then cur # splitAuthLoop q [] s
     else splitAuthLoop q (cur @ [c]) s)"
proof -
  have "(of_char c = (34 :: nat)) = (c = CHR 0x22)" "(of_char c = (44 :: nat)) = (c = CHR '','')"
    using of_char_eq_iff [of c "CHR 0x22", where ?'a = nat] of_char_eq_iff [of c "CHR '',''", where ?'a = nat] by simp_all
  with assms show ?thesis by (simp add: runeText_def)
qed

declare splitAuthLoop.simps(2) [simp del]

lemma splitAuthLoop_param:
  "asciiStr p \<Longrightarrow> scanParam q p \<Longrightarrow> splitAuthLoop q cur (p @ CHR '','' # s) = (cur @ p) # splitAuthLoop False [] s"
  by (induction p arbitrary: q cur) (auto simp: splitAuthLoop_ascii split: if_splits)

lemma splitAuthLoop_last:
  "asciiStr p \<Longrightarrow> scanParam q p \<Longrightarrow> splitAuthLoop q cur p = (if cur @ p = [] then [] else [cur @ p])"
  by (induction p arbitrary: q cur) (auto simp: splitAuthLoop_ascii split: if_splits)

lemma splitAuthLoop_all:
  assumes "ps \<noteq> []" "last ps \<noteq> []" "\<forall>p \<in> set ps. asciiStr p \<and> scanParam False p"
  shows "splitAuthParams (joinByte CHR '','' ps) = ps"
  using assms unfolding splitAuthParams_def
proof (induction ps)
  case (Cons p ps)
  then show ?case
    by (cases "ps = []") (auto simp: splitAuthLoop_last joinByte_Cons splitAuthLoop_param)
qed simp

text \<open>Splitting undoes joining: a list of parameters in which commas occur only inside balanced quotes,
  joined with commas, splits into exactly those parameters.\<close>

theorem splitAuthParams_join:
  assumes "ps \<noteq> []" "last ps \<noteq> []" "\<forall>p \<in> set ps. asciiStr p \<and> scanParam False p"
  shows "splitAuthParams (joinByte CHR '','' ps) = ps"
  using assms by (rule splitAuthLoop_all)

theorem splitAuthParams_join_witness:
  "splitAuthParams (joinByte CHR '','' [''realm='' @ [CHR 0x22] @ ''a,b'' @ [CHR 0x22], '' nonce=x'']) =
     [''realm='' @ [CHR 0x22] @ ''a,b'' @ [CHR 0x22], '' nonce=x'']"
  by (rule splitAuthParams_join) simp_all

section \<open>Reading a challenge\<close>

definition visible :: "char \<Rightarrow> bool" where
  "visible c \<longleftrightarrow> (let n = of_char c :: nat in 0x20 < n \<and> n < 0x7F)"

lemma visible_no_space: "visible c \<Longrightarrow> w \<in> set spaceRunes \<Longrightarrow> \<not> HasPrefix (c # s) w \<and> \<not> HasPrefix (c # s) (rev w)"
  by (auto simp: spaceRunes_def visible_def)

lemma TrimSpace_id:
  assumes "s \<noteq> []" "visible (hd s)" "visible (last s)"
  shows "TrimSpace s = s"
proof -
  have "stripLead (length s) spaceRunes s = s"
    using assms visible_no_space by (intro stripLead_keeps) (metis list.collapse)
  moreover have "stripLead (length s) (map rev spaceRunes) (rev s) = rev s"
    using assms visible_no_space [of "last s"] by (intro stripLead_keeps) (metis (no_types, lifting) imageE list.set_map rev_eq_Cons_iff append_butlast_last_id rev_rev_ident)
  ultimately show ?thesis by (simp add: TrimSpace_def)
qed

lemma TrimSpace_lead:
  assumes "s \<noteq> []" "visible (hd s)" "visible (last s)"
  shows "TrimSpace (CHR '' '' # s) = s"
proof -
  have "List.find (HasPrefix (CHR '' '' # s)) spaceRunes = Some [CHR '' '']"
    by (simp add: spaceRunes_def)
  then have "TrimSpace (CHR '' '' # s) = TrimSpace s"
    by (simp add: TrimSpace_def)
  with assms show ?thesis by (simp add: TrimSpace_id)
qed

definition dq :: "string \<Rightarrow> string" where
  "dq s = [CHR 0x22] @ s @ [CHR 0x22]"

definition noQuote :: "string \<Rightarrow> bool" where
  "noQuote s \<longleftrightarrow> asciiStr s \<and> CHR 0x22 \<notin> set s"

lemma visible_lits [simp]: "visible (CHR 0x22)" "visible (CHR ''r'')" "visible (CHR ''n'')" "visible (CHR ''o'')" "visible (CHR ''q'')"
  "visible (CHR ''a'')" "visible (CHR ''D'')" "visible (CHR ''='')" "visible (CHR ''d'')" "visible (CHR ''h'')"
  by (simp_all add: visible_def)

lemma trim_dq [simp]: "noQuote s \<Longrightarrow> trimBytes {CHR 0x22} (TrimSpace (dq s)) = s"
  using trimBytes_bracketed [of s "{CHR 0x22}" "[CHR 0x22]" "[CHR 0x22]"] TrimSpace_id [of "dq s"]
  by (auto simp: dq_def noQuote_def)

lemma scan_quoted: "CHR 0x22 \<notin> set s \<Longrightarrow> scanParam True (s @ CHR 0x22 # t) = scanParam False t"
  by (induction s) auto

lemma scan_plain: "CHR 0x22 \<notin> set s \<Longrightarrow> CHR '','' \<notin> set s \<Longrightarrow> scanParam False (s @ t) = scanParam False t"
  by (induction s) auto

lemma digestParam_eq:
  "CHR ''='' \<notin> set k \<Longrightarrow> digestParam (k @ CHR ''='' # v) ch =
     (let lk = ToLower (TrimSpace k); value = trimBytes {CHR 0x22} (TrimSpace v) in
      if lk = ''realm'' then ch\<lparr>realm := value\<rparr>
      else if lk = ''nonce'' then ch\<lparr>nonce := value\<rparr>
      else if lk = ''opaque'' then ch\<lparr>opaque := value\<rparr>
      else if lk = ''algorithm'' then ch\<lparr>algorithm := value\<rparr>
      else if lk = ''qop'' then setQop value ch
      else ch)"
  by (simp add: digestParam_def Cut_append Let_def)

text \<open>A token, as the algorithm is written: visible, without quote and comma.\<close>

definition token :: "string \<Rightarrow> bool" where
  "token s \<longleftrightarrow> list_all (\<lambda>c. visible c \<and> c \<noteq> CHR 0x22 \<and> c \<noteq> CHR '','') s"

text \<open>How a server writes a challenge (RFC 2617, section 3.2.1): absent fields are left out.\<close>

definition challengeParams :: "digestChallenge \<Rightarrow> string list" where
  "challengeParams ch =
     [''realm='' @ dq (realm ch), '' nonce='' @ dq (nonce ch)] @
     (if opaque ch = [] then [] else ['' opaque='' @ dq (opaque ch)]) @
     (if algorithm ch = [] then [] else ['' algorithm='' @ algorithm ch]) @
     (if qop ch = [] then [] else ['' qop='' @ dq (qop ch)])"

definition challengeText :: "digestChallenge \<Rightarrow> string" where
  "challengeText ch = ''Digest '' @ joinByte CHR '','' (challengeParams ch)"

definition goodChallenge :: "digestChallenge \<Rightarrow> bool" where
  "goodChallenge ch \<longleftrightarrow> noQuote (realm ch) \<and> noQuote (nonce ch) \<and> nonce ch \<noteq> [] \<and> noQuote (opaque ch) \<and>
     token (algorithm ch) \<and> qop ch \<in> {'''', ''auth''}"

lemma token_ascii: "token s \<Longrightarrow> asciiStr s \<and> CHR 0x22 \<notin> set s \<and> CHR '','' \<notin> set s"
proof -
  assume a: "token s"
  then have "asciiStr s"
    unfolding token_def asciiStr_def by (rule list.pred_mono_strong) (simp add: visible_def Let_def)
  moreover have "CHR 0x22 \<notin> set s \<and> CHR '','' \<notin> set s"
    using a by (auto simp: token_def list_all_iff)
  ultimately show ?thesis by simp
qed

lemma token_trim: "token s \<Longrightarrow> s \<noteq> [] \<Longrightarrow> trimBytes {CHR 0x22} (TrimSpace s) = s"
proof -
  assume a: "token s" "s \<noteq> []"
  then have "TrimSpace s = s" by (intro TrimSpace_id) (auto simp: token_def list_all_iff)
  with a show ?thesis using token_ascii [of s] by (simp add: trimBytes_id)
qed

lemma param_keys:
  "TrimSpace ''realm'' = ''realm''" "TrimSpace '' nonce'' = ''nonce''" "TrimSpace '' opaque'' = ''opaque''"
  "TrimSpace '' algorithm'' = ''algorithm''" "TrimSpace '' qop'' = ''qop''" "TrimSpace ''auth'' = ''auth''"
  "ToLower ''realm'' = ''realm''" "ToLower ''nonce'' = ''nonce''" "ToLower ''opaque'' = ''opaque''"
  "ToLower ''algorithm'' = ''algorithm''" "ToLower ''qop'' = ''qop''"
  by code_simp+

lemma digestParam_keys:
  "noQuote v \<Longrightarrow> digestParam (''realm='' @ dq v) ch = ch\<lparr>realm := v\<rparr>"
  "noQuote v \<Longrightarrow> digestParam ('' nonce='' @ dq v) ch = ch\<lparr>nonce := v\<rparr>"
  "noQuote v \<Longrightarrow> digestParam ('' opaque='' @ dq v) ch = ch\<lparr>opaque := v\<rparr>"
  "token a \<Longrightarrow> a \<noteq> [] \<Longrightarrow> digestParam ('' algorithm='' @ a) ch = ch\<lparr>algorithm := a\<rparr>"
  "digestParam ('' qop='' @ dq ''auth'') ch = ch\<lparr>qop := ''auth''\<rparr>"
  using digestParam_eq [of "''realm''" "dq v" ch] digestParam_eq [of "'' nonce''" "dq v" ch]
    digestParam_eq [of "'' opaque''" "dq v" ch] digestParam_eq [of "'' algorithm''" a ch]
    digestParam_eq [of "'' qop''" "dq ''auth''" ch]
  by (simp_all add: param_keys token_trim setQop_def noQuote_def lowerChar_def)

lemma quoted_param:
  "noQuote v \<Longrightarrow> noQuote k \<Longrightarrow> CHR '','' \<notin> set k \<Longrightarrow> asciiStr (k @ dq v) \<and> scanParam False (k @ dq v)"
  by (simp add: noQuote_def dq_def scan_plain scan_quoted)

lemma token_param:
  "token v \<Longrightarrow> noQuote k \<Longrightarrow> CHR '','' \<notin> set k \<Longrightarrow> asciiStr (k @ v) \<and> scanParam False (k @ v)"
  using token_ascii [of v] scan_plain [of v "[]"] by (simp add: noQuote_def scan_plain)

lemma challengeParams_ok:
  assumes "goodChallenge ch"
  shows "\<forall>p \<in> set (challengeParams ch). asciiStr p \<and> scanParam False p"
    and "challengeParams ch \<noteq> []" "last (challengeParams ch) \<noteq> []" "visible (last (last (challengeParams ch)))"
proof -
  have keys: "noQuote ''realm=''" "noQuote '' nonce=''" "noQuote '' opaque=''" "noQuote '' algorithm=''" "noQuote '' qop=''"
      "noQuote ''auth''"
    by (simp_all add: noQuote_def)
  have q: "asciiStr ('' qop='' @ dq (qop ch)) \<and> scanParam False ('' qop='' @ dq (qop ch))"
    using assms keys by (intro quoted_param) (auto simp: goodChallenge_def noQuote_def)
  show "\<forall>p \<in> set (challengeParams ch). asciiStr p \<and> scanParam False p"
    using assms q quoted_param [of "realm ch" "''realm=''"] quoted_param [of "nonce ch" "'' nonce=''"]
      quoted_param [of "opaque ch" "'' opaque=''"] token_param [of "algorithm ch" "'' algorithm=''"] keys
    by (simp add: challengeParams_def goodChallenge_def)
  show "challengeParams ch \<noteq> []" "last (challengeParams ch) \<noteq> []"
    by (simp_all add: challengeParams_def)
  have "algorithm ch \<noteq> [] \<Longrightarrow> visible (last (algorithm ch))"
    using assms by (simp add: goodChallenge_def token_def list_all_iff)
  then show "visible (last (last (challengeParams ch)))"
    by (simp add: challengeParams_def dq_def)
qed

lemma last_joinByte: "ps \<noteq> [] \<Longrightarrow> last ps \<noteq> [] \<Longrightarrow> joinByte c ps \<noteq> [] \<and> last (joinByte c ps) = last (last ps)"
  by (induction ps) (auto simp: joinByte_Cons)

lemma fold_challenge:
  assumes "goodChallenge ch"
  shows "fold digestParam (challengeParams ch) zeroChallenge = ch"
  using assms
  by (cases ch) (auto simp: challengeParams_def goodChallenge_def digestParam_keys [simplified] zeroChallenge_def)

lemma parse_challengeText:
  assumes "goodChallenge ch"
  shows "parseDigestChallenge (challengeText ch) = Some ch"
proof -
  let ?ps = "challengeParams ch"
  note ok = challengeParams_ok [OF assms]
  have s: "splitAuthParams (joinByte CHR '','' ?ps) = ?ps"
    using ok splitAuthLoop_all by blast
  have "TrimSpace (challengeText ch) = challengeText ch"
    using last_joinByte [OF ok(2,3), of "CHR '',''"] ok(4) by (intro TrimSpace_id) (auto simp: challengeText_def)
  moreover have "Cut (challengeText ch) CHR '' '' = (''Digest'', joinByte CHR '','' ?ps, True)"
    using Cut_append [of "CHR '' ''" "''Digest''" "joinByte CHR '','' ?ps"] by (simp add: challengeText_def)
  ultimately show ?thesis
    using assms s by (simp add: parseDigestChallenge_def fold_challenge EqualFold_def goodChallenge_def)
qed

text \<open>C36. A challenge as a server writes it is understood: for every challenge whose quoted values are
  ASCII without quotes, whose algorithm is a token and whose nonce is not empty, parsing its text gives
  back exactly its fields, with absent fields empty.\<close>

theorem parseDigestChallenge_roundtrip:
  assumes "goodChallenge ch"
  shows "parseDigestChallenge (challengeText ch) = Some ch"
  using assms by (rule parse_challengeText)

theorem parseDigestChallenge_roundtrip_witness:
  "parseDigestChallenge (challengeText \<lparr>realm = ''a, b'', nonce = ''n1'', opaque = '''', algorithm = ''MD5'', qop = ''auth''\<rparr>) =
     Some \<lparr>realm = ''a, b'', nonce = ''n1'', opaque = '''', algorithm = ''MD5'', qop = ''auth''\<rparr>"
  by (rule parseDigestChallenge_roundtrip) (simp add: goodChallenge_def noQuote_def token_def visible_def)

section \<open>The answer\<close>

text \<open>The request digest of RFC 2617, sections 3.2.2.1 to 3.2.2.3, from its own definitions.\<close>

definition rfcKD :: "string \<Rightarrow> string \<Rightarrow> string" where
  "rfcKD secret data = md5Hex (secret @ '':'' @ data)"

definition rfcA1 :: "bool \<Rightarrow> string \<Rightarrow> string \<Rightarrow> string \<Rightarrow> string \<Rightarrow> string \<Rightarrow> string" where
  "rfcA1 sess user rlm pass nce cnonce =
     (let up = user @ '':'' @ rlm @ '':'' @ pass in
      if sess then md5Hex up @ '':'' @ nce @ '':'' @ cnonce else up)"

definition rfcResponse :: "digestChallenge \<Rightarrow> string \<Rightarrow> string \<Rightarrow> string \<Rightarrow> string \<Rightarrow> string \<Rightarrow> string" where
  "rfcResponse ch method uri user pass cnonce =
     (let h1 = md5Hex (rfcA1 (EqualFold (algorithm ch) ''MD5-sess'') user (realm ch) pass (nonce ch) cnonce);
          h2 = md5Hex (method @ '':'' @ uri)
      in if qop ch = '''' then rfcKD h1 (nonce ch @ '':'' @ h2)
         else rfcKD h1 (nonce ch @ '':00000001:'' @ cnonce @ '':'' @ qop ch @ '':'' @ h2))"

text \<open>Text that quoting leaves as it is.\<close>

definition plainText :: "string \<Rightarrow> bool" where
  "plainText s \<longleftrightarrow> list_all (\<lambda>c. let n = of_char c :: nat in 0x20 \<le> n \<and> n < 0x7F \<and> n \<noteq> 0x22 \<and> n \<noteq> 0x5C) s"

lemma quoteBody_plainText: "plainText s \<Longrightarrow> quoteBody isPrint s = s"
proof (induction s)
  case (Cons c s)
  then have c: "(of_char c :: nat) < 0x80" "0x20 \<le> (of_char c :: nat)" "(of_char c :: nat) < 0x7F"
      "(of_char c :: nat) \<noteq> 0x22" "(of_char c :: nat) \<noteq> 0x5C" and s: "plainText s"
    by (simp_all add: plainText_def Let_def)
  then have "escapeRune isPrint (of_char c) [c] = [c]" by (simp add: escapeRune_def)
  with c Cons.IH [OF s] show ?case by simp
qed simp

lemma Quote_plainText: "plainText s \<Longrightarrow> Quote isPrint s = dq s"
  by (simp add: Quote_def quoteBody_plainText dq_def DQ_def)

lemma plainText_noQuote: "plainText s \<Longrightarrow> noQuote s"
proof -
  assume a: "plainText s"
  then have "asciiStr s"
    unfolding plainText_def asciiStr_def by (rule list.pred_mono_strong) (simp add: Let_def)
  moreover have "CHR 0x22 \<notin> set s" using a by (auto simp: plainText_def list_all_iff)
  ultimately show ?thesis by (simp add: noQuote_def)
qed

lemma hexDigit_plainText: "n < 16 \<Longrightarrow> plainText [hexDigit n]"
  by (auto simp: plainText_def hexDigit_def)

lemma hexEncode_plainText: "plainText (hexEncode bs)"
proof (induction bs)
  case (Cons b bs)
  have "plainText [hexDigit (unat b div 16 mod 16)]" "plainText [hexDigit (unat b mod 16)]"
    by (simp_all add: hexDigit_plainText)
  with Cons show ?case by (simp add: hex2_def plainText_def)
qed (simp add: plainText_def)

definition answerParams :: "digestChallenge \<Rightarrow> string \<Rightarrow> string \<Rightarrow> string \<Rightarrow> string \<Rightarrow> string \<Rightarrow> string list" where
  "answerParams ch method uri user pass cnonce =
     [''username='' @ dq user, '' realm='' @ dq (realm ch), '' nonce='' @ dq (nonce ch), '' uri='' @ dq uri,
      '' response='' @ dq (rfcResponse ch method uri user pass cnonce)] @
     (if opaque ch = [] then [] else ['' opaque='' @ dq (opaque ch)]) @
     (if algorithm ch = [] then [] else ['' algorithm='' @ algorithm ch]) @
     (if qop ch = [] then [] else ['' qop='' @ qop ch, '' nc=00000001'', '' cnonce='' @ dq cnonce])"

definition plainAnswer :: "digestChallenge \<Rightarrow> string \<Rightarrow> string \<Rightarrow> bool" where
  "plainAnswer ch uri user \<longleftrightarrow> plainText user \<and> plainText (realm ch) \<and> plainText (nonce ch) \<and> plainText uri \<and>
     plainText (opaque ch) \<and> algorithm ch \<in> {'''', ''MD5'', ''MD5-sess''} \<and> qop ch \<in> {'''', ''auth''}"

lemma build_eq_answer:
  assumes "plainAnswer ch uri user"
  shows "buildDigestAuthorization isPrint (Inr buf) ch method uri user pass =
     Inr (''Digest '' @ joinByte CHR '','' (answerParams ch method uri user pass (hexEncode buf)))"
proof -
  have "plainText (md5Hex x)" for x by (simp add: md5Hex_def hexEncode_plainText)
  moreover have "EqualFold ''MD5'' ''MD5''" "\<not> EqualFold ''MD5'' ''MD5-sess''" "EqualFold ''MD5-sess'' ''MD5-sess''"
    "\<not> EqualFold '''' ''MD5-sess''"
    by (simp_all add: EqualFold_def)
  ultimately show ?thesis
    using assms
    by (auto simp: plainAnswer_def buildDigestAuthorization_def randomHex_def answerParams_def Quote_plainText
        hexEncode_plainText nc_def rfcResponse_def rfcA1_def rfcKD_def Let_def)
qed

lemma answerParams_ok:
  assumes "plainAnswer ch uri user"
  shows "\<forall>p \<in> set (answerParams ch method uri user pass (hexEncode buf)). asciiStr p \<and> scanParam False p"
proof -
  have keys: "noQuote ''username=''" "noQuote '' realm=''" "noQuote '' nonce=''" "noQuote '' uri=''" "noQuote '' response=''"
      "noQuote '' opaque=''" "noQuote '' algorithm=''" "noQuote '' cnonce=''"
    by (simp_all add: noQuote_def)
  have r: "noQuote (rfcResponse ch method uri user pass (hexEncode buf))"
    by (simp add: rfcResponse_def rfcKD_def md5Hex_def Let_def plainText_noQuote hexEncode_plainText)
  have a: "token (algorithm ch)"
    using assms by (auto simp: plainAnswer_def token_def visible_def)
  have q: "qop ch \<noteq> [] \<Longrightarrow> asciiStr ('' qop='' @ qop ch) \<and> scanParam False ('' qop='' @ qop ch)"
    using assms by (auto simp: plainAnswer_def)
  show ?thesis
    using assms q r keys quoted_param [of user "''username=''"] quoted_param [of "realm ch" "'' realm=''"]
      quoted_param [of "nonce ch" "'' nonce=''"] quoted_param [of uri "'' uri=''"]
      quoted_param [of "rfcResponse ch method uri user pass (hexEncode buf)" "'' response=''"]
      quoted_param [of "opaque ch" "'' opaque=''"] token_param [OF a, of "'' algorithm=''"]
      quoted_param [of "hexEncode buf" "'' cnonce=''"] plainText_noQuote [OF hexEncode_plainText, of buf]
    by (simp add: answerParams_def plainAnswer_def plainText_noQuote)
qed

text \<open>C35. The answer to a challenge carries, in a form that reads back, the response RFC 2617 prescribes.
  For printable values without quotes and backslashes, the header is \<open>Digest\<close> followed by a list that
  splits into exactly the expected fields, the response being the request digest of the RFC for the
  plain and the session algorithm and with or without quality of protection.\<close>

theorem digest_answer_reads_back:
  assumes "plainAnswer ch uri user"
  shows "\<exists>list. buildDigestAuthorization isPrint (Inr buf) ch method uri user pass = Inr (''Digest '' @ list) \<and>
     splitAuthParams list = answerParams ch method uri user pass (hexEncode buf)"
proof (intro exI conjI)
  show "splitAuthParams (joinByte CHR '','' (answerParams ch method uri user pass (hexEncode buf))) =
      answerParams ch method uri user pass (hexEncode buf)"
    using answerParams_ok [OF assms] by (intro splitAuthLoop_all) (simp_all add: answerParams_def)
qed (rule build_eq_answer [OF assms])

theorem digest_answer_reads_back_witness:
  "\<exists>list. buildDigestAuthorization (\<lambda>r. True) (Inr [1, 2]) \<lparr>realm = ''r'', nonce = ''n'', opaque = '''', algorithm = ''MD5'', qop = ''auth''\<rparr> ''CONNECT'' ''h:443'' ''u'' ''p'' = Inr (''Digest '' @ list) \<and>
     splitAuthParams list = answerParams \<lparr>realm = ''r'', nonce = ''n'', opaque = '''', algorithm = ''MD5'', qop = ''auth''\<rparr> ''CONNECT'' ''h:443'' ''u'' ''p'' (hexEncode [1, 2])"
  by (rule digest_answer_reads_back) (simp add: plainAnswer_def plainText_def)


section \<open>No header injection\<close>

lemma digestParam_qop: "qop ch \<in> {'''', ''auth''} \<Longrightarrow> qop (digestParam p ch) \<in> {'''', ''auth''}"
  by (auto simp: digestParam_def setQop_def Let_def split: prod.splits)

lemma fold_digestParam_qop: "qop ch \<in> {'''', ''auth''} \<Longrightarrow> qop (fold digestParam ps ch) \<in> {'''', ''auth''}"
  using digestParam_qop by (induction ps arbitrary: ch) (simp_all del: insert_iff)

lemma lowerChar_plain: "plainChar (lowerChar x) \<Longrightarrow> plainChar x"
  by (auto simp: lowerChar_def plainChar_def Let_def split: if_splits)

lemma foldKey_plain: "list_all plainChar (foldKey s) \<Longrightarrow> list_all plainChar s"
proof (induction s rule: foldKey.induct)
  case (2 x xs)
  have lits: "plainChar (CHR 0xC5)" "plainChar (CHR 0xBF)" "plainChar (CHR 0xE2)" "plainChar (CHR 0x84)" "plainChar (CHR 0xAA)"
    by (simp_all add: plainChar_def)
  have split: "xs = take n xs @ drop n xs" for n by simp
  consider (s) "x = CHR 0xC5 \<and> take 1 xs = [CHR 0xBF]"
    | (k) "\<not> (x = CHR 0xC5 \<and> take 1 xs = [CHR 0xBF])" "x = CHR 0xE2 \<and> take 2 xs = [CHR 0x84, CHR 0xAA]"
    | (other) "\<not> (x = CHR 0xC5 \<and> take 1 xs = [CHR 0xBF])" "\<not> (x = CHR 0xE2 \<and> take 2 xs = [CHR 0x84, CHR 0xAA])"
    by blast
  then show ?case
  proof cases
    case s
    with 2 have "list_all plainChar (drop 1 xs)" by simp
    moreover have "list_all plainChar (take 1 xs)" "plainChar x" using s lits by simp_all
    ultimately show ?thesis using split [of 1] by (metis list_all_append list.pred_inject(2))
  next
    case k
    with 2 have "list_all plainChar (drop 2 xs)" by simp
    moreover have "list_all plainChar (take 2 xs)" "plainChar x" using k lits by simp_all
    ultimately show ?thesis using split [of 2] by (metis list_all_append list.pred_inject(2))
  next
    case other
    then have "foldKey (x # xs) = lowerChar x # foldKey xs" by auto
    with other 2 show ?thesis using lowerChar_plain by simp
  qed
qed simp

text \<open>C37. No upstream can make the answer break out of its header line: whatever bytes the challenge, the
  user name, the method and the URI contain, the header value has no control character, so no carriage
  return or line feed.\<close>

theorem digest_answer_single_line:
  assumes "parseDigestChallenge h = Some ch" "buildDigestAuthorization isPrint rand ch method uri user pass = Inr s"
  shows "list_all plainChar s \<and> CHR 0x0A \<notin> set s \<and> CHR 0x0D \<notin> set s"
proof -
  have "qop ch \<in> {'''', ''auth''}"
    using assms(1) fold_digestParam_qop [of zeroChallenge]
    by (auto simp: parseDigestChallenge_def zeroChallenge_def Let_def split: prod.splits if_splits)
  moreover have "list_all plainChar (foldKey ''MD5'')" "list_all plainChar (foldKey ''MD5-sess'')"
    by (simp_all add: lowerChar_def plainChar_def)
  then have alg: "algorithm ch = '''' \<or> list_all plainChar (algorithm ch)"
    using assms(2) foldKey_plain [of "algorithm ch"]
    by (auto simp: buildDigestAuthorization_def EqualFold_def Let_def split: if_splits)
  obtain cnonce rest where "s = ''Digest username='' @ Quote isPrint user @ '', realm='' @ Quote isPrint (realm ch) @ '', nonce='' @ Quote isPrint (nonce ch) @
      '', uri='' @ Quote isPrint uri @ '', response='' @ Quote isPrint rest @
      (if opaque ch \<noteq> '''' then '', opaque='' @ Quote isPrint (opaque ch) else '''') @
      (if algorithm ch \<noteq> '''' then '', algorithm='' @ algorithm ch else '''') @
      (if qop ch \<noteq> '''' then '', qop='' @ qop ch @ '', nc='' @ nc @ '', cnonce='' @ Quote isPrint cnonce else '''')"
    using assms(2) by (auto simp: buildDigestAuthorization_def Let_def split: if_splits sum.splits)
  moreover have "list_all plainChar ''Digest username=''" "list_all plainChar '', realm=''" "list_all plainChar '', nonce=''"
      "list_all plainChar '', uri=''" "list_all plainChar '', response=''" "list_all plainChar '', opaque=''"
      "list_all plainChar '', algorithm=''" "list_all plainChar '', qop=''" "list_all plainChar '', nc=''"
      "list_all plainChar '', cnonce=''" "list_all plainChar nc" "list_all plainChar ''auth''"
    by (simp_all add: plainChar_def nc_def)
  ultimately have "list_all plainChar s"
    using alg by (auto simp only: Quote_plain list_all_append split: if_splits) (simp_all add: Quote_plain)
  then show ?thesis
    using plainChar_not_newline by (auto simp: list_all_iff)
qed

theorem digest_answer_single_line_witness:
  "\<exists>s. buildDigestAuthorization (\<lambda>r. True) (Inr []) \<lparr>realm = [CHR 0x0A], nonce = ''n'', opaque = '''', algorithm = '''', qop = ''''\<rparr> ''GET'' ''/'' ''u'' ''p'' = Inr s \<and>
     CHR 0x0A \<notin> set s"
proof -
  let ?ch = "\<lparr>realm = [CHR 0x0A], nonce = ''n'', opaque = '''', algorithm = '''', qop = ''''\<rparr>"
  have p: "parseDigestChallenge (challengeText ?ch) = Some ?ch"
    by (rule parse_challengeText) (simp add: goodChallenge_def noQuote_def token_def)
  obtain s where s: "buildDigestAuthorization (\<lambda>r. True) (Inr []) ?ch ''GET'' ''/'' ''u'' ''p'' = Inr s"
    by (simp add: buildDigestAuthorization_def randomHex_def EqualFold_def Let_def)
  from digest_answer_single_line [OF p s] s show ?thesis by blast
qed

text \<open>Quoted pairs are not understood: in a realm that a server writes with an escaped quote, the
  escaped quote ends the quoted string, the rest of the challenge is taken for part of the realm, and
  the challenge is rejected for lack of a nonce.\<close>

theorem digest_quoted_pair_rejected:
  "parseDigestChallenge (''Digest realm='' @ [DQ, CHR ''a'', BS, DQ, CHR ''b'', DQ] @ '', nonce=n'') = None"
proof -
  let ?v = "[DQ, CHR ''a'', BS, DQ, CHR ''b'', DQ] @ '', nonce=n''"
  have t: "TrimSpace (''Digest realm='' @ ?v) = ''Digest realm='' @ ?v"
    by (rule TrimSpace_id) (simp_all add: DQ_def BS_def)
  have c: "Cut (''Digest realm='' @ ?v) CHR '' '' = (''Digest'', ''realm='' @ ?v, True)"
    using Cut_append [of "CHR '' ''" "''Digest''" "''realm='' @ ?v"] by simp
  have s: "splitAuthParams (''realm='' @ ?v) = [''realm='' @ ?v]"
    by (simp add: splitAuthParams_def splitAuthLoop_ascii DQ_def BS_def)
  have "digestParam (''realm='' @ ?v) zeroChallenge = zeroChallenge\<lparr>realm := trimBytes {CHR 0x22} (TrimSpace ?v)\<rparr>"
    using digestParam_eq [of "''realm''" ?v zeroChallenge] by (simp add: param_keys lowerChar_def)
  then have "nonce (fold digestParam (splitAuthParams (''realm='' @ ?v)) zeroChallenge) = ''''"
    unfolding s by (simp add: zeroChallenge_def)
  then show ?thesis
    unfolding parseDigestChallenge_def t c by simp
qed

end
