(* ===== verification/Http_Upstream.thy ===== *)
theory Http_Upstream
  imports Config_Types Digest_Props Logx
begin

text \<open>
  The client side of the HTTP proxy (\<open>internal/proxy/http.go\<close>): \<open>connectAttempt\<close>,
  \<open>dialUpstreamConnect\<close>, \<open>bufferedConn\<close> and the authenticating transport. The package
  \<open>net/http\<close> is an argument: \<open>encode\<close> is what \<open>Request.Write\<close> puts on the wire for a request (or its
  error), \<open>decode\<close> is \<open>http.ReadResponse\<close> followed by closing the response's body, on the bytes of the
  stream (the response or an error, and the bytes after it). \<open>dial i\<close> is the \<open>i\<close>-th dial, \<open>ahead\<close> the
  number of bytes the \<open>bufio.Reader\<close> has fetched beyond the response, and \<open>rand\<close> the result of
  \<open>rand.Read\<close>.
\<close>

section \<open>Headers, requests and responses\<close>

text \<open>\<open>http.Header\<close>, with keys in canonical form.\<close>

type_synonym header = "string \<Rightarrow> string list option"

definition header_Del :: "string \<Rightarrow> header \<Rightarrow> header" where
  "header_Del k h = h(k := None)"

definition header_Set :: "string \<Rightarrow> string \<Rightarrow> header \<Rightarrow> header" where
  "header_Set k v h = h(k \<mapsto> [v])"

definition header_Values :: "string \<Rightarrow> header \<Rightarrow> string list" where
  "header_Values k h = (case h k of None \<Rightarrow> [] | Some vs \<Rightarrow> vs)"

definition header_Add :: "string \<Rightarrow> string \<Rightarrow> header \<Rightarrow> header" where
  "header_Add k v h = h(k \<mapsto> header_Values k h @ [v])"

text \<open>A body is absent (nil or \<open>NoBody\<close>) or what reading it to the end gives.\<close>

record http_request =
  req_Method :: string
  req_URL :: string
  req_abs :: bool
  req_Host :: string
  req_RequestURI :: string
  req_RemoteAddr :: string
  req_Header :: header
  req_Body :: "(io_error + byte list) option"

record http_response =
  res_StatusCode :: nat
  res_Status :: string
  res_Header :: header
  res_Body :: reads

definition StatusOK :: nat where "StatusOK = 200"
definition StatusProxyAuthRequired :: nat where "StatusProxyAuthRequired = 407"

datatype connect_error =
    DialProxy string io_error
  | WriteConnect string io_error
  | ReadConnect string io_error
  | ConnectRefused string string string
  | ConnectDigest string digest_error

section \<open>One CONNECT attempt\<close>

record bufferedConn =
  bc_conn :: conn
  bc_r :: "byte list"

text \<open>What reading a \<open>bufferedConn\<close> gives, first the bytes of the reader, then those of the connection.\<close>

definition bc_stream :: "bufferedConn \<Rightarrow> byte list" where
  "bc_stream b = bc_r b @ rd_data (bc_conn b)"

definition bc_Read :: "nat \<Rightarrow> bufferedConn \<Rightarrow> byte list \<times> bufferedConn" where
  "bc_Read n b =
     (if bc_r b \<noteq> [] then (take n (bc_r b), b\<lparr>bc_r := drop n (bc_r b)\<rparr>)
      else (take n (rd_data (bc_conn b)), b\<lparr>bc_conn := (bc_conn b)\<lparr>rd_data := drop n (rd_data (bc_conn b))\<rparr>\<rparr>))"

definition connectRequest :: "string \<Rightarrow> string \<Rightarrow> http_request" where
  "connectRequest targetHost authHeader =
     (let req = \<lparr>req_Method = ''CONNECT'', req_URL = targetHost, req_abs = False, req_Host = targetHost,
                 req_RequestURI = '''', req_RemoteAddr = '''', req_Header = (\<lambda>_. None), req_Body = None\<rparr>
      in if authHeader \<noteq> '''' then req\<lparr>req_Header := header_Set ''Proxy-Authorization'' authHeader (req_Header req)\<rparr> else req)"

text \<open>The result, and the connection as the attempt leaves it when it has opened one.\<close>

definition connectAttempt ::
    "(http_request \<Rightarrow> io_error + byte list) \<Rightarrow> (byte list \<Rightarrow> (io_error + http_response) \<times> byte list) \<Rightarrow> nat
     \<Rightarrow> (string \<Rightarrow> (io_error, conn) result) \<Rightarrow> string \<Rightarrow> string \<Rightarrow> string
     \<Rightarrow> (connect_error, bufferedConn \<times> http_response) result \<times> conn option" where
  "connectAttempt encode decode ahead dial upstream targetHost authHeader =
     (case dial upstream of
        Inl e \<Rightarrow> (Inl (DialProxy upstream e), None)
      | Inr c \<Rightarrow>
          (case encode (connectRequest targetHost authHeader) of
             Inl e \<Rightarrow> (Inl (WriteConnect upstream e), Some (conn_close c))
           | Inr bs \<Rightarrow>
               (case conn_write c bs of
                  (_, Some e, c1) \<Rightarrow> (Inl (WriteConnect upstream e), Some (conn_close c1))
                | (_, None, c1) \<Rightarrow>
                    (case decode (rd_data c1) of
                       (Inl e, _) \<Rightarrow> (Inl (ReadConnect upstream e), Some (conn_close c1))
                     | (Inr resp, rest) \<Rightarrow>
                         let c2 = c1\<lparr>rd_data := drop ahead rest\<rparr>
                         in (Inr (\<lparr>bc_conn = c2, bc_r = take ahead rest\<rparr>, resp), Some c2)))))"

section \<open>The tunnel through an upstream proxy\<close>

definition basicAuth :: "ForwardAuthConfig \<Rightarrow> string" where
  "basicAuth auth = ''Basic '' @ base64Encode (bytesOf (User auth @ '':'' @ Pass auth))"

text \<open>The result, and the connections opened, as they are left.\<close>

definition dialUpstreamConnect ::
    "(nat \<Rightarrow> bool) \<Rightarrow> (io_error + byte list) \<Rightarrow> (http_request \<Rightarrow> io_error + byte list)
     \<Rightarrow> (byte list \<Rightarrow> (io_error + http_response) \<times> byte list) \<Rightarrow> nat \<Rightarrow> (nat \<Rightarrow> string \<Rightarrow> (io_error, conn) result)
     \<Rightarrow> string \<Rightarrow> string \<Rightarrow> ForwardAuthConfig
     \<Rightarrow> (connect_error, bufferedConn) result \<times> conn list" where
  "dialUpstreamConnect isPrint rand encode decode ahead dial upstream targetHost auth =
     (let authHeader = (if User auth \<noteq> '''' then basicAuth auth else '''') in
      case connectAttempt encode decode ahead (dial 0) upstream targetHost authHeader of
        (Inl e, opened) \<Rightarrow> (Inl e, case opened of None \<Rightarrow> [] | Some c \<Rightarrow> [c])
      | (Inr (conn, resp), _) \<Rightarrow>
          if res_StatusCode resp = StatusOK then (Inr conn, [bc_conn conn])
          else
            (let c1 = conn_close (bc_conn conn) in
             if res_StatusCode resp \<noteq> StatusProxyAuthRequired \<or> User auth = ''''
             then (Inl (ConnectRefused upstream targetHost (res_Status resp)), [c1])
             else
               (case findDigestChallenge (header_Values ''Proxy-Authenticate'' (res_Header resp)) of
                  None \<Rightarrow> (Inl (ConnectRefused upstream targetHost (res_Status resp)), [c1])
                | Some ch \<Rightarrow>
                    (case buildDigestAuthorization isPrint rand ch ''CONNECT'' targetHost (User auth) (Pass auth) of
                       Inl e \<Rightarrow> (Inl (ConnectDigest upstream e), [c1])
                     | Inr digestHeader \<Rightarrow>
                         (case connectAttempt encode decode ahead (dial 1) upstream targetHost digestHeader of
                            (Inl e, opened) \<Rightarrow> (Inl e, c1 # (case opened of None \<Rightarrow> [] | Some c \<Rightarrow> [c]))
                          | (Inr (conn2, resp2), _) \<Rightarrow>
                              if res_StatusCode resp2 \<noteq> StatusOK
                              then (Inl (ConnectRefused upstream targetHost (res_Status resp2)),
                                    [c1, conn_close (bc_conn conn2)])
                              else (Inr conn2, [c1, bc_conn conn2]))))))"

section \<open>The authenticating transport\<close>

datatype roundtrip_error = ReadBody io_error | Transport io_error | AuthDigest digest_error

text \<open>\<open>cloneWithBody\<close>: the request again, with a fresh reader over the bytes of its body.\<close>

definition cloneWithBody :: "http_request \<Rightarrow> byte list option \<Rightarrow> http_request" where
  "cloneWithBody req bodyBytes =
     (case bodyBytes of None \<Rightarrow> req | Some bs \<Rightarrow> req\<lparr>req_Body := Some (Inr bs)\<rparr>)"

text \<open>\<open>inner i\<close> is the \<open>i\<close>-th round trip of the inner transport. The result, and the requests sent.\<close>

definition RoundTrip ::
    "(nat \<Rightarrow> bool) \<Rightarrow> (io_error + byte list) \<Rightarrow> (nat \<Rightarrow> http_request \<Rightarrow> (io_error, http_response) result)
     \<Rightarrow> ForwardAuthConfig \<Rightarrow> http_request \<Rightarrow> (roundtrip_error, http_response) result \<times> http_request list" where
  "RoundTrip isPrint rand inner auth req =
     (case (case req_Body req of None \<Rightarrow> Inr None | Some (Inl e) \<Rightarrow> Inl e | Some (Inr bs) \<Rightarrow> Inr (Some bs)) of
        Inl e \<Rightarrow> (Inl (ReadBody e), [])
      | Inr bodyBytes \<Rightarrow>
          let clone = cloneWithBody req bodyBytes;
              req1 = clone\<lparr>req_Header := header_Set ''Proxy-Authorization'' (basicAuth auth) (req_Header clone)\<rparr>
          in (case inner 0 req1 of
                Inl e \<Rightarrow> (Inl (Transport e), [req1])
              | Inr resp \<Rightarrow>
                  if res_StatusCode resp \<noteq> StatusProxyAuthRequired then (Inr resp, [req1])
                  else
                    (case findDigestChallenge (header_Values ''Proxy-Authenticate'' (res_Header resp)) of
                       None \<Rightarrow> (Inr resp, [req1])
                     | Some ch \<Rightarrow>
                         (case buildDigestAuthorization isPrint rand ch (req_Method req) (req_URL req) (User auth) (Pass auth) of
                            Inl e \<Rightarrow> (Inl (AuthDigest e), [req1])
                          | Inr digestHeader \<Rightarrow>
                              let req2 = clone\<lparr>req_Header := header_Set ''Proxy-Authorization'' digestHeader (req_Header clone)\<rparr>
                              in (map_sum Transport id (inner 1 req2), [req1, req2])))))"

section \<open>Properties\<close>

lemma connectAttempt_Inr:
  assumes "connectAttempt encode decode ahead dial upstream targetHost h = (Inr (b, resp), opened)"
  obtains c bs where "dial upstream = Inr c" "encode (connectRequest targetHost h) = Inr bs"
    "wr_log (bc_conn b) = wr_log c @ bs" "decode (rd_data c) = (Inr resp, bc_stream b)"
    "closed (bc_conn b) = closed c" "\<not> closed c" "opened = Some (bc_conn b)"
proof -
  obtain c bs c1 n rest where c: "dial upstream = Inr c" "encode (connectRequest targetHost h) = Inr bs"
      "conn_write c bs = (n, None, c1)" "decode (rd_data c1) = (Inr resp, rest)"
      "b = \<lparr>bc_conn = c1\<lparr>rd_data := drop ahead rest\<rparr>, bc_r = take ahead rest\<rparr>" "opened = Some (bc_conn b)"
    using assms by (auto simp: connectAttempt_def Let_def split: sum.splits prod.splits option.splits)
  moreover from c(3) have "wr_log c1 = wr_log c @ bs" "rd_data c1 = rd_data c" "closed c1 = closed c" "\<not> closed c"
    by (auto simp: conn_write_def split: if_splits option.splits)
  ultimately show thesis
    using that by (simp add: bc_stream_def)
qed

lemma connectAttempt_Inl:
  "connectAttempt encode decode ahead dial upstream targetHost h = (Inl e, opened) \<Longrightarrow> (case opened of None \<Rightarrow> True | Some c \<Rightarrow> closed c)"
  by (auto simp: connectAttempt_def Let_def conn_close_def split: sum.splits prod.splits option.splits)

lemma closed_conn_close [simp]: "closed (conn_close c)"
  by (simp add: conn_close_def)

text \<open>How a call of \<open>dialUpstreamConnect\<close> can go: which attempts were made and how they ended.\<close>

lemma dialUpstreamConnect_cases:
  assumes "dialUpstreamConnect isPrint rand encode decode ahead dial upstream targetHost auth = (r, opened)"
  obtains (error) e cs where "r = Inl e" "opened = cs" "\<forall>c \<in> set cs. closed c" "length cs \<le> 2"
    | (first) b resp o1 where "r = Inr b" "opened = [bc_conn b]"
        "connectAttempt encode decode ahead (dial 0) upstream targetHost (if User auth \<noteq> '''' then basicAuth auth else '''') = (Inr (b, resp), o1)"
        "res_StatusCode resp = StatusOK"
    | (second) b1 resp1 o1 b resp o2 ch h c1 where "r = Inr b" "opened = [c1, bc_conn b]" "closed c1" "User auth \<noteq> ''''"
        "connectAttempt encode decode ahead (dial 0) upstream targetHost (basicAuth auth) = (Inr (b1, resp1), o1)"
        "res_StatusCode resp1 = StatusProxyAuthRequired"
        "findDigestChallenge (header_Values ''Proxy-Authenticate'' (res_Header resp1)) = Some ch"
        "buildDigestAuthorization isPrint rand ch ''CONNECT'' targetHost (User auth) (Pass auth) = Inr h"
        "connectAttempt encode decode ahead (dial 1) upstream targetHost h = (Inr (b, resp), o2)"
        "res_StatusCode resp = StatusOK"
  using assms unfolding dialUpstreamConnect_def Let_def
  by (auto split: sum.splits prod.splits option.splits if_splits dest!: connectAttempt_Inl)

lemma dialUpstreamConnect_closed:
  assumes "dialUpstreamConnect isPrint rand encode decode ahead dial upstream targetHost auth = (r, opened)"
  shows "length opened \<le> 2 \<and>
    (case r of Inl e \<Rightarrow> \<forall>c \<in> set opened. closed c
     | Inr b \<Rightarrow> opened \<noteq> [] \<and> last opened = bc_conn b \<and> \<not> closed (bc_conn b) \<and> (\<forall>c \<in> set (butlast opened). closed c))"
  using assms
proof (cases rule: dialUpstreamConnect_cases)
  case first
  then show ?thesis by (auto elim: connectAttempt_Inr)
next
  case second
  then show ?thesis by (auto elim: connectAttempt_Inr)
qed simp

text \<open>C19. \<open>dialUpstreamConnect\<close> never leaks a connection and never tries more than twice: it opens at most
  two connections, on an error all of them are closed, and on success all but the returned one, which is
  open.\<close>

theorem dialUpstreamConnect_no_leak:
  assumes "dialUpstreamConnect isPrint rand encode decode ahead dial upstream targetHost auth = (r, opened)"
  shows "length opened \<le> 2 \<and>
    (case r of Inl e \<Rightarrow> \<forall>c \<in> set opened. closed c
     | Inr b \<Rightarrow> opened \<noteq> [] \<and> last opened = bc_conn b \<and> \<not> closed (bc_conn b) \<and> (\<forall>c \<in> set (butlast opened). closed c))"
  using assms by (rule dialUpstreamConnect_closed)

text \<open>A proxy that answers every request with a status, and the payload after one byte of response.\<close>

definition demoProxy :: "nat \<Rightarrow> byte list \<Rightarrow> (io_error + http_response) \<times> byte list" where
  "demoProxy code d = (Inr \<lparr>res_StatusCode = code, res_Status = '''', res_Header = (\<lambda>_. None), res_Body = []\<rparr>, drop 1 d)"

theorem dialUpstreamConnect_no_leak_witness:
  "list_all closed (snd (dialUpstreamConnect (\<lambda>r. True) (Inr []) (\<lambda>q. Inr [1]) (demoProxy 502) 0 (\<lambda>i u. Inr (peer [0, 42])) ''up:3128'' ''h:443'' zeroForwardAuth))"
proof -
  obtain opened where d: "dialUpstreamConnect (\<lambda>r. True) (Inr []) (\<lambda>q. Inr [1]) (demoProxy 502) 0 (\<lambda>i u. Inr (peer [0, 42])) ''up:3128'' ''h:443'' zeroForwardAuth
      = (Inl (ConnectRefused ''up:3128'' ''h:443'' ''''), opened)"
    by (auto simp: dialUpstreamConnect_def connectAttempt_def Let_def demoProxy_def zeroForwardAuth_def conn_write_def peer_def
        StatusOK_def StatusProxyAuthRequired_def)
  from dialUpstreamConnect_no_leak [OF d] d show ?thesis by (simp add: list_all_iff)
qed

text \<open>C20. A tunnel is returned only after a 200, and no byte of it is lost: the response was read from what
  the upstream sent, and the returned connection delivers exactly the bytes after it, those the buffered
  reader had fetched included. The request presented no credentials when none are configured, Basic
  credentials on the first attempt, and on the second the Digest answer to the challenge of a 407.\<close>

theorem dialUpstreamConnect_success:
  assumes "dialUpstreamConnect isPrint rand encode decode ahead dial upstream targetHost auth = (Inr b, opened)"
  shows "\<exists>i h c bs resp. dial i upstream = Inr c \<and> encode (connectRequest targetHost h) = Inr bs \<and>
     wr_log (bc_conn b) = wr_log c @ bs \<and> decode (rd_data c) = (Inr resp, bc_stream b) \<and> res_StatusCode resp = 200 \<and>
     (User auth = '''' \<longrightarrow> i = 0 \<and> h = '''') \<and>
     (User auth \<noteq> '''' \<longrightarrow> (i = 0 \<and> h = basicAuth auth) \<or>
        (i = 1 \<and> (\<exists>c0 resp0 rest0 ch. dial 0 upstream = Inr c0 \<and> decode (rd_data c0) = (Inr resp0, rest0) \<and>
           res_StatusCode resp0 = 407 \<and>
           findDigestChallenge (header_Values ''Proxy-Authenticate'' (res_Header resp0)) = Some ch \<and>
           buildDigestAuthorization isPrint rand ch ''CONNECT'' targetHost (User auth) (Pass auth) = Inr h)))"
  using assms
proof (cases rule: dialUpstreamConnect_cases)
  case (first b' resp o1)
  from first(3) show ?thesis
  proof (rule connectAttempt_Inr)
    let ?h = "if User auth \<noteq> [] then basicAuth auth else []"
    fix c bs
    assume "dial 0 upstream = Inr c" "encode (connectRequest targetHost ?h) = Inr bs"
      "wr_log (bc_conn b') = wr_log c @ bs" "decode (rd_data c) = (Inr resp, bc_stream b')"
    with first show ?thesis
      by (intro exI [of _ 0] exI [of _ ?h] exI [of _ c] exI [of _ bs] exI [of _ resp]) (auto simp: StatusOK_def)
  qed
next
  case (second b1 resp1 o1 b' resp o2 ch h c1)
  from second(5) obtain c0 where c0: "dial 0 upstream = Inr c0" "decode (rd_data c0) = (Inr resp1, bc_stream b1)"
    by (rule connectAttempt_Inr)
  from second(9) show ?thesis
  proof (rule connectAttempt_Inr)
    fix c bs
    assume "dial 1 upstream = Inr c" "encode (connectRequest targetHost h) = Inr bs"
      "wr_log (bc_conn b') = wr_log c @ bs" "decode (rd_data c) = (Inr resp, bc_stream b')"
    with second c0 show ?thesis
      by (intro exI [of _ 1] exI [of _ h] exI [of _ c] exI [of _ bs] exI [of _ resp])
        (auto simp: StatusOK_def StatusProxyAuthRequired_def)
  qed
qed simp

theorem dialUpstreamConnect_success_witness:
  "\<exists>b opened. dialUpstreamConnect (\<lambda>r. True) (Inr []) (\<lambda>q. Inr [1]) (demoProxy 200) 1 (\<lambda>i u. Inr (peer [0, 42, 43])) ''up:3128'' ''h:443'' zeroForwardAuth
      = (Inr b, opened) \<and> bc_stream b = [42, 43] \<and> bc_r b = [42]"
proof -
  obtain b opened where d: "dialUpstreamConnect (\<lambda>r. True) (Inr []) (\<lambda>q. Inr [1]) (demoProxy 200) 1 (\<lambda>i u. Inr (peer [0, 42, 43])) ''up:3128'' ''h:443'' zeroForwardAuth
      = (Inr b, opened)" "bc_r b = [42]"
    by (auto simp: dialUpstreamConnect_def connectAttempt_def Let_def demoProxy_def zeroForwardAuth_def conn_write_def peer_def StatusOK_def)
  from dialUpstreamConnect_success [OF d(1)] d show ?thesis
    by (auto simp: demoProxy_def)
qed

text \<open>Reading a \<open>bufferedConn\<close> serves the stream in order: what a read returns is the front of the
  stream, and what is left is the rest of it.\<close>

theorem bufferedConn_stream:
  "fst (bc_Read n b) @ bc_stream (snd (bc_Read n b)) = bc_stream b"
  by (simp add: bc_Read_def bc_stream_def)

lemma RoundTrip_authorizes:
  assumes "RoundTrip isPrint rand inner auth req = (r, sent)" "q \<in> set sent"
  shows "req_Header q ''Proxy-Authorization'' = Some [basicAuth auth] \<or>
    (\<exists>ch h. req_Header q ''Proxy-Authorization'' = Some [h] \<and>
       buildDigestAuthorization isPrint rand ch (req_Method req) (req_URL req) (User auth) (Pass auth) = Inr h)"
  using assms unfolding RoundTrip_def Let_def
  by (auto simp: header_Set_def split: option.splits sum.splits if_splits)

text \<open>C21. The authenticating transport sends at most two requests, and they are the caller's request: same
  method, URL and host, the whole body in both, and all headers but \<open>Proxy-Authorization\<close>. The second
  is sent only after a 407 with a Digest challenge, and its answer is then the one returned.\<close>

theorem RoundTrip_replays:
  assumes "RoundTrip isPrint rand inner auth req = (r, sent)"
  shows "length sent \<le> 2 \<and>
    (\<forall>q \<in> set sent. req_Method q = req_Method req \<and> req_URL q = req_URL req \<and> req_Host q = req_Host req \<and>
       req_Body q = req_Body req \<and> (\<forall>k. k \<noteq> ''Proxy-Authorization'' \<longrightarrow> req_Header q k = req_Header req k)) \<and>
    (\<forall>q. sent = [q] \<longrightarrow> req_Header q ''Proxy-Authorization'' = Some [basicAuth auth]) \<and>
    (\<forall>q1 q2. sent = [q1, q2] \<longrightarrow>
       (\<exists>resp ch h. inner 0 q1 = Inr resp \<and> res_StatusCode resp = 407 \<and>
          findDigestChallenge (header_Values ''Proxy-Authenticate'' (res_Header resp)) = Some ch \<and>
          buildDigestAuthorization isPrint rand ch (req_Method req) (req_URL req) (User auth) (Pass auth) = Inr h \<and>
          req_Header q2 ''Proxy-Authorization'' = Some [h] \<and> r = map_sum Transport id (inner 1 q2)))"
proof -
  have clone: "req_Body (cloneWithBody req bb) = req_Body req" "req_Header (cloneWithBody req bb) = req_Header req"
      "req_Method (cloneWithBody req bb) = req_Method req" "req_URL (cloneWithBody req bb) = req_URL req"
      "req_Host (cloneWithBody req bb) = req_Host req"
    if "bb = None \<and> req_Body req = None \<or> (\<exists>bs. bb = Some bs \<and> req_Body req = Some (Inr bs))" for bb
    using that by (auto simp: cloneWithBody_def)
  show ?thesis
    using assms unfolding RoundTrip_def Let_def
    by (auto simp: clone header_Set_def StatusProxyAuthRequired_def split: option.splits sum.splits if_splits)
qed


theorem RoundTrip_replays_witness:
  "\<exists>q. snd (RoundTrip (\<lambda>r. True) (Inr []) (\<lambda>i q. fst (demoProxy 200 [])) \<lparr>User = ''u'', Pass = ''p''\<rparr>
       \<lparr>req_Method = ''PUT'', req_URL = ''http://h/'', req_abs = True, req_Host = ''h'', req_RequestURI = '''', req_RemoteAddr = '''', req_Header = (\<lambda>_. None), req_Body = Some (Inr [1, 2])\<rparr>) = [q] \<and>
     req_Body q = Some (Inr [1, 2])"
proof -
  let ?req = "\<lparr>req_Method = ''PUT'', req_URL = ''http://h/'', req_abs = True, req_Host = ''h'', req_RequestURI = '''', req_RemoteAddr = '''', req_Header = (\<lambda>_. None), req_Body = Some (Inr [1, 2])\<rparr>"
  obtain r q where e: "RoundTrip (\<lambda>r. True) (Inr []) (\<lambda>i q. fst (demoProxy 200 [])) \<lparr>User = ''u'', Pass = ''p''\<rparr> ?req = (r, [q])"
    by (auto simp: RoundTrip_def demoProxy_def Let_def StatusProxyAuthRequired_def)
  from RoundTrip_replays [OF e] e show ?thesis by simp
qed

end
