(* ===== verification/Proxy_Base.thy ===== *)
theory Proxy_Base
  imports Pipe Socks_Props Http_Upstream
begin

text \<open>
  What the servers of the program share: the environment they run in, the accept loop, the choice of
  a backend, and the sessions their handlers leave behind. The environment holds what is not under the
  program's control: the dials, the clock, the randomness, how the kernel cuts a stream into reads, and
  the parts of \<open>net/http\<close> that \<open>dialUpstreamConnect\<close> calls.
\<close>

record net_env =
  e_isPrint :: "nat \<Rightarrow> bool"
  e_rand :: "io_error + byte list"
  e_encode :: "http_request \<Rightarrow> io_error + byte list"
  e_decode :: "byte list \<Rightarrow> (io_error + http_response) \<times> byte list"
  e_ahead :: nat
  e_dial :: "nat \<Rightarrow> string \<Rightarrow> (io_error, conn) result"
  e_now :: int
  e_elapsed :: string
  e_chop :: "byte list \<Rightarrow> byte list list"
  e_hc :: bool

text \<open>The reads of a connection: its stream cut into chunks, then how reading ends.\<close>

definition readsOf :: "net_env \<Rightarrow> conn \<Rightarrow> reads" where
  "readsOf env c = map (\<lambda>b. (b, None)) (e_chop env (rd_data c)) @ [([], Some (rd_err c))]"

definition fairChop :: "net_env \<Rightarrow> bool" where
  "fairChop env \<longleftrightarrow> (\<forall>d. concat (e_chop env d) = d)"

section \<open>Accepting\<close>

text \<open>What \<open>ln.Accept()\<close> gives: a connection with its peer's address, or an error, with whether the
  context was cancelled by then.\<close>

datatype accept = Accepted string conn | AcceptFailed io_error bool

text \<open>The accept loop of \<open>serveTCP\<close>, \<open>serveUDPDTLS\<close> and \<open>RunSOCKS\<close>: every accepted connection gets a
  goroutine with \<open>handle\<close>; an error ends the loop, and is returned unless the context was cancelled.
  The result is none while \<open>Accept\<close> blocks.\<close>

fun acceptLoop :: "(string \<Rightarrow> conn \<Rightarrow> 'h) \<Rightarrow> accept list \<Rightarrow> 'h list \<times> io_error option option" where
  "acceptLoop handle [] = ([], None)"
| "acceptLoop handle (Accepted remote c # as) =
     (case acceptLoop handle as of (hs, r) \<Rightarrow> (handle remote c # hs, r))"
| "acceptLoop handle (AcceptFailed e ctxDone # as) = ([], Some (if ctxDone then None else Some e))"

abbreviation accepts :: "(string \<times> conn) list \<Rightarrow> accept list" where
  "accepts cs \<equiv> map (\<lambda>(a, c). Accepted a c) cs"

lemma acceptLoop_blocked: "acceptLoop handle (accepts cs) = (map (\<lambda>(a, c). handle a c) cs, None)"
  by (induction cs) auto

lemma acceptLoop_failed:
  "acceptLoop handle (accepts cs @ AcceptFailed e d # as) = (map (\<lambda>(a, c). handle a c) cs, Some (if d then None else Some e))"
  by (induction cs) auto

lemma accepts_cases:
  obtains (blocked) cs where "as = accepts cs" | (failed) cs e d as' where "as = accepts cs @ AcceptFailed e d # as'"
proof (induction as arbitrary: thesis)
  case Nil
  then show ?case by (metis list.map(1))
next
  case (Cons x as)
  show ?case
  proof (cases x)
    case (Accepted a c)
    show ?thesis
    proof (rule Cons.IH)
      fix cs assume "as = accepts cs"
      then have "x # as = accepts ((a, c) # cs)" using Accepted by simp
      then show thesis by (rule Cons.prems(1))
    next
      fix cs e d as' assume "as = accepts cs @ AcceptFailed e d # as'"
      then have "x # as = accepts ((a, c) # cs) @ AcceptFailed e d # as'" using Accepted by simp
      then show thesis by (rule Cons.prems(2))
    qed
  next
    case (AcceptFailed e d)
    then have "x # as = accepts [] @ AcceptFailed e d # as" by simp
    then show ?thesis by (rule Cons.prems(2))
  qed
qed

section \<open>Backends\<close>

datatype proxy_error = Direct io_error | ViaSOCKS upstream_error | ViaHTTP connect_error

text \<open>A dialed backend: the connection, whether it can be half-closed (a \<open>bufferedConn\<close> cannot: the
  interface it embeds has no \<open>CloseWrite\<close>), and the other connections opened on the way.\<close>

type_synonym dialed = "(proxy_error, conn \<times> bool) result \<times> conn list"

definition dialDirect :: "net_env \<Rightarrow> string \<Rightarrow> dialed" where
  "dialDirect env target =
     (case e_dial env 0 target of Inl e \<Rightarrow> (Inl (Direct e), []) | Inr c \<Rightarrow> (Inr (c, True), []))"

definition dialSOCKS :: "net_env \<Rightarrow> string \<Rightarrow> string \<Rightarrow> ForwardAuthConfig \<Rightarrow> dialed" where
  "dialSOCKS env upstream target auth =
     (case dialUpstreamSOCKS (e_dial env 0) (e_now env) upstream target auth of
        (Inl e, opened) \<Rightarrow> (Inl (ViaSOCKS e), case opened of None \<Rightarrow> [] | Some c \<Rightarrow> [c])
      | (Inr c, _) \<Rightarrow> (Inr (c, True), []))"

definition dialHTTP :: "net_env \<Rightarrow> string \<Rightarrow> string \<Rightarrow> ForwardAuthConfig \<Rightarrow> dialed" where
  "dialHTTP env upstream target auth =
     (case dialUpstreamConnect (e_isPrint env) (e_rand env) (e_encode env) (e_decode env) (e_ahead env) (e_dial env)
         upstream target auth of
        (Inl e, opened) \<Rightarrow> (Inl (ViaHTTP e), opened)
      | (Inr b, opened) \<Rightarrow> (Inr ((bc_conn b)\<lparr>rd_data := bc_stream b\<rparr>, False), butlast opened))"

text \<open>The switches of \<open>handleSOCKSConn\<close> and of \<open>handleConnect\<close>.\<close>

definition socksBackend :: "net_env \<Rightarrow> string \<Rightarrow> mode \<Rightarrow> ForwardAuthConfig \<Rightarrow> string \<Rightarrow> dialed" where
  "socksBackend env upstream backendKind auth target =
     (if upstream = '''' then dialDirect env target
      else if backendKind = ModeHTTPProxy then dialHTTP env upstream target auth
      else dialSOCKS env upstream target auth)"

definition connectBackend :: "net_env \<Rightarrow> string \<Rightarrow> mode \<Rightarrow> ForwardAuthConfig \<Rightarrow> string \<Rightarrow> dialed" where
  "connectBackend env upstream backendKind auth target =
     (if upstream = '''' then dialDirect env target
      else if backendKind = ModeSOCKSProxy then dialSOCKS env upstream target auth
      else dialHTTP env upstream target auth)"

text \<open>What the dials of the environment give is open.\<close>

definition freshDials :: "net_env \<Rightarrow> bool" where
  "freshDials env \<longleftrightarrow> (\<forall>i a c. e_dial env i a = Inr c \<longrightarrow> \<not> closed c)"

definition dialedOk :: "dialed \<Rightarrow> bool" where
  "dialedOk d \<longleftrightarrow> (\<forall>c \<in> set (snd d). closed c) \<and> (\<forall>c hc. fst d = Inr (c, hc) \<longrightarrow> \<not> closed c)"

lemma dialDirect_ok: "freshDials env \<Longrightarrow> dialedOk (dialDirect env target)"
  by (auto simp: dialedOk_def dialDirect_def freshDials_def split: sum.splits)

lemma dialSOCKS_ok:
  assumes "freshDials env"
  shows "dialedOk (dialSOCKS env upstream target auth)"
proof (cases "e_dial env 0 upstream")
  case (Inl e)
  then show ?thesis by (simp add: dialedOk_def dialSOCKS_def dialUpstreamSOCKS_def)
next
  case (Inr c0)
  with assms have "\<not> closed c0" by (auto simp: freshDials_def)
  from dialUpstreamSOCKS_closed [of "e_dial env 0", OF Inr this, of "e_now env" target auth] obtain r c
    where "dialUpstreamSOCKS (e_dial env 0) (e_now env) upstream target auth = (r, Some c)"
      "case r of Inl e \<Rightarrow> closed c | Inr c' \<Rightarrow> c' = c \<and> \<not> closed c" by blast
  then show ?thesis
    by (cases r) (auto simp: dialedOk_def dialSOCKS_def)
qed

lemma dialHTTP_ok: "dialedOk (dialHTTP env upstream target auth)"
proof -
  obtain r opened where d: "dialUpstreamConnect (e_isPrint env) (e_rand env) (e_encode env) (e_decode env) (e_ahead env)
      (e_dial env) upstream target auth = (r, opened)" by force
  from dialUpstreamConnect_closed [OF d] d show ?thesis
    by (cases r) (auto simp: dialedOk_def dialHTTP_def)
qed

lemma backends_ok:
  assumes "freshDials env"
  shows "dialedOk (socksBackend env upstream kind auth target)" "dialedOk (connectBackend env upstream kind auth target)"
  using assms by (simp_all add: socksBackend_def connectBackend_def dialDirect_ok dialSOCKS_ok dialHTTP_ok)

section \<open>A relay with ending streams\<close>

lemma copyLoop_returns:
  "\<exists>r \<in> set rs. snd r \<noteq> None \<Longrightarrow> \<exists>t e s' lg. copyLoop isPrint l label out arrow conn_write rs s tot = (Some (t, e), s', lg)"
proof (induction rs arbitrary: s tot)
  case (Cons r rs)
  obtain chunk rerr where r: "r = (chunk, rerr)" by (cases r)
  obtain wn werr s1 where w: "conn_write s chunk = (wn, werr, s1)" by (metis prod_cases3)
  show ?case
  proof (cases rerr)
    case (Some e)
    with r w show ?thesis by (auto simp: Let_def)
  next
    case None
    with Cons.prems r have e: "\<exists>r \<in> set rs. snd r \<noteq> None" by auto
    from Cons.IH [OF e, of s tot] Cons.IH [OF e, of s1 "tot + int wn"] r w None show ?thesis
      by (auto simp: Let_def)
  qed
qed simp

lemma conn_write_deadline: "conn_write c bs = (n, e, c') \<Longrightarrow> deadline c' = deadline c"
  by (auto simp: conn_write_def split: if_splits option.splits)

lemma copyLoop_deadline: "deadline (fst (snd (copyLoop isPrint l label out arrow conn_write rs c tot))) = deadline c"
proof (induction rs arbitrary: c tot)
  case (Cons r rs)
  obtain chunk rerr where r: "r = (chunk, rerr)" by (cases r)
  obtain wn werr c1 where w: "conn_write c chunk = (wn, werr, c1)" by (metis prod_cases3)
  from Cons.IH conn_write_deadline [OF w] show ?case
    by (auto simp: r w Let_def split_beta split: option.split)
qed simp

lemma outcome_readsOf: "\<exists>t e c lg. outcome isPrint l label (startDir out (readsOf env src) hc dst) = Some (t, e, c, lg)"
  using copyLoop_returns [of "readsOf env src" isPrint l label out "arrowOf out" dst 0]
  by (auto simp: outcome_def startDir_def readsOf_def)

lemma outcome_relays:
  assumes "fairChop env" "openConn dst"
  shows "\<exists>e c lg. outcome isPrint l label (startDir out (readsOf env src) hc dst) = Some (int (length (rd_data src)), e, c, lg) \<and>
     wr_log c = wr_log dst @ rd_data src \<and> deadline c = deadline dst"
proof -
  let ?rs = "readsOf env src"
  obtain res dst' lg where c: "Copy isPrint l label out conn_write ?rs dst = (res, dst', lg)" by (metis prod_cases3)
  have "concat (e_chop env (rd_data src)) = rd_data src" using assms(1) by (simp add: fairChop_def)
  with conn_total.ioCopy_total [OF assms(2), of "e_chop env (rd_data src)" "rd_err src" 0] Copy_split [OF c]
  show ?thesis
    using c copyLoop_deadline [of isPrint l label out "arrowOf out" ?rs dst 0] by (auto simp: outcome_start readsOf_def Copy_copyLoop)
qed

section \<open>Sessions\<close>

text \<open>What a handler leaves behind: the client's connection, the backend's if one was handed to it, the
  other connections opened on the way, and its log (the entries of the two directions of a relay, which
  may interleave, are listed one direction after the other).\<close>

record session =
  ses_client :: conn
  ses_dst :: "conn option"
  ses_others :: "conn list"
  ses_log :: "log_entry list"

definition sessionClosed :: "session \<Rightarrow> bool" where
  "sessionClosed s \<longleftrightarrow> closed (ses_client s) \<and> (\<forall>d. ses_dst s = Some d \<longrightarrow> closed d) \<and> (\<forall>c \<in> set (ses_others s). closed c)"

text \<open>What a connection handler promises: with fresh dials it returns, and every connection it was given or
  has opened is closed by then.\<close>

locale conn_handler =
  fixes handle :: "net_env \<Rightarrow> string \<Rightarrow> conn \<Rightarrow> session option"
  assumes handle_closes: "freshDials env \<Longrightarrow> \<exists>s. handle env a c = Some s \<and> sessionClosed s"
begin

lemma accepted_all_closed:
  assumes "freshDials env" "acceptLoop (handle env) as = (hs, r)" "h \<in> set hs"
  shows "\<exists>s. h = Some s \<and> sessionClosed s"
proof (cases as rule: accepts_cases)
  case (blocked cs)
  with assms handle_closes [OF assms(1)] show ?thesis by (auto simp: acceptLoop_blocked)
next
  case (failed cs e d as')
  with assms handle_closes [OF assms(1)] show ?thesis by (auto simp: acceptLoop_failed)
qed

end

text \<open>The end of a handler: the relay of two started directions, then the closing log line and the
  deferred closes.\<close>

definition closingLog :: "net_env \<Rightarrow> logger option \<Rightarrow> string \<Rightarrow> int \<Rightarrow> int \<Rightarrow> log_entry list" where
  "closingLog env l label sent recv =
     (if InfoEnabled l then log_Info l ''%s: closed (sent=%d recv=%d duration=%s)'' [ArgS label, ArgI sent, ArgI recv, ArgS (e_elapsed env)]
      else log_Warn l ''%s: closed'' [ArgS label])"

definition relaySession :: "net_env \<Rightarrow> logger option \<Rightarrow> string \<Rightarrow> dir \<times> dir \<Rightarrow> conn list \<Rightarrow> log_entry list \<Rightarrow> session option" where
  "relaySession env l label p others lg =
     (case (outcome (e_isPrint env) l label (fst p), outcome (e_isPrint env) l label (snd p)) of
        (Some (sent, _, dst, ls), Some (recv, _, client, lr)) \<Rightarrow>
          Some \<lparr>ses_client = conn_close client, ses_dst = Some (conn_close dst), ses_others = others,
            ses_log = lg @ ls @ lr @ closingLog env l label sent recv\<rparr>
      | _ \<Rightarrow> None)"

lemma relaySession_closes:
  assumes "\<forall>c \<in> set others. closed c"
  shows "\<exists>s. relaySession env l label (startDir True (readsOf env a) hb b, startDir False (readsOf env b) ha a) others lg = Some s \<and> sessionClosed s"
proof -
  obtain t e c g where 1: "outcome (e_isPrint env) l label (startDir True (readsOf env a) hb b) = Some (t, e, c, g)"
    using outcome_readsOf by blast
  obtain t' e' c' g' where 2: "outcome (e_isPrint env) l label (startDir False (readsOf env b) ha a) = Some (t', e', c', g')"
    using outcome_readsOf by blast
  show ?thesis
    using assms by (simp add: relaySession_def 1 2 sessionClosed_def)
qed

lemma relaySession_relays:
  assumes "fairChop env" "openConn a" "openConn b"
  shows "\<exists>s d. relaySession env l label (startDir True (readsOf env a) hb b, startDir False (readsOf env b) ha a) others lg = Some s \<and>
     wr_log (ses_client s) = wr_log a @ rd_data b \<and> ses_dst s = Some d \<and> wr_log d = wr_log b @ rd_data a \<and>
     deadline (ses_client s) = deadline a"
proof -
  obtain e c g where 1: "outcome (e_isPrint env) l label (startDir True (readsOf env a) hb b) = Some (int (length (rd_data a)), e, c, g)"
      "wr_log c = wr_log b @ rd_data a"
    using outcome_relays [OF assms(1,3)] by blast
  obtain e' c' g' where 2: "outcome (e_isPrint env) l label (startDir False (readsOf env b) ha a) = Some (int (length (rd_data b)), e', c', g')"
      "wr_log c' = wr_log a @ rd_data b" "deadline c' = deadline a"
    using outcome_relays [OF assms(1,2)] by blast
  show ?thesis
    by (simp add: relaySession_def 1 2 conn_close_def)
qed


section \<open>A concrete environment\<close>

text \<open>Every dial reaches a peer that sends \<open>d\<close>; one chunk per stream.\<close>

definition demoEnv :: "byte list \<Rightarrow> net_env" where
  "demoEnv d = \<lparr>e_isPrint = (\<lambda>r. True), e_rand = Inr [], e_encode = (\<lambda>q. Inr [1]), e_decode = demoProxy 200, e_ahead = 0,
     e_dial = (\<lambda>i a. Inr (peer d)), e_now = 0, e_elapsed = ''1s'', e_chop = (\<lambda>d. [d]), e_hc = True\<rparr>"

lemma demoEnv_ok: "freshDials (demoEnv d)" "fairChop (demoEnv d)"
  by (simp_all add: demoEnv_def freshDials_def fairChop_def)

end
