(* ===== verification/Fairness.thy ===== *)
theory Fairness
  imports Main
begin

text \<open>
  Fair executions of a system of goroutines: infinite sequences of labelled steps and pauses in which no
  goroutine that could go on for ever after is left waiting for ever. A system whose fair steps use up
  a finite amount of work, and in which no other step takes a fair step away, settles: from some point on
  no fair step is possible.
\<close>

definition fairRun :: "('a \<Rightarrow> 's \<Rightarrow> 's \<Rightarrow> bool) \<Rightarrow> ('a \<Rightarrow> bool) \<Rightarrow> (nat \<Rightarrow> 's) \<Rightarrow> bool" where
  "fairRun step fair \<sigma> \<longleftrightarrow>
     (\<forall>i. \<sigma> (Suc i) = \<sigma> i \<or> (\<exists>a. step a (\<sigma> i) (\<sigma> (Suc i)))) \<and>
     (\<forall>a n. fair a \<longrightarrow> (\<forall>i \<ge> n. \<exists>t. step a (\<sigma> i) t) \<longrightarrow> (\<exists>i \<ge> n. step a (\<sigma> i) (\<sigma> (Suc i))))"

lemma fairRun_step: "fairRun step fair \<sigma> \<Longrightarrow> \<sigma> (Suc i) = \<sigma> i \<or> (\<exists>a. step a (\<sigma> i) (\<sigma> (Suc i)))"
  by (simp add: fairRun_def)

lemma fairRun_fair: "fairRun step fair \<sigma> \<Longrightarrow> fair a \<Longrightarrow> \<forall>i \<ge> n. \<exists>t. step a (\<sigma> i) t \<Longrightarrow> \<exists>i \<ge> n. step a (\<sigma> i) (\<sigma> (Suc i))"
  by (simp add: fairRun_def)

text \<open>A run that stays for ever in a state without fair steps is fair from there.\<close>

lemma fairRun_stops:
  assumes "\<And>i. \<sigma> (Suc i) = \<sigma> i \<or> (\<exists>a. step a (\<sigma> i) (\<sigma> (Suc i)))" "\<And>i. n \<le> i \<Longrightarrow> \<sigma> i = \<sigma> n"
    and "\<And>a t. fair a \<Longrightarrow> \<not> step a (\<sigma> n) t"
  shows "fairRun step fair \<sigma>"
  unfolding fairRun_def
proof (intro conjI allI impI)
  fix a m assume a: "fair a" and "\<forall>i \<ge> m. \<exists>t. step a (\<sigma> i) t"
  then obtain t where "step a (\<sigma> (max m n)) t" using max.cobounded1 by blast
  then have "step a (\<sigma> n) t" using assms(2) [of "max m n"] by simp
  with assms(3) [OF a] show "\<exists>i \<ge> m. step a (\<sigma> i) (\<sigma> (Suc i))" by blast
qed (rule assms(1))

locale settling =
  fixes step :: "'a \<Rightarrow> 's \<Rightarrow> 's \<Rightarrow> bool" and fair :: "'a \<Rightarrow> bool" and inv :: "'s \<Rightarrow> bool" and work :: "'s \<Rightarrow> nat"
  assumes keeps: "step a s t \<Longrightarrow> inv s \<Longrightarrow> inv t"
    and no_more: "step a s t \<Longrightarrow> inv s \<Longrightarrow> work t \<le> work s"
    and less: "step a s t \<Longrightarrow> inv s \<Longrightarrow> fair a \<Longrightarrow> work t < work s"
    and stable: "step b s t \<Longrightarrow> inv s \<Longrightarrow> work t = work s \<Longrightarrow> fair a \<Longrightarrow> step a s u \<Longrightarrow> \<exists>v. step a t v"
begin

lemma run_inv:
  assumes "fairRun step fair \<sigma>" "inv (\<sigma> k)"
  shows "inv (\<sigma> (k + j))"
proof (induction j)
  case (Suc j)
  then show ?case using fairRun_step [OF assms(1), of "k + j"] keeps by (metis add_Suc_right)
qed (simp add: assms(2))

lemma run_work:
  assumes "fairRun step fair \<sigma>" "inv (\<sigma> k)"
  shows "work (\<sigma> (k + j + i)) \<le> work (\<sigma> (k + j))"
proof (induction i)
  case (Suc i)
  have "work (\<sigma> (Suc (k + j + i))) \<le> work (\<sigma> (k + j + i))"
    using fairRun_step [OF assms(1), of "k + j + i"] no_more run_inv [OF assms, of "j + i"] by (metis add.assoc order_refl)
  with Suc show ?case by simp
qed simp

lemma settles:
  assumes "fairRun step fair \<sigma>" "inv (\<sigma> k)"
  shows "\<exists>n \<ge> k. \<forall>i \<ge> n. inv (\<sigma> i) \<and> (\<forall>a t. fair a \<longrightarrow> \<not> step a (\<sigma> i) t)"
proof -
  obtain j where j: "work (\<sigma> (k + j)) \<le> work (\<sigma> (k + j'))" for j'
    using exists_least_iff [of "\<lambda>w. \<exists>j. work (\<sigma> (k + j)) = w"] by (metis not_le)
  define n where "n = k + j"
  have inv: "inv (\<sigma> i)" if "n \<le> i" for i
    using run_inv [OF assms, of "i - k"] that by (simp add: n_def)
  have same: "work (\<sigma> i) = work (\<sigma> n)" if "n \<le> i" for i
    using j [of "i - k"] run_work [OF assms, of j "i - n"] that by (simp add: n_def)
  have none: "\<not> step a (\<sigma> i) (\<sigma> (Suc i))" if "n \<le> i" "fair a" for i a
    using less [OF _ inv [OF that(1)] that(2)] same [OF that(1)] same [of "Suc i"] that(1) by fastforce
  have "\<not> step a (\<sigma> m) t" if m: "n \<le> m" and a: "fair a" for m a t
  proof
    assume t: "step a (\<sigma> m) t"
    have "\<exists>u. step a (\<sigma> (m + i)) u" for i
    proof (induction i)
      case (Suc i)
      then obtain u where "step a (\<sigma> (m + i)) u" by blast
      moreover have "n \<le> m + i" "work (\<sigma> (Suc (m + i))) = work (\<sigma> (m + i))"
        using m same [of "m + i"] same [of "Suc (m + i)"] by simp_all
      ultimately show ?case
        using fairRun_step [OF assms(1), of "m + i"] stable [OF _ inv _ a] by (metis add_Suc_right)
    qed (use t in auto)
    then have "\<forall>i \<ge> m. \<exists>u. step a (\<sigma> i) u" by (metis le_add_diff_inverse)
    from fairRun_fair [OF assms(1) a this] none [OF _ a] m show False by (meson order_trans)
  qed
  with inv show ?thesis by (intro exI [of _ n]) (auto simp: n_def)
qed

end

end
