(* ===== verification/Listener.thy ===== *)
theory Listener
  imports Proxy_Base Fairness
begin

text \<open>
  A listener while the context may be cancelled: the accept loop of \<open>serveTCP\<close>, \<open>serveUDPDTLS\<close> and
  \<open>RunSOCKS\<close> together with the goroutine each of them starts, which waits for the context and closes the
  listener. What \<open>Accept\<close> has to give while the listener is open is a list, as in \<open>acceptLoop\<close>; on a
  closed listener it fails.
\<close>

record listener =
  ln_todo :: "accept list"
  ln_open :: bool
  ln_conns :: "(string \<times> conn) list"
  ln_ret :: "io_error option option"

definition lnInit :: "accept list \<Rightarrow> listener" where
  "lnInit as = \<lparr>ln_todo = as, ln_open = True, ln_conns = [], ln_ret = None\<rparr>"

datatype lnAct = LnAccept | LnFail | LnClosed | LnCloser

text \<open>The steps under a context that is cancelled or not: a connection is accepted and handed to its goroutine;
  \<open>Accept\<close> fails by itself, or because the listener is closed, and the loop returns nil if the context is
  cancelled and the error otherwise; the other goroutine closes the listener.\<close>

inductive lnStep :: "bool \<Rightarrow> lnAct \<Rightarrow> listener \<Rightarrow> listener \<Rightarrow> bool" for ctx where
  ln_accept: "ln_ret s = None \<Longrightarrow> ln_open s \<Longrightarrow> ln_todo s = Accepted a c # as \<Longrightarrow>
    lnStep ctx LnAccept s (s\<lparr>ln_todo := as, ln_conns := ln_conns s @ [(a, c)]\<rparr>)"
| ln_fail: "ln_ret s = None \<Longrightarrow> ln_open s \<Longrightarrow> ln_todo s = AcceptFailed e ctx # as \<Longrightarrow>
    lnStep ctx LnFail s (s\<lparr>ln_ret := Some (if ctx then None else Some e)\<rparr>)"
| ln_closed: "ln_ret s = None \<Longrightarrow> \<not> ln_open s \<Longrightarrow> lnStep ctx LnClosed s (s\<lparr>ln_ret := Some (if ctx then None else Some ErrClosed)\<rparr>)"
| ln_closer: "ctx \<Longrightarrow> ln_open s \<Longrightarrow> lnStep ctx LnCloser s (s\<lparr>ln_open := False\<rparr>)"

inductive_cases lnStepE: "lnStep ctx a s t"
inductive_simps lnClosed_iff: "lnStep ctx LnClosed s t"
inductive_simps lnCloser_iff: "lnStep ctx LnCloser s t"

text \<open>Where a listener stands in the list it started with. It is closed only after a cancellation.\<close>

definition lnInv :: "accept list \<Rightarrow> bool \<Rightarrow> listener \<Rightarrow> bool" where
  "lnInv as ctx s \<longleftrightarrow> as = accepts (ln_conns s) @ ln_todo s \<and> (\<not> ln_open s \<longrightarrow> ctx) \<and> (ln_ret s = Some None \<longrightarrow> ctx) \<and>
     (\<forall>e. ln_ret s = Some (Some e) \<longrightarrow> (\<exists>rest. ln_todo s = AcceptFailed e False # rest))"

lemma lnInit_inv: "lnInv as ctx (lnInit as)"
  by (simp add: lnInv_def lnInit_def)

lemma lnStep_inv: "lnStep ctx a s t \<Longrightarrow> lnInv as ctx s \<Longrightarrow> lnInv as ctx t"
  by (erule lnStepE) (auto simp: lnInv_def)

lemma lnInv_ctx: "lnInv as ctx s \<Longrightarrow> lnInv as True s"
  by (simp add: lnInv_def)

text \<open>An error of the loop is the one that \<open>acceptLoop\<close> gives on the same list, after the same connections.\<close>

lemma lnInv_error:
  assumes "lnInv as ctx s" "ln_ret s = Some (Some e)"
  shows "acceptLoop handle as = (map (\<lambda>(a, c). handle a c) (ln_conns s), Some (Some e))"
  using assms acceptLoop_failed [of handle "ln_conns s" e False] by (auto simp: lnInv_def)

text \<open>So a loop with its closing goroutine is \<open>acceptLoop\<close> on the connections it took and the failure that ended
  it: this is how the closing of the listener appears in \<open>serveTCP\<close>, \<open>serveUDPDTLS\<close> and \<open>RunSOCKS\<close>.\<close>

lemma lnInv_returned:
  assumes "lnInv as ctx s" "ln_ret s = Some r"
  shows "\<exists>e d. (d \<longrightarrow> ctx) \<and> acceptLoop handle (accepts (ln_conns s) @ [AcceptFailed e d]) = (map (\<lambda>(a, c). handle a c) (ln_conns s), Some r)"
proof (cases r)
  case None
  with assms show ?thesis by (intro exI [of _ ErrClosed] exI [of _ True]) (auto simp: lnInv_def acceptLoop_failed)
next
  case (Some e)
  then show ?thesis by (intro exI [of _ e] exI [of _ False]) (auto simp: acceptLoop_failed)
qed

text \<open>What is left to do for a listener that is being shut down.\<close>

definition lnWork :: "listener \<Rightarrow> nat" where
  "lnWork s = of_bool (ln_open s) + of_bool (ln_ret s = None)"

lemma lnStep_work:
  "lnStep ctx a s t \<Longrightarrow> lnWork t \<le> lnWork s" "lnStep ctx a s t \<Longrightarrow> a \<noteq> LnAccept \<Longrightarrow> lnWork t < lnWork s"
  "lnStep ctx a s t \<Longrightarrow> lnWork t = lnWork s \<Longrightarrow> ln_open t = ln_open s \<and> ln_ret t = ln_ret s"
  by (auto simp: lnWork_def elim!: lnStepE)

section \<open>Shutdown\<close>

text \<open>The goroutines' own steps; accepting, or failing, while the listener is open is up to the network.\<close>

definition lnOwn :: "lnAct \<Rightarrow> bool" where
  "lnOwn a \<longleftrightarrow> a = LnClosed \<or> a = LnCloser"

interpretation cancelled_listener: settling "lnStep True" lnOwn "\<lambda>s. True" lnWork
proof (unfold_locales, goal_cases)
  case (4 b s t a u)
  then show ?case using lnStep_work(3) [of True b s t] by (auto simp: lnOwn_def lnClosed_iff lnCloser_iff)
qed (auto simp: lnOwn_def dest: lnStep_work(1) lnStep_work(2))

text \<open>A cancelled listener is closed and its loop returns nil, whatever it goes on accepting in between. This
  is how \<open>RunSOCKS\<close> and the relay's listeners end.\<close>

theorem listener_shuts_down:
  assumes "fairRun (lnStep True) lnOwn \<sigma>" "ln_ret (\<sigma> 0) = None"
  shows "\<exists>n. \<forall>i \<ge> n. \<not> ln_open (\<sigma> i) \<and> ln_ret (\<sigma> i) = Some None"
proof -
  obtain n where n: "\<And>i a t. n \<le> i \<Longrightarrow> lnOwn a \<Longrightarrow> \<not> lnStep True a (\<sigma> i) t"
    using cancelled_listener.settles [OF assms(1), of 0] by blast
  have "ln_ret (\<sigma> i) = None \<or> ln_ret (\<sigma> i) = Some None" for i
  proof (induction i)
    case (Suc i)
    with fairRun_step [OF assms(1), of i] show ?case by (auto elim!: lnStepE)
  qed (simp add: assms(2))
  moreover have "\<not> ln_open (\<sigma> i) \<and> ln_ret (\<sigma> i) \<noteq> None" if "n \<le> i" for i
    using n [OF that, of LnCloser] n [OF that, of LnClosed] by (auto simp: lnOwn_def lnClosed_iff lnCloser_iff)
  ultimately show ?thesis by blast
qed

theorem listener_shuts_down_witness:
  "\<exists>\<sigma>. \<sigma> 0 = lnInit [Accepted ''p'' (peer [])] \<and> fairRun (lnStep True) lnOwn \<sigma> \<and> (\<exists>n. \<forall>i \<ge> n. \<not> ln_open (\<sigma> i) \<and> ln_ret (\<sigma> i) = Some None)"
proof -
  let ?s0 = "lnInit [Accepted ''p'' (peer [])]"
  let ?s1 = "?s0\<lparr>ln_open := False\<rparr>"
  let ?s2 = "?s1\<lparr>ln_ret := Some None\<rparr>"
  define \<sigma> where "\<sigma> i = (if i = 0 then ?s0 else if i = 1 then ?s1 else ?s2)" for i :: nat
  have 1: "lnStep True LnCloser ?s0 ?s1" by (rule ln_closer) (simp_all add: lnInit_def)
  have 2: "lnStep True LnClosed ?s1 ?s2" using ln_closed [of ?s1 True] by (simp add: lnInit_def)
  have "fairRun (lnStep True) lnOwn \<sigma>"
  proof (rule fairRun_stops [where n = 2])
    show "\<sigma> (Suc i) = \<sigma> i \<or> (\<exists>a. lnStep True a (\<sigma> i) (\<sigma> (Suc i)))" for i
      using 1 2 by (cases "i = 0"; cases "i = 1") (auto simp: \<sigma>_def)
    show "\<not> lnStep True a (\<sigma> 2) t" if "lnOwn a" for a t
      using that by (auto simp: lnOwn_def \<sigma>_def lnClosed_iff lnCloser_iff)
  qed (simp add: \<sigma>_def)
  moreover from listener_shuts_down [OF this] have "\<exists>n. \<forall>i \<ge> n. \<not> ln_open (\<sigma> i) \<and> ln_ret (\<sigma> i) = Some None"
    by (simp add: \<sigma>_def lnInit_def)
  ultimately show ?thesis by (intro exI [of _ \<sigma>]) (simp add: \<sigma>_def)
qed

end
