(* ===== verification/Tlsutil.thy ===== *)
theory Tlsutil
  imports Go_Conn Go_IP Config_Types
begin

text \<open>
  Package \<open>tlsutil\<close>: loading certificates and keys, the TLS and DTLS configurations of both sides of a
  relay (\<open>tlsutil.go\<close>, \<open>dtls.go\<close>), and the signer that mints leaf certificates for the MITM mode. The
  file system, X.509 and key generation are the fields of \<open>crypto_env\<close>; a certificate or key is the
  bytes it is made of.
\<close>

section \<open>Data\<close>

record tls_Certificate =
  crt_chain :: "byte list list"
  crt_key :: "byte list"

record x509_Certificate =
  x_Raw :: "byte list"
  x_IsCA :: bool

datatype key_usage = KeyUsageDigitalSignature | KeyUsageKeyEncipherment
datatype ext_key_usage = ExtKeyUsageServerAuth

record x509_template =
  SerialNumber :: nat
  CommonName :: string
  NotBefore :: int
  NotAfter :: int
  KeyUsage :: "key_usage list"
  ExtKeyUsage :: "ext_key_usage list"
  BasicConstraintsValid :: bool
  IsCA :: bool
  IPAddresses :: "byte list list"
  DNSNames :: "string list"

text \<open>What the package calls: \<open>os.ReadFile\<close>, \<open>pem.Decode\<close> (the type of the next block and the rest),
  \<open>tls.LoadX509KeyPair\<close>, the certificates \<open>AppendCertsFromPEM\<close> finds, \<open>x509.ParseCertificate\<close>, whether
  a private key is a \<open>crypto.Signer\<close>, its public half, and \<open>x509.CreateCertificate\<close>.\<close>

record crypto_env =
  ce_ReadFile :: "string \<Rightarrow> (io_error, byte list) result"
  ce_pemDecode :: "byte list \<Rightarrow> (string \<times> byte list) option"
  ce_LoadX509KeyPair :: "string \<Rightarrow> string \<Rightarrow> (io_error, tls_Certificate) result"
  ce_certsFromPEM :: "byte list \<Rightarrow> byte list list"
  ce_ParseCertificate :: "byte list \<Rightarrow> (io_error, x509_Certificate) result"
  ce_isSigner :: "byte list \<Rightarrow> bool"
  ce_PublicKey :: "byte list \<Rightarrow> byte list"
  ce_CreateCertificate :: "x509_template \<Rightarrow> x509_Certificate \<Rightarrow> byte list \<Rightarrow> byte list \<Rightarrow> (io_error, byte list) result"

datatype tls_error =
    LoadCertFailed string string io_error
  | ReadCAFailed string io_error
  | NoUsableCerts string
  | SignCALoadFailed string io_error
  | SignCAParseFailed string io_error
  | SignCANotCA string
  | SignCACannotSign string
  | IndexPanic
  | LeafKeyFailed string io_error
  | LeafSerialFailed string io_error
  | LeafSignFailed string io_error
  | NoHostname
  | ServerNameRequired

section \<open>Loading\<close>

text \<open>The loop of \<open>HasEmbeddedKey\<close>; none if it does not end.\<close>

partial_function (option) keyLoop :: "(byte list \<Rightarrow> (string \<times> byte list) option) \<Rightarrow> byte list \<Rightarrow> bool option" where
  "keyLoop dec data =
     (case dec data of
        None \<Rightarrow> Some False
      | Some (ty, rest) \<Rightarrow> if ContainsStr ty ''PRIVATE KEY'' then Some True else keyLoop dec rest)"

definition HasEmbeddedKey :: "crypto_env \<Rightarrow> string \<Rightarrow> (io_error, bool) result option" where
  "HasEmbeddedKey ce certPath =
     (case ce_ReadFile ce certPath of
        Inl err \<Rightarrow> Some (Inl err)
      | Inr data \<Rightarrow> map_option Inr (keyLoop (ce_pemDecode ce) data))"

definition loadCertificate :: "crypto_env \<Rightarrow> string \<Rightarrow> string \<Rightarrow> (tls_error, tls_Certificate) result" where
  "loadCertificate ce certPath keyPath =
     (let keyPath = (if keyPath = '''' then certPath else keyPath) in
      case ce_LoadX509KeyPair ce certPath keyPath of
        Inl err \<Rightarrow> Inl (LoadCertFailed certPath keyPath err)
      | Inr cert \<Rightarrow> Inr cert)"

text \<open>A pool is the list of its certificates; \<open>AppendCertsFromPEM\<close> reports whether it found any.\<close>

definition loadCAPool :: "crypto_env \<Rightarrow> string \<Rightarrow> (tls_error, byte list list) result" where
  "loadCAPool ce caPath =
     (case ce_ReadFile ce caPath of
        Inl err \<Rightarrow> Inl (ReadCAFailed caPath err)
      | Inr data \<Rightarrow>
          (let pool = ce_certsFromPEM ce data in
           if pool = [] then Inl (NoUsableCerts caPath) else Inr pool))"

section \<open>The signer\<close>

definition mitmLeafValidity :: int where "mitmLeafValidity = 46 * 24 * 3600"
definition mitmKeyBits :: nat where "mitmKeyBits = 2048"

record MITMSigner =
  sg_caCert :: x509_Certificate
  sg_caKey :: "byte list"
  sg_cache :: "string \<Rightarrow> tls_Certificate option"

definition LoadMITMSigner :: "crypto_env \<Rightarrow> string \<Rightarrow> (tls_error, MITMSigner) result" where
  "LoadMITMSigner ce signCAPath =
     (case ce_LoadX509KeyPair ce signCAPath signCAPath of
        Inl err \<Rightarrow> Inl (SignCALoadFailed signCAPath err)
      | Inr pair \<Rightarrow>
          (case crt_chain pair of
             [] \<Rightarrow> Inl IndexPanic
           | der # _ \<Rightarrow>
               (case ce_ParseCertificate ce der of
                  Inl err \<Rightarrow> Inl (SignCAParseFailed signCAPath err)
                | Inr caCert \<Rightarrow>
                    if \<not> x_IsCA caCert then Inl (SignCANotCA signCAPath)
                    else if \<not> ce_isSigner ce (crt_key pair) then Inl (SignCACannotSign signCAPath)
                    else Inr \<lparr>sg_caCert = caCert, sg_caKey = crt_key pair, sg_cache = (\<lambda>_. None)\<rparr>)))"

text \<open>What a call of \<open>CertificateFor\<close> draws from outside: the generated RSA key for a number of bits, the
  random serial number below a bound, and the clock.\<close>

record draw =
  dr_GenerateKey :: "nat \<Rightarrow> (io_error, byte list) result"
  dr_Int :: "nat \<Rightarrow> (io_error, nat) result"
  dr_now :: int

definition leafTemplate :: "string \<Rightarrow> nat \<Rightarrow> int \<Rightarrow> x509_template" where
  "leafTemplate hostname serial now =
     (let tmpl = \<lparr>SerialNumber = serial, CommonName = hostname, NotBefore = now - 3600, NotAfter = now + mitmLeafValidity,
        KeyUsage = [KeyUsageDigitalSignature, KeyUsageKeyEncipherment], ExtKeyUsage = [ExtKeyUsageServerAuth],
        BasicConstraintsValid = True, IsCA = False, IPAddresses = [], DNSNames = []\<rparr>
      in case ParseIP hostname of
           Some ip \<Rightarrow> tmpl\<lparr>IPAddresses := [ip]\<rparr>
         | None \<Rightarrow> tmpl\<lparr>DNSNames := [hostname]\<rparr>)"

definition CertificateFor :: "crypto_env \<Rightarrow> draw \<Rightarrow> string \<Rightarrow> MITMSigner \<Rightarrow> (tls_error, tls_Certificate) result \<times> MITMSigner" where
  "CertificateFor ce dr hostname m =
     (case sg_cache m hostname of
        Some cert \<Rightarrow> (Inr cert, m)
      | None \<Rightarrow>
          (case dr_GenerateKey dr mitmKeyBits of
             Inl err \<Rightarrow> (Inl (LeafKeyFailed hostname err), m)
           | Inr key \<Rightarrow>
               (case dr_Int dr (2 ^ 128) of
                  Inl err \<Rightarrow> (Inl (LeafSerialFailed hostname err), m)
                | Inr serial \<Rightarrow>
                    (case ce_CreateCertificate ce (leafTemplate hostname serial (dr_now dr)) (sg_caCert m) (ce_PublicKey ce key) (sg_caKey m) of
                       Inl err \<Rightarrow> (Inl (LeafSignFailed hostname err), m)
                     | Inr der \<Rightarrow>
                         (let cert = \<lparr>crt_chain = [der, x_Raw (sg_caCert m)], crt_key = key\<rparr>
                          in (Inr cert, m\<lparr>sg_cache := (sg_cache m)(hostname \<mapsto> cert)\<rparr>))))))"

section \<open>TLS configurations\<close>

text \<open>The client authentication policies of \<open>crypto/tls\<close>; \<open>NoClientCert\<close> is the zero value.\<close>

datatype ClientAuthType =
  NoClientCert | RequestClientCert | RequireAnyClientCert | VerifyClientCertIfGiven | RequireAndVerifyClientCert

text \<open>\<open>GetCertificate\<close> is called with the SNI of the hello; it works on the signer it closes over.\<close>

record tls_Config =
  Certificates :: "tls_Certificate list"
  ClientCAs :: "byte list list option"
  ClientAuth :: ClientAuthType
  RootCAs :: "byte list list option"
  ServerName :: string
  InsecureSkipVerify :: bool
  GetCertificate :: "(crypto_env \<Rightarrow> draw \<Rightarrow> string \<Rightarrow> MITMSigner \<Rightarrow> (tls_error, tls_Certificate) result \<times> MITMSigner) option"

definition zeroTLS :: tls_Config where
  "zeroTLS = \<lparr>Certificates = [], ClientCAs = None, ClientAuth = NoClientCert, RootCAs = None, ServerName = '''',
     InsecureSkipVerify = False, GetCertificate = None\<rparr>"

definition ServerConfig :: "crypto_env \<Rightarrow> string \<Rightarrow> string \<Rightarrow> string \<Rightarrow> bool \<Rightarrow> (tls_error, tls_Config) result" where
  "ServerConfig ce certPath keyPath caPath verifyClient =
     (case loadCertificate ce certPath keyPath of
        Inl err \<Rightarrow> Inl err
      | Inr cert \<Rightarrow>
          (let cfg = zeroTLS\<lparr>Certificates := [cert]\<rparr> in
           if caPath \<noteq> '''' then
             (case loadCAPool ce caPath of
                Inl err \<Rightarrow> Inl err
              | Inr pool \<Rightarrow>
                  (let cfg = cfg\<lparr>ClientCAs := Some pool\<rparr> in
                   if verifyClient then Inr (cfg\<lparr>ClientAuth := RequireAndVerifyClientCert\<rparr>)
                   else Inr (cfg\<lparr>ClientAuth := RequireAnyClientCert\<rparr>)))
           else Inr cfg))"

definition mitmGetCertificate ::
  "string \<Rightarrow> crypto_env \<Rightarrow> draw \<Rightarrow> string \<Rightarrow> MITMSigner \<Rightarrow> (tls_error, tls_Certificate) result \<times> MITMSigner" where
  "mitmGetCertificate explicitServerName ce dr sni signer =
     (let hostname = (if explicitServerName = '''' then sni else explicitServerName) in
      if hostname = '''' then (Inl NoHostname, signer)
      else CertificateFor ce dr hostname signer)"

definition MITMServerConfig :: "crypto_env \<Rightarrow> string \<Rightarrow> string \<Rightarrow> bool \<Rightarrow> (tls_error, tls_Config) result" where
  "MITMServerConfig ce explicitServerName caPath verifyClient =
     (let cfg = zeroTLS\<lparr>GetCertificate := Some (mitmGetCertificate explicitServerName)\<rparr> in
      if caPath \<noteq> '''' then
        (case loadCAPool ce caPath of
           Inl err \<Rightarrow> Inl err
         | Inr pool \<Rightarrow>
             (let cfg = cfg\<lparr>ClientCAs := Some pool\<rparr> in
              if verifyClient then Inr (cfg\<lparr>ClientAuth := RequireAndVerifyClientCert\<rparr>)
              else Inr (cfg\<lparr>ClientAuth := RequireAnyClientCert\<rparr>)))
      else Inr cfg)"

definition ClientConfig :: "crypto_env \<Rightarrow> string \<Rightarrow> string \<Rightarrow> string \<Rightarrow> string \<Rightarrow> bool \<Rightarrow> (tls_error, tls_Config) result" where
  "ClientConfig ce certPath keyPath caPath serverName verify =
     (let cfg = zeroTLS\<lparr>ServerName := serverName, InsecureSkipVerify := \<not> verify\<rparr> in
      bindR
        (if certPath \<noteq> '''' then
           (case loadCertificate ce certPath keyPath of
              Inl err \<Rightarrow> Inl err
            | Inr cert \<Rightarrow> Inr (cfg\<lparr>Certificates := [cert]\<rparr>))
         else Inr cfg)
        (\<lambda>cfg.
           if caPath \<noteq> '''' then
             (case loadCAPool ce caPath of
                Inl err \<Rightarrow> Inl err
              | Inr pool \<Rightarrow> Inr (cfg\<lparr>RootCAs := Some pool\<rparr>))
           else Inr cfg))"

section \<open>DTLS configurations\<close>

text \<open>The fields of \<open>dtls.Config\<close> that \<open>dtls.go\<close> sets.\<close>

record dtls_Config =
  d_Certificates :: "tls_Certificate list"
  d_ClientCAs :: "byte list list option"
  d_ClientAuth :: ClientAuthType
  d_RootCAs :: "byte list list option"
  d_ServerName :: string
  d_InsecureSkipVerify :: bool

definition zeroDTLS :: dtls_Config where
  "zeroDTLS = \<lparr>d_Certificates = [], d_ClientCAs = None, d_ClientAuth = NoClientCert, d_RootCAs = None,
     d_ServerName = '''', d_InsecureSkipVerify = False\<rparr>"

definition ServerConfigDTLS :: "crypto_env \<Rightarrow> string \<Rightarrow> string \<Rightarrow> string \<Rightarrow> bool \<Rightarrow> (tls_error, dtls_Config) result" where
  "ServerConfigDTLS ce certPath keyPath caPath verifyClient =
     (case loadCertificate ce certPath keyPath of
        Inl err \<Rightarrow> Inl err
      | Inr cert \<Rightarrow>
          (let cfg = zeroDTLS\<lparr>d_Certificates := [cert]\<rparr> in
           if caPath \<noteq> '''' then
             (case loadCAPool ce caPath of
                Inl err \<Rightarrow> Inl err
              | Inr pool \<Rightarrow>
                  (let cfg = cfg\<lparr>d_ClientCAs := Some pool\<rparr> in
                   if verifyClient then Inr (cfg\<lparr>d_ClientAuth := RequireAndVerifyClientCert\<rparr>)
                   else Inr (cfg\<lparr>d_ClientAuth := RequireAnyClientCert\<rparr>)))
           else Inr cfg))"

definition MITMServerConfigDTLS ::
  "crypto_env \<Rightarrow> draw \<Rightarrow> MITMSigner \<Rightarrow> string \<Rightarrow> string \<Rightarrow> bool \<Rightarrow> (tls_error, dtls_Config) result \<times> MITMSigner" where
  "MITMServerConfigDTLS ce dr signer explicitServerName caPath verifyClient =
     (if explicitServerName = '''' then (Inl ServerNameRequired, signer)
      else case CertificateFor ce dr explicitServerName signer of
          (Inl err, signer') \<Rightarrow> (Inl err, signer')
        | (Inr cert, signer') \<Rightarrow>
            (let cfg = zeroDTLS\<lparr>d_Certificates := [cert]\<rparr> in
             if caPath \<noteq> '''' then
               (case loadCAPool ce caPath of
                  Inl err \<Rightarrow> (Inl err, signer')
                | Inr pool \<Rightarrow>
                    (let cfg = cfg\<lparr>d_ClientCAs := Some pool\<rparr> in
                     if verifyClient then (Inr (cfg\<lparr>d_ClientAuth := RequireAndVerifyClientCert\<rparr>), signer')
                     else (Inr (cfg\<lparr>d_ClientAuth := RequireAnyClientCert\<rparr>), signer')))
             else (Inr cfg, signer')))"

definition ClientConfigDTLS :: "crypto_env \<Rightarrow> string \<Rightarrow> string \<Rightarrow> string \<Rightarrow> string \<Rightarrow> bool \<Rightarrow> (tls_error, dtls_Config) result" where
  "ClientConfigDTLS ce certPath keyPath caPath serverName verify =
     (let cfg = zeroDTLS\<lparr>d_ServerName := serverName, d_InsecureSkipVerify := \<not> verify\<rparr> in
      bindR
        (if certPath \<noteq> '''' then
           (case loadCertificate ce certPath keyPath of
              Inl err \<Rightarrow> Inl err
            | Inr cert \<Rightarrow> Inr (cfg\<lparr>d_Certificates := [cert]\<rparr>))
         else Inr cfg)
        (\<lambda>cfg.
           if caPath \<noteq> '''' then
             (case loadCAPool ce caPath of
                Inl err \<Rightarrow> Inl err
              | Inr pool \<Rightarrow> Inr (cfg\<lparr>d_RootCAs := Some pool\<rparr>))
           else Inr cfg))"

end
