(* ===== verification/Tlsutil_Props.thy ===== *)
theory Tlsutil_Props
  imports Tlsutil
begin

text \<open>
  What package \<open>tlsutil\<close> guarantees: \<open>HasEmbeddedKey\<close> returns and finds exactly the private key blocks;
  the four server configurations share one contract on client certificates; the DTLS configurations are
  those of TLS; the signer's cache is written once per host name and holds leaf certificates for that
  host name only.
\<close>

section \<open>Finding a key in a PEM file\<close>

text \<open>What the documentation of \<open>pem.Decode\<close> says of the rest: it is what follows the block.\<close>

definition pemShrinks :: "(byte list \<Rightarrow> (string \<times> byte list) option) \<Rightarrow> bool" where
  "pemShrinks dec \<longleftrightarrow> (\<forall>d ty rest. dec d = Some (ty, rest) \<longrightarrow> length rest < length d)"

text \<open>The types of the blocks of a file, in any position.\<close>

inductive pemBlock :: "(byte list \<Rightarrow> (string \<times> byte list) option) \<Rightarrow> byte list \<Rightarrow> string \<Rightarrow> bool" for dec where
  here: "dec d = Some (ty, rest) \<Longrightarrow> pemBlock dec d ty"
| later: "dec d = Some (ty', rest) \<Longrightarrow> pemBlock dec rest ty \<Longrightarrow> pemBlock dec d ty"

inductive_simps pemBlock_iff: "pemBlock dec d ty"

lemma keyLoop_blocks:
  assumes "pemShrinks dec"
  shows "keyLoop dec d = Some (\<exists>ty. pemBlock dec d ty \<and> ContainsStr ty ''PRIVATE KEY'')"
proof (induction d rule: measure_induct_rule [of length])
  case (less d)
  show ?case
  proof (cases "dec d")
    case None
    then show ?thesis by (simp add: keyLoop.simps [of dec d] pemBlock_iff [of dec d])
  next
    case (Some p)
    obtain ty rest where p: "p = (ty, rest)" by (cases p)
    with Some assms have "length rest < length d" by (auto simp: pemShrinks_def)
    from less.IH [OF this] Some p show ?thesis
      by (auto simp: keyLoop.simps [of dec d] pemBlock_iff [of dec d])
  qed
qed

lemma HasEmbeddedKey_total: "pemShrinks (ce_pemDecode ce) \<Longrightarrow> \<exists>r. HasEmbeddedKey ce path = Some r"
  by (simp add: HasEmbeddedKey_def keyLoop_blocks split: sum.split)

text \<open>C29. \<open>HasEmbeddedKey\<close> returns on every file, although its loop has no bound of its own: with a
  decoder whose rest is shorter than its input, the result is the read error, or whether any block of
  the file, wherever it stands, has a type that contains \<open>PRIVATE KEY\<close>.\<close>

theorem HasEmbeddedKey_terminates:
  assumes "pemShrinks (ce_pemDecode ce)"
  shows "HasEmbeddedKey ce path =
    Some (case ce_ReadFile ce path of
            Inl err \<Rightarrow> Inl err
          | Inr data \<Rightarrow> Inr (\<exists>ty. pemBlock (ce_pemDecode ce) data ty \<and> ContainsStr ty ''PRIVATE KEY''))"
  by (simp add: HasEmbeddedKey_def keyLoop_blocks [OF assms] split: sum.split)

text \<open>An environment to evaluate in: a file holds one byte per block, 1 for a certificate and 2 for a key;
  a signed certificate is its host name; the only CA certificate is \<open>[1]\<close>.\<close>

definition demoCrypto :: crypto_env where
  "demoCrypto = \<lparr>ce_ReadFile = (\<lambda>p. if p = ''none'' then Inl (OtherErr ''not found'') else if p = ''both'' then Inr [1, 2] else Inr [1]),
     ce_pemDecode = (\<lambda>d. case d of [] \<Rightarrow> None | b # r \<Rightarrow> Some (if b = 2 then ''EC PRIVATE KEY'' else ''CERTIFICATE'', r)),
     ce_LoadX509KeyPair = (\<lambda>c k. if c = ''none'' then Inl (OtherErr ''not found'') else Inr \<lparr>crt_chain = [[1]], crt_key = [2]\<rparr>),
     ce_certsFromPEM = (\<lambda>d. [d]),
     ce_ParseCertificate = (\<lambda>d. Inr \<lparr>x_Raw = d, x_IsCA = (d = [1])\<rparr>),
     ce_isSigner = (\<lambda>k. True),
     ce_PublicKey = (\<lambda>k. k),
     ce_CreateCertificate = (\<lambda>t ca pub k. Inr (map (\<lambda>c. of_char c) (CommonName t)))\<rparr>"

definition demoDraw :: "int \<Rightarrow> draw" where
  "demoDraw now = \<lparr>dr_GenerateKey = (\<lambda>n. Inr [7]), dr_Int = (\<lambda>n. Inr 5), dr_now = now\<rparr>"

definition demoSigner :: MITMSigner where
  "demoSigner = \<lparr>sg_caCert = \<lparr>x_Raw = [1], x_IsCA = True\<rparr>, sg_caKey = [2], sg_cache = (\<lambda>_. None)\<rparr>"

lemma demoCrypto_shrinks: "pemShrinks (ce_pemDecode demoCrypto)"
  by (auto simp: pemShrinks_def demoCrypto_def split: list.splits)

theorem HasEmbeddedKey_terminates_witness:
  "HasEmbeddedKey demoCrypto ''both'' = Some (Inr True) \<and> HasEmbeddedKey demoCrypto ''cert'' = Some (Inr False)"
proof -
  have "pemBlock (ce_pemDecode demoCrypto) [1, 2] ''EC PRIVATE KEY''"
    by (rule later [of _ _ "''CERTIFICATE''" "[2]"], simp add: demoCrypto_def,
        rule here [of _ _ _ "[]"], simp add: demoCrypto_def)
  moreover have not_key: "\<not> ContainsStr ''CERTIFICATE'' ''PRIVATE KEY''" by simp
  moreover have "\<not> pemBlock (ce_pemDecode demoCrypto) [] ty" for ty
    by (subst pemBlock_iff) (simp add: demoCrypto_def)
  then have "pemBlock (ce_pemDecode demoCrypto) [1] ty \<Longrightarrow> ty = ''CERTIFICATE''" for ty
    by (subst (asm) pemBlock_iff) (auto simp: demoCrypto_def)
  then have "\<not> (\<exists>ty. pemBlock (ce_pemDecode demoCrypto) [1] ty \<and> ContainsStr ty ''PRIVATE KEY'')"
    using not_key by metis
  moreover have "ce_ReadFile demoCrypto ''both'' = Inr [1, 2]" "ce_ReadFile demoCrypto ''cert'' = Inr [1]"
    "ContainsStr ''EC PRIVATE KEY'' ''PRIVATE KEY''"
    by (simp_all add: demoCrypto_def)
  ultimately show ?thesis
    using HasEmbeddedKey_terminates [OF demoCrypto_shrinks, of "''both''"] HasEmbeddedKey_terminates [OF demoCrypto_shrinks, of "''cert''"]
    by auto
qed

section \<open>Client certificates\<close>

text \<open>Whom a server admits: the documented meaning of the policies, for the certificates a client presents;
  \<open>valid\<close> is verification against a pool (the system's when there is none).\<close>

fun admits :: "(byte list list option \<Rightarrow> byte list list \<Rightarrow> bool) \<Rightarrow> ClientAuthType \<Rightarrow> byte list list option \<Rightarrow> byte list list \<Rightarrow> bool" where
  "admits valid NoClientCert cas certs = True"
| "admits valid RequestClientCert cas certs = True"
| "admits valid RequireAnyClientCert cas certs = (certs \<noteq> [])"
| "admits valid VerifyClientCertIfGiven cas certs = (certs = [] \<or> valid cas certs)"
| "admits valid RequireAndVerifyClientCert cas certs = (certs \<noteq> [] \<and> valid cas certs)"

text \<open>The contract the four server configurations share: without a CA path no client certificate is asked
  for; with one, the pool is loaded from it and a certificate is required, and verified on demand.\<close>

locale server_config =
  fixes ce :: crypto_env
    and build :: "string \<Rightarrow> bool \<Rightarrow> (tls_error, 'c) result"
    and auth :: "'c \<Rightarrow> ClientAuthType"
    and cas :: "'c \<Rightarrow> byte list list option"
  assumes without_ca: "build '''' v = Inr cfg \<Longrightarrow> auth cfg = NoClientCert"
    and with_ca: "ca \<noteq> '''' \<Longrightarrow> build ca v = Inr cfg \<Longrightarrow>
      \<exists>pool. loadCAPool ce ca = Inr pool \<and> cas cfg = Some pool \<and>
        auth cfg = (if v then RequireAndVerifyClientCert else RequireAnyClientCert)"
begin

lemma admission:
  assumes "build ca v = Inr cfg"
  shows "admits valid (auth cfg) (cas cfg) certs \<longleftrightarrow>
    ca = '''' \<or> (certs \<noteq> [] \<and> (v \<longrightarrow> (\<exists>pool. loadCAPool ce ca = Inr pool \<and> valid (Some pool) certs)))"
proof (cases "ca = ''''")
  case True
  with assms without_ca show ?thesis by simp
next
  case False
  from with_ca [OF this assms] False show ?thesis by (cases v) auto
qed

end

interpretation tls_server: server_config ce "ServerConfig ce certPath keyPath" ClientAuth ClientCAs for ce certPath keyPath
  by unfold_locales (auto simp: ServerConfig_def Let_def zeroTLS_def split: sum.splits if_splits)

interpretation tls_mitm: server_config ce "MITMServerConfig ce name" ClientAuth ClientCAs for ce name
  by unfold_locales (auto simp: MITMServerConfig_def Let_def zeroTLS_def split: sum.splits if_splits)

interpretation dtls_server: server_config ce "ServerConfigDTLS ce certPath keyPath" d_ClientAuth d_ClientCAs for ce certPath keyPath
  by unfold_locales (auto simp: ServerConfigDTLS_def Let_def zeroDTLS_def split: sum.splits if_splits)

interpretation dtls_mitm: server_config ce "\<lambda>ca v. fst (MITMServerConfigDTLS ce dr signer name ca v)" d_ClientAuth d_ClientCAs
  for ce dr signer name
  by unfold_locales (auto simp: MITMServerConfigDTLS_def Let_def zeroDTLS_def split: sum.splits if_splits prod.splits)

section \<open>DTLS mirrors TLS\<close>

definition toDTLS :: "tls_Config \<Rightarrow> dtls_Config" where
  "toDTLS c = \<lparr>d_Certificates = Certificates c, d_ClientCAs = ClientCAs c, d_ClientAuth = ClientAuth c, d_RootCAs = RootCAs c,
     d_ServerName = ServerName c, d_InsecureSkipVerify = InsecureSkipVerify c\<rparr>"

lemma ServerConfig_toDTLS:
  "ServerConfigDTLS ce certPath keyPath caPath v = map_sum id toDTLS (ServerConfig ce certPath keyPath caPath v)"
  by (simp add: ServerConfigDTLS_def ServerConfig_def Let_def toDTLS_def zeroDTLS_def zeroTLS_def split: sum.split)

lemma ClientConfig_toDTLS:
  "ClientConfigDTLS ce certPath keyPath caPath name v = map_sum id toDTLS (ClientConfig ce certPath keyPath caPath name v)"
  by (simp add: ClientConfigDTLS_def ClientConfig_def Let_def toDTLS_def zeroDTLS_def zeroTLS_def split: sum.split)

text \<open>The DTLS configurations mirror those of TLS, errors included: on the same paths and flags, the
  server and the client configuration for DTLS are those for TLS, field by field.\<close>

theorem dtls_mirrors_tls:
  "ServerConfigDTLS ce certPath keyPath caPath v = map_sum id toDTLS (ServerConfig ce certPath keyPath caPath v) \<and>
   ClientConfigDTLS ce certPath keyPath caPath name v = map_sum id toDTLS (ClientConfig ce certPath keyPath caPath name v)"
  using ServerConfig_toDTLS ClientConfig_toDTLS by blast

section \<open>The signer\<close>

text \<open>A store whose entries, once written, stay.\<close>

locale write_once =
  fixes call :: "'op \<Rightarrow> 's \<Rightarrow> 's" and look :: "'s \<Rightarrow> 'k \<Rightarrow> 'v option"
  assumes keeps: "look s k = Some v \<Longrightarrow> look (call x s) k = Some v"
begin

lemma stays: "look s k = Some v \<Longrightarrow> look (fold call xs s) k = Some v"
  by (induction xs arbitrary: s) (simp_all add: keeps)

end

text \<open>The calls made under the signer's mutex, in the order the mutex is taken.\<close>

definition certCall :: "crypto_env \<Rightarrow> draw \<times> string \<Rightarrow> MITMSigner \<Rightarrow> MITMSigner" where
  "certCall ce x m = snd (CertificateFor ce (fst x) (snd x) m)"

lemma CertificateFor_cases:
  obtains (hit) cert where "sg_cache m h = Some cert" "CertificateFor ce dr h m = (Inr cert, m)"
  | (failed) e where "sg_cache m h = None" "CertificateFor ce dr h m = (Inl e, m)"
  | (minted) key serial der where "sg_cache m h = None" "dr_GenerateKey dr mitmKeyBits = Inr key" "dr_Int dr (2 ^ 128) = Inr serial"
      "ce_CreateCertificate ce (leafTemplate h serial (dr_now dr)) (sg_caCert m) (ce_PublicKey ce key) (sg_caKey m) = Inr der"
      "CertificateFor ce dr h m =
        (Inr \<lparr>crt_chain = [der, x_Raw (sg_caCert m)], crt_key = key\<rparr>,
         m\<lparr>sg_cache := (sg_cache m)(h \<mapsto> \<lparr>crt_chain = [der, x_Raw (sg_caCert m)], crt_key = key\<rparr>)\<rparr>)"
proof (cases "sg_cache m h")
  case None
  show thesis
  proof (cases "dr_GenerateKey dr mitmKeyBits")
    case (Inl e)
    with None show thesis by (intro failed [of "LeafKeyFailed h e"]) (simp_all add: CertificateFor_def)
  next
    case key: (Inr key)
    show thesis
    proof (cases "dr_Int dr (2 ^ 128)")
      case (Inl e)
      with None key show thesis by (intro failed [of "LeafSerialFailed h e"]) (simp_all add: CertificateFor_def)
    next
      case serial: (Inr serial)
      let ?r = "ce_CreateCertificate ce (leafTemplate h serial (dr_now dr)) (sg_caCert m) (ce_PublicKey ce key) (sg_caKey m)"
      show thesis
      proof (cases ?r)
        case (Inl e)
        with None key serial show thesis by (intro failed [of "LeafSignFailed h e"]) (simp_all add: CertificateFor_def)
      next
        case (Inr der)
        with None key serial show thesis by (intro minted [OF None key serial Inr]) (simp add: CertificateFor_def Let_def)
      qed
    qed
  qed
qed (use hit in \<open>simp add: CertificateFor_def\<close>)

lemma CertificateFor_cached: "CertificateFor ce dr h m = (Inr c, m') \<Longrightarrow> sg_cache m' h = Some c"
  by (cases rule: CertificateFor_cases [of m h ce dr]) auto

interpretation leaf_cache: write_once "certCall ce" sg_cache for ce
proof
  fix m :: MITMSigner and h c x
  assume "sg_cache m h = Some c"
  then show "sg_cache (certCall ce x m) h = Some c"
    unfolding certCall_def by (cases rule: CertificateFor_cases [of m "snd x" ce "fst x"]) auto
qed

text \<open>C30. One leaf per host name for the life of the signer: once \<open>CertificateFor\<close> has returned a
  certificate for a host name, every later call for it returns that certificate and generates nothing,
  whatever calls came in between and whatever the clock says. In particular a leaf is still handed out
  when its 46 days of validity are over.\<close>

theorem mitm_cache_stable:
  assumes "CertificateFor ce dr h m = (Inr c, m')"
  shows "CertificateFor ce dr' h (fold (certCall ce) xs m') = (Inr c, fold (certCall ce) xs m')"
  using leaf_cache.stays [OF CertificateFor_cached [OF assms], of ce xs] by (simp add: CertificateFor_def)

theorem mitm_cache_stable_witness:
  "\<exists>c m'. CertificateFor demoCrypto (demoDraw 0) ''h'' demoSigner = (Inr c, m') \<and>
     mitmLeafValidity < dr_now (demoDraw 4000000) \<and>
     fst (CertificateFor demoCrypto (demoDraw 4000000) ''h'' (fold (certCall demoCrypto) [(demoDraw 1, ''g'')] m')) = Inr c"
proof -
  obtain c m' where c: "CertificateFor demoCrypto (demoDraw 0) ''h'' demoSigner = (Inr c, m')"
    by (simp add: CertificateFor_def demoCrypto_def demoDraw_def demoSigner_def Let_def)
  from mitm_cache_stable [OF c, of "demoDraw 4000000" "[(demoDraw 1, ''g'')]"] c show ?thesis
    by (simp add: mitmLeafValidity_def) (simp add: demoDraw_def)
qed

text \<open>A leaf for a host name: signed by the signer's CA from the template for that host name, with the CA's
  certificate after it and the private key of the public key that was signed.\<close>

definition leafFor :: "crypto_env \<Rightarrow> MITMSigner \<Rightarrow> string \<Rightarrow> tls_Certificate \<Rightarrow> bool" where
  "leafFor ce m h c \<longleftrightarrow> (\<exists>serial now der.
     ce_CreateCertificate ce (leafTemplate h serial now) (sg_caCert m) (ce_PublicKey ce (crt_key c)) (sg_caKey m) = Inr der \<and>
     crt_chain c = [der, x_Raw (sg_caCert m)])"

definition cacheInv :: "crypto_env \<Rightarrow> MITMSigner \<Rightarrow> bool" where
  "cacheInv ce m \<longleftrightarrow> (\<forall>h c. sg_cache m h = Some c \<longrightarrow> leafFor ce m h c)"

lemma CertificateFor_inv:
  assumes "cacheInv ce m"
  shows "cacheInv ce (snd (CertificateFor ce dr h m))"
    and "fst (CertificateFor ce dr h m) = Inr c \<Longrightarrow> leafFor ce m h c"
    and "sg_caCert (snd (CertificateFor ce dr h m)) = sg_caCert m" "sg_caKey (snd (CertificateFor ce dr h m)) = sg_caKey m"
  using assms by (cases rule: CertificateFor_cases [of m h ce dr]; auto simp: cacheInv_def leafFor_def)+

lemma leafFor_cong:
  "sg_caCert m = sg_caCert m' \<Longrightarrow> sg_caKey m = sg_caKey m' \<Longrightarrow> leafFor ce m h c = leafFor ce m' h c"
  by (simp add: leafFor_def)

text \<open>The handshakes of a listener: each calls \<open>GetCertificate\<close> with its own SNI.\<close>

fun handshakes :: "crypto_env \<Rightarrow> string \<Rightarrow> (draw \<times> string) list \<Rightarrow> MITMSigner \<Rightarrow> (tls_error, tls_Certificate) result list" where
  "handshakes ce name [] m = []"
| "handshakes ce name ((dr, sni) # hs) m =
     (case mitmGetCertificate name ce dr sni m of (r, m') \<Rightarrow> r # handshakes ce name hs m')"

definition servedName :: "string \<Rightarrow> string \<Rightarrow> string" where
  "servedName name sni = (if name = '''' then sni else name)"

lemma mitmGetCertificate_inv:
  assumes "cacheInv ce m" "mitmGetCertificate name ce dr sni m = (r, m')"
  shows "cacheInv ce m'" "sg_caCert m' = sg_caCert m" "sg_caKey m' = sg_caKey m"
    "case r of Inl e \<Rightarrow> servedName name sni = '''' \<longrightarrow> e = NoHostname
     | Inr c \<Rightarrow> servedName name sni \<noteq> '''' \<and> leafFor ce m (servedName name sni) c"
  using assms CertificateFor_inv [OF assms(1), of dr "servedName name sni"]
  by (auto simp: mitmGetCertificate_def servedName_def Let_def split: if_splits sum.splits)

lemma LoadMITMSigner_inv: "LoadMITMSigner ce path = Inr m \<Longrightarrow> cacheInv ce m \<and> x_IsCA (sg_caCert m) \<and> ce_isSigner ce (sg_caKey m)"
  by (auto simp: LoadMITMSigner_def cacheInv_def split: sum.splits list.splits if_splits)

lemma handshakes_served:
  "cacheInv ce m \<Longrightarrow> i < length hs \<Longrightarrow>
   case handshakes ce name hs m ! i of Inl e \<Rightarrow> servedName name (snd (hs ! i)) = '''' \<longrightarrow> e = NoHostname
     | Inr c \<Rightarrow> servedName name (snd (hs ! i)) \<noteq> '''' \<and> leafFor ce m (servedName name (snd (hs ! i))) c"
proof (induction hs arbitrary: m i)
  case (Cons x hs)
  obtain dr sni where x: "x = (dr, sni)" by (cases x)
  obtain r m' where g: "mitmGetCertificate name ce dr sni m = (r, m')" by force
  note inv = mitmGetCertificate_inv [OF Cons.prems(1) g]
  show ?case
  proof (cases i)
    case 0
    with inv(4) x g show ?thesis by (simp split: sum.splits)
  next
    case (Suc j)
    with Cons.IH [OF inv(1), of j] Cons.prems(2) x g show ?thesis
      by (simp add: leafFor_cong [OF inv(2,3)] split: sum.splits)
  qed
qed simp

text \<open>C12. A MITM listener never serves a leaf made for another host name. After loading the signer, in any
  sequence of handshakes, a handshake that gets a certificate gets one for its own name, the fixed
  \<open>-servername=\<close> or else its SNI, signed by the loaded CA, which is a CA, and backed by the key that was
  signed; a handshake with neither name is refused.\<close>

theorem mitm_serves_own_hostname:
  assumes "LoadMITMSigner ce path = Inr m" "i < length hs"
  shows "x_IsCA (sg_caCert m) \<and>
    (case handshakes ce name hs m ! i of
       Inl e \<Rightarrow> servedName name (snd (hs ! i)) = '''' \<longrightarrow> e = NoHostname
     | Inr c \<Rightarrow> servedName name (snd (hs ! i)) \<noteq> '''' \<and> leafFor ce m (servedName name (snd (hs ! i))) c)"
  using LoadMITMSigner_inv [OF assms(1)] handshakes_served [OF _ assms(2), of ce m name] by simp

theorem mitm_serves_own_hostname_witness:
  "case handshakes demoCrypto '''' [(demoDraw 0, ''a''), (demoDraw 1, ''b'')] demoSigner ! 1 of
     Inl e \<Rightarrow> False | Inr c \<Rightarrow> leafFor demoCrypto demoSigner ''b'' c"
proof -
  have l: "LoadMITMSigner demoCrypto ''ca'' = Inr demoSigner"
    by (simp add: LoadMITMSigner_def demoCrypto_def demoSigner_def)
  have "\<exists>c. handshakes demoCrypto '''' [(demoDraw 0, ''a''), (demoDraw 1, ''b'')] demoSigner ! 1 = Inr c"
    by (simp add: mitmGetCertificate_def CertificateFor_def Let_def demoCrypto_def demoDraw_def demoSigner_def)
  with mitm_serves_own_hostname [OF l, of 1 "[(demoDraw 0, ''a''), (demoDraw 1, ''b'')]" "''''"] show ?thesis
    by (auto simp: servedName_def)
qed

text \<open>What a leaf template names: its host name and nothing else, as an IP address exactly when it is
  one; it is not a CA, is for servers only, and is valid from an hour ago for 46 days.\<close>

lemma leafTemplate_names:
  "CommonName (leafTemplate h serial now) = h \<and>
   (case ParseIP h of
      None \<Rightarrow> DNSNames (leafTemplate h serial now) = [h] \<and> IPAddresses (leafTemplate h serial now) = []
    | Some ip \<Rightarrow> DNSNames (leafTemplate h serial now) = [] \<and> IPAddresses (leafTemplate h serial now) = [ip]) \<and>
   \<not> IsCA (leafTemplate h serial now) \<and> BasicConstraintsValid (leafTemplate h serial now) \<and>
   ExtKeyUsage (leafTemplate h serial now) = [ExtKeyUsageServerAuth] \<and>
   NotAfter (leafTemplate h serial now) - NotBefore (leafTemplate h serial now) = 46 * 24 * 3600 + 3600"
  by (simp add: leafTemplate_def mitmLeafValidity_def Let_def split: option.split)

end
