(* ===== verification/Config_Options.thy ===== *)
theory Config_Options
  imports Config_Types
begin

text \<open>
  \<open>extractOptions\<close> of \<open>parse.go\<close>: the walk over the leading option tokens. The cases of its switch
  are a classification of the token (\<open>classifyTok\<close>, the case conditions in their order) followed by
  the case's body (\<open>optionStep\<close>). The second half states what the result says about the tokens:
  every path sub-option is found exactly in its own block, which one locale proves for all nine of
  them.
\<close>

section \<open>The tokens\<close>

definition logLevelTokens :: "string \<Rightarrow> int" where
  "logLevelTokens tok =
     (if tok = ''-d'' then 1 else if tok = ''-dd'' then 2 else if tok = ''-ddd'' then 3 else 0)"

datatype optTok =
    TokHelp | TokVersion | TokVerbose | TokLevel int | TokBlock block | TokSub subopt string
  | TokOther

definition classifyTok :: "string \<Rightarrow> optTok" where
  "classifyTok tok =
     (if tok = ''-help'' then TokHelp
      else if tok = ''-version'' then TokVersion
      else if tok = ''-v'' then TokVerbose
      else if logLevelTokens tok \<noteq> 0 then TokLevel (logLevelTokens tok)
      else if tok = ''-Q'' then TokBlock BlockQ
      else if tok = ''-Z'' then TokBlock BlockZ
      else if tok = ''-M'' then TokBlock BlockM
      else if tok = ''-F'' then TokBlock BlockF
      else if HasPrefix tok ''-key='' then TokSub SubKey (TrimPrefix tok ''-key='')
      else if HasPrefix tok ''-cert='' then TokSub SubCert (TrimPrefix tok ''-cert='')
      else if HasPrefix tok ''-ca='' then TokSub SubCa (TrimPrefix tok ''-ca='')
      else if HasPrefix tok ''-verify='' then TokSub SubVerify (TrimPrefix tok ''-verify='')
      else if HasPrefix tok ''-signca='' then TokSub SubSignca (TrimPrefix tok ''-signca='')
      else if HasPrefix tok ''-servername='' then TokSub SubServername (TrimPrefix tok ''-servername='')
      else if HasPrefix tok ''-user='' then TokSub SubUser (TrimPrefix tok ''-user='')
      else TokOther)"

datatype optOutcome = Stop | Fail option_error | Next options sslScopeKind

section \<open>The bodies of the cases\<close>

fun openBlock :: "block \<Rightarrow> options \<Rightarrow> optOutcome" where
  "openBlock BlockQ opts =
     (if s_seen (o_q opts) then Fail (BlockRepeated BlockQ)
      else Next (opts\<lparr>o_q := (o_q opts)\<lparr>s_seen := True\<rparr>\<rparr>) scopeQ)"
| "openBlock BlockZ opts =
     (if s_seen (o_z opts) then Fail (BlockRepeated BlockZ)
      else Next (opts\<lparr>o_z := (o_z opts)\<lparr>s_seen := True\<rparr>\<rparr>) scopeZ)"
| "openBlock BlockM opts =
     (if m_seen (o_m opts) then Fail (BlockRepeated BlockM)
      else Next (opts\<lparr>o_m := (o_m opts)\<lparr>m_seen := True\<rparr>\<rparr>) scopeM)"
| "openBlock BlockF opts =
     (if f_seen (o_f opts) then Fail (BlockRepeated BlockF)
      else Next (opts\<lparr>o_f := (o_f opts)\<lparr>f_seen := True\<rparr>\<rparr>) scopeF)"

definition optKey :: "string \<Rightarrow> options \<Rightarrow> sslScopeKind \<Rightarrow> optOutcome" where
  "optKey val opts scope =
     (case scope of
        scopeQ \<Rightarrow>
          if s_keyPath (o_q opts) \<noteq> '''' then Fail (SubRepeated BlockQ SubKey)
          else Next (opts\<lparr>o_q := (o_q opts)\<lparr>s_keyPath := val\<rparr>\<rparr>) scope
      | scopeZ \<Rightarrow>
          if s_keyPath (o_z opts) \<noteq> '''' then Fail (SubRepeated BlockZ SubKey)
          else Next (opts\<lparr>o_z := (o_z opts)\<lparr>s_keyPath := val\<rparr>\<rparr>) scope
      | _ \<Rightarrow> Fail (SubNeedsScope SubKey))"

definition optCert :: "string \<Rightarrow> options \<Rightarrow> sslScopeKind \<Rightarrow> optOutcome" where
  "optCert val opts scope =
     (case scope of
        scopeQ \<Rightarrow>
          if s_certPath (o_q opts) \<noteq> '''' then Fail (SubRepeated BlockQ SubCert)
          else Next (opts\<lparr>o_q := (o_q opts)\<lparr>s_certPath := val\<rparr>\<rparr>) scope
      | scopeZ \<Rightarrow>
          if s_certPath (o_z opts) \<noteq> '''' then Fail (SubRepeated BlockZ SubCert)
          else Next (opts\<lparr>o_z := (o_z opts)\<lparr>s_certPath := val\<rparr>\<rparr>) scope
      | _ \<Rightarrow> Fail (SubNeedsScope SubCert))"

definition optCa :: "string \<Rightarrow> options \<Rightarrow> sslScopeKind \<Rightarrow> optOutcome" where
  "optCa val opts scope =
     (case scope of
        scopeQ \<Rightarrow>
          if s_caPath (o_q opts) \<noteq> '''' then Fail (SubRepeated BlockQ SubCa)
          else Next (opts\<lparr>o_q := (o_q opts)\<lparr>s_caPath := val\<rparr>\<rparr>) scope
      | scopeZ \<Rightarrow>
          if s_caPath (o_z opts) \<noteq> '''' then Fail (SubRepeated BlockZ SubCa)
          else Next (opts\<lparr>o_z := (o_z opts)\<lparr>s_caPath := val\<rparr>\<rparr>) scope
      | scopeM \<Rightarrow>
          if m_caPath (o_m opts) \<noteq> '''' then Fail (SubRepeated BlockM SubCa)
          else Next (opts\<lparr>o_m := (o_m opts)\<lparr>m_caPath := val\<rparr>\<rparr>) scope
      | _ \<Rightarrow> Fail (SubNeedsScope SubCa))"

definition optVerify :: "string \<Rightarrow> options \<Rightarrow> sslScopeKind \<Rightarrow> optOutcome" where
  "optVerify v opts scope =
     (let val = (v \<noteq> ''0'') in
      case scope of
        scopeQ \<Rightarrow> Next (opts\<lparr>o_q := (o_q opts)\<lparr>s_verify := val\<rparr>\<rparr>) scope
      | scopeZ \<Rightarrow> Next (opts\<lparr>o_z := (o_z opts)\<lparr>s_verify := val\<rparr>\<rparr>) scope
      | scopeM \<Rightarrow> Next (opts\<lparr>o_m := (o_m opts)\<lparr>m_verify := val\<rparr>\<rparr>) scope
      | _ \<Rightarrow> Fail (SubNeedsScope SubVerify))"

definition optSignca :: "string \<Rightarrow> options \<Rightarrow> sslScopeKind \<Rightarrow> optOutcome" where
  "optSignca val opts scope =
     (if scope \<noteq> scopeM then Fail (SubNeedsScope SubSignca)
      else if m_signCAPath (o_m opts) \<noteq> '''' then Fail (SubRepeated BlockM SubSignca)
      else Next (opts\<lparr>o_m := (o_m opts)\<lparr>m_signCAPath := val\<rparr>\<rparr>) scope)"

definition optServername :: "string \<Rightarrow> options \<Rightarrow> sslScopeKind \<Rightarrow> optOutcome" where
  "optServername val opts scope =
     (if scope \<noteq> scopeM then Fail (SubNeedsScope SubServername)
      else if m_serverName (o_m opts) \<noteq> '''' then Fail (SubRepeated BlockM SubServername)
      else Next (opts\<lparr>o_m := (o_m opts)\<lparr>m_serverName := val\<rparr>\<rparr>) scope)"

definition optUser :: "string \<Rightarrow> options \<Rightarrow> sslScopeKind \<Rightarrow> optOutcome" where
  "optUser val opts scope =
     (if scope \<noteq> scopeF then Fail (SubNeedsScope SubUser)
      else if f_userSeen (o_f opts) then Fail (SubRepeated BlockF SubUser)
      else (case Cut val CHR '':'' of (user, pass, ok) \<Rightarrow>
        if \<not> ok \<or> user = '''' then Fail (BadUser val)
        else Next (opts\<lparr>o_f := (o_f opts)\<lparr>f_user := user, f_pass := pass, f_userSeen := True\<rparr>\<rparr>)
               scope))"

fun optSub :: "subopt \<Rightarrow> string \<Rightarrow> options \<Rightarrow> sslScopeKind \<Rightarrow> optOutcome" where
  "optSub SubKey = optKey"
| "optSub SubCert = optCert"
| "optSub SubCa = optCa"
| "optSub SubVerify = optVerify"
| "optSub SubSignca = optSignca"
| "optSub SubServername = optServername"
| "optSub SubUser = optUser"

lemmas optSub_defs = optKey_def optCert_def optCa_def optVerify_def optSignca_def
  optServername_def optUser_def

fun optionStep :: "optTok \<Rightarrow> options \<Rightarrow> sslScopeKind \<Rightarrow> optOutcome" where
  "optionStep TokHelp opts scope = Next (opts\<lparr>o_help := True\<rparr>) scope"
| "optionStep TokVersion opts scope = Next (opts\<lparr>o_version := True\<rparr>) scope"
| "optionStep TokVerbose opts scope = Next (opts\<lparr>o_verbose := True\<rparr>) scope"
| "optionStep (TokLevel lvl) opts scope =
     Next (if lvl > o_logLevel opts then opts\<lparr>o_logLevel := lvl\<rparr> else opts) scope"
| "optionStep (TokBlock b) opts scope = openBlock b opts"
| "optionStep (TokSub sub val) opts scope = optSub sub val opts scope"
| "optionStep TokOther opts scope = Stop"

section \<open>The loop\<close>

definition initOptions :: options where
  "initOptions =
     \<lparr>o_q = \<lparr>s_keyPath = '''', s_certPath = '''', s_caPath = '''', s_verify = True, s_seen = False\<rparr>,
      o_z = \<lparr>s_keyPath = '''', s_certPath = '''', s_caPath = '''', s_verify = True, s_seen = False\<rparr>,
      o_m = \<lparr>m_signCAPath = '''', m_serverName = '''', m_caPath = '''', m_verify = True, m_seen = False\<rparr>,
      o_f = \<lparr>f_user = '''', f_pass = '''', f_userSeen = False, f_seen = False\<rparr>,
      o_help = False, o_version = False, o_logLevel = 0, o_verbose = False\<rparr>"

fun extractLoop ::
  "options \<Rightarrow> sslScopeKind \<Rightarrow> string list \<Rightarrow> (config_error, options \<times> string list) result" where
  "extractLoop opts scope [] = Inr (opts, [])"
| "extractLoop opts scope (tok # args) =
     (case optionStep (classifyTok tok) opts scope of
        Stop \<Rightarrow> Inr (opts, tok # args)
      | Fail e \<Rightarrow> Inl (OptionErr e)
      | Next opts' scope' \<Rightarrow> extractLoop opts' scope' args)"

definition extractOptions :: "string list \<Rightarrow> (config_error, options \<times> string list) result" where
  "extractOptions args = extractLoop initOptions scopeNone args"

section \<open>Scopes along the tokens\<close>

text \<open>Which scope a token is read in depends on the tokens before it alone.\<close>

fun blockScope :: "block \<Rightarrow> sslScopeKind" where
  "blockScope BlockQ = scopeQ"
| "blockScope BlockZ = scopeZ"
| "blockScope BlockM = scopeM"
| "blockScope BlockF = scopeF"

fun nextScope :: "sslScopeKind \<Rightarrow> optTok \<Rightarrow> sslScopeKind" where
  "nextScope s (TokBlock b) = blockScope b"
| "nextScope s t = s"

fun scoped :: "sslScopeKind \<Rightarrow> string list \<Rightarrow> (sslScopeKind \<times> optTok) list" where
  "scoped s [] = []"
| "scoped s (tok # toks) = (s, classifyTok tok) # scoped (nextScope s (classifyTok tok)) toks"

lemma openBlock_Next: "openBlock b opts = Next opts' s \<Longrightarrow> s = blockScope b"
  by (cases b) (auto split: if_splits)

lemma optSub_Next: "optSub sub v opts s = Next opts' s' \<Longrightarrow> s' = s"
  by (cases sub)
    (auto simp: optSub_defs Let_def split: sslScopeKind.splits if_splits prod.splits)

lemma optionStep_scope: "optionStep t opts s = Next opts' s' \<Longrightarrow> s' = nextScope s t"
  by (cases t) (auto dest: openBlock_Next optSub_Next)

lemma optionStep_Stop: "optionStep t opts s = Stop \<longleftrightarrow> t = TokOther"
proof (cases t)
  case (TokBlock b)
  then show ?thesis by (cases b) auto
next
  case (TokSub sub v)
  then show ?thesis
    by (cases sub) (auto simp: optSub_defs Let_def split: sslScopeKind.splits if_splits prod.splits)
qed auto

text \<open>
  A successful walk splits the arguments: a prefix of option tokens, each one taken, and the rest,
  which starts with a token that is no option.
\<close>

inductive walk :: "options \<Rightarrow> sslScopeKind \<Rightarrow> string list \<Rightarrow> options \<Rightarrow> sslScopeKind \<Rightarrow> bool" where
  walk_Nil: "walk opts s [] opts s"
| walk_Cons: "optionStep (classifyTok tok) opts s = Next opts1 s1 \<Longrightarrow> walk opts1 s1 toks opts' s'
    \<Longrightarrow> walk opts s (tok # toks) opts' s'"

inductive_cases walk_ConsE: "walk opts s (tok # toks) opts' s'"
inductive_simps walk_Nil_iff [simp]: "walk opts s [] opts' s'"

lemma extractLoop_walk:
  "extractLoop opts s args = Inr (opts', rest) \<Longrightarrow>
   \<exists>toks s'. args = toks @ rest \<and> walk opts s toks opts' s' \<and>
     (\<forall>t \<in> set toks. classifyTok t \<noteq> TokOther) \<and> (rest \<noteq> [] \<longrightarrow> classifyTok (hd rest) = TokOther)"
proof (induction opts s args rule: extractLoop.induct)
  case (1 opts s)
  then show ?case by (auto intro: walk_Nil)
next
  case (2 opts s tok args)
  show ?case
  proof (cases "optionStep (classifyTok tok) opts s")
    case Stop
    with "2.prems" show ?thesis
      by (auto simp: optionStep_Stop intro: walk_Nil)
  next
    case (Fail e)
    with "2.prems" show ?thesis by simp
  next
    case (Next opts1 s1)
    with 2 obtain toks s' where "args = toks @ rest" "walk opts1 s1 toks opts' s'"
      "\<forall>t \<in> set toks. classifyTok t \<noteq> TokOther" "rest \<noteq> [] \<longrightarrow> classifyTok (hd rest) = TokOther"
      by auto
    with Next optionStep_Stop [of "classifyTok tok" opts s] show ?thesis
      by (intro exI [of _ "tok # toks"] exI [of _ s']) (auto intro: walk_Cons)
  qed
qed

section \<open>Path sub-options: one contract for nine fields\<close>

text \<open>
  A path sub-option is a string field of the options that starts empty, that its own sub-option sets
  in its own scope (failing when it is already non-empty) and that no other token touches.
\<close>

locale path_option =
  fixes get :: "options \<Rightarrow> string" and sub :: subopt and sc :: sslScopeKind
  assumes get_init: "get initOptions = ''''"
    and get_hit: "optSub sub v opts sc = Next opts' s' \<Longrightarrow> get opts = '''' \<and> get opts' = v"
    and get_miss: "optionStep t opts s = Next opts' s' \<Longrightarrow> \<not> (s = sc \<and> (\<exists>v. t = TokSub sub v))
      \<Longrightarrow> get opts' = get opts"
begin

lemma get_walk:
  assumes "walk opts s toks opts' s'" "v \<noteq> ''''"
  shows "get opts' = v \<longleftrightarrow> get opts = v \<or> (sc, TokSub sub v) \<in> set (scoped s toks)"
  using assms(1)
proof (induction rule: walk.induct)
  case (walk_Nil opts s)
  then show ?case by simp
next
  case (walk_Cons tok opts s opts1 s1 toks opts' s')
  have s1: "s1 = nextScope s (classifyTok tok)"
    using walk_Cons.hyps(1) by (rule optionStep_scope)
  show ?case
  proof (cases "s = sc \<and> (\<exists>w. classifyTok tok = TokSub sub w)")
    case True
    then obtain w where w: "s = sc" "classifyTok tok = TokSub sub w" by blast
    with walk_Cons.hyps(1) have "get opts = ''''" "get opts1 = w"
      using get_hit [of w opts opts1 s1] by auto
    with w s1 walk_Cons.IH assms(2) show ?thesis by auto
  next
    case False
    with walk_Cons.hyps(1) have "get opts1 = get opts" by (rule get_miss)
    with False s1 walk_Cons.IH show ?thesis by (auto simp del: nextScope.simps dest: sym)
  qed
qed

lemma get_extract:
  assumes "walk initOptions scopeNone toks opts s'" "v \<noteq> ''''"
  shows "get opts = v \<longleftrightarrow> (sc, TokSub sub v) \<in> set (scoped scopeNone toks)"
  using get_walk [OF assms] assms(2) get_init by auto

end

lemma openBlock_keeps:
  assumes "openBlock b opts = Next opts' s'"
  shows "s_keyPath (o_q opts') = s_keyPath (o_q opts)" "s_keyPath (o_z opts') = s_keyPath (o_z opts)"
    "s_certPath (o_q opts') = s_certPath (o_q opts)" "s_certPath (o_z opts') = s_certPath (o_z opts)"
    "s_caPath (o_q opts') = s_caPath (o_q opts)" "s_caPath (o_z opts') = s_caPath (o_z opts)"
    "m_caPath (o_m opts') = m_caPath (o_m opts)"
    "m_signCAPath (o_m opts') = m_signCAPath (o_m opts)"
    "m_serverName (o_m opts') = m_serverName (o_m opts)"
    "s_verify (o_q opts') = s_verify (o_q opts)" "s_verify (o_z opts') = s_verify (o_z opts)"
    "m_verify (o_m opts') = m_verify (o_m opts)"
    "o_logLevel opts' = o_logLevel opts" "o_help opts' = o_help opts"
    "o_version opts' = o_version opts" "o_verbose opts' = o_verbose opts"
    "f_user (o_f opts') = f_user (o_f opts)" "f_pass (o_f opts') = f_pass (o_f opts)"
    "f_userSeen (o_f opts') = f_userSeen (o_f opts)"
  using assms by (cases b; auto split: if_splits)+

text \<open>A sub-option writes at most the field of its own scope: everything else is as before.\<close>

lemma optSub_keeps:
  assumes "optSub sub v opts s = Next opts' s'"
  shows
    "\<not> (sub = SubKey \<and> s = scopeQ) \<Longrightarrow> s_keyPath (o_q opts') = s_keyPath (o_q opts)"
    "\<not> (sub = SubCert \<and> s = scopeQ) \<Longrightarrow> s_certPath (o_q opts') = s_certPath (o_q opts)"
    "\<not> (sub = SubCa \<and> s = scopeQ) \<Longrightarrow> s_caPath (o_q opts') = s_caPath (o_q opts)"
    "\<not> (sub = SubKey \<and> s = scopeZ) \<Longrightarrow> s_keyPath (o_z opts') = s_keyPath (o_z opts)"
    "\<not> (sub = SubCert \<and> s = scopeZ) \<Longrightarrow> s_certPath (o_z opts') = s_certPath (o_z opts)"
    "\<not> (sub = SubCa \<and> s = scopeZ) \<Longrightarrow> s_caPath (o_z opts') = s_caPath (o_z opts)"
    "\<not> (sub = SubCa \<and> s = scopeM) \<Longrightarrow> m_caPath (o_m opts') = m_caPath (o_m opts)"
    "\<not> (sub = SubSignca \<and> s = scopeM) \<Longrightarrow> m_signCAPath (o_m opts') = m_signCAPath (o_m opts)"
    "\<not> (sub = SubServername \<and> s = scopeM) \<Longrightarrow> m_serverName (o_m opts') = m_serverName (o_m opts)"
    "\<not> (sub = SubVerify \<and> s = scopeQ) \<Longrightarrow> s_verify (o_q opts') = s_verify (o_q opts)"
    "\<not> (sub = SubVerify \<and> s = scopeZ) \<Longrightarrow> s_verify (o_z opts') = s_verify (o_z opts)"
    "\<not> (sub = SubVerify \<and> s = scopeM) \<Longrightarrow> m_verify (o_m opts') = m_verify (o_m opts)"
    "o_logLevel opts' = o_logLevel opts"
    "o_help opts' = o_help opts"
    "o_version opts' = o_version opts"
    "o_verbose opts' = o_verbose opts"
    "s_seen (o_q opts') = s_seen (o_q opts)"
    "s_seen (o_z opts') = s_seen (o_z opts)"
    "m_seen (o_m opts') = m_seen (o_m opts)"
    "f_seen (o_f opts') = f_seen (o_f opts)"
    "sub \<noteq> SubUser \<Longrightarrow> f_user (o_f opts') = f_user (o_f opts)"
    "sub \<noteq> SubUser \<Longrightarrow> f_pass (o_f opts') = f_pass (o_f opts)"
    "sub \<noteq> SubUser \<Longrightarrow> f_userSeen (o_f opts') = f_userSeen (o_f opts)"
  using assms
  by (cases sub; cases s; auto simp: optSub_defs Let_def split: if_splits prod.splits)+

lemma optionStep_keeps:
  assumes "\<And>b opts opts' s'. openBlock b opts = Next opts' s' \<Longrightarrow> g opts' = g opts"
    and "\<And>sub v opts s opts' s'. optSub sub v opts s = Next opts' s' \<Longrightarrow> \<not> (sub = sub0 \<and> s = sc) \<Longrightarrow> g opts' = g opts"
    and "\<And>opts. g (opts\<lparr>o_help := True\<rparr>) = g opts" "\<And>opts. g (opts\<lparr>o_version := True\<rparr>) = g opts"
    "\<And>opts. g (opts\<lparr>o_verbose := True\<rparr>) = g opts" "\<And>opts l. g (opts\<lparr>o_logLevel := l\<rparr>) = g opts"
    and "optionStep t opts s = Next opts' s'" "\<not> (s = sc \<and> (\<exists>v. t = TokSub sub0 v))"
  shows "g opts' = g opts"
  using assms(7,8) by (cases t) (auto simp: assms(3-6) intro: assms(1,2))

interpretation q_key: path_option "\<lambda>opts. s_keyPath (o_q opts)" SubKey scopeQ
proof (unfold_locales, goal_cases)
  case (3 t opts s opts' s')
  then show ?case
    by (rule optionStep_keeps [rotated 6, where g = "\<lambda>opts. s_keyPath (o_q opts)"]) (auto dest: openBlock_keeps optSub_keeps)
qed (auto simp: initOptions_def optSub_defs split: if_splits)

interpretation q_cert: path_option "\<lambda>opts. s_certPath (o_q opts)" SubCert scopeQ
proof (unfold_locales, goal_cases)
  case (3 t opts s opts' s')
  then show ?case
    by (rule optionStep_keeps [rotated 6, where g = "\<lambda>opts. s_certPath (o_q opts)"]) (auto dest: openBlock_keeps optSub_keeps)
qed (auto simp: initOptions_def optSub_defs split: if_splits)

interpretation q_ca: path_option "\<lambda>opts. s_caPath (o_q opts)" SubCa scopeQ
proof (unfold_locales, goal_cases)
  case (3 t opts s opts' s')
  then show ?case
    by (rule optionStep_keeps [rotated 6, where g = "\<lambda>opts. s_caPath (o_q opts)"]) (auto dest: openBlock_keeps optSub_keeps)
qed (auto simp: initOptions_def optSub_defs split: if_splits)

interpretation z_key: path_option "\<lambda>opts. s_keyPath (o_z opts)" SubKey scopeZ
proof (unfold_locales, goal_cases)
  case (3 t opts s opts' s')
  then show ?case
    by (rule optionStep_keeps [rotated 6, where g = "\<lambda>opts. s_keyPath (o_z opts)"]) (auto dest: openBlock_keeps optSub_keeps)
qed (auto simp: initOptions_def optSub_defs split: if_splits)

interpretation z_cert: path_option "\<lambda>opts. s_certPath (o_z opts)" SubCert scopeZ
proof (unfold_locales, goal_cases)
  case (3 t opts s opts' s')
  then show ?case
    by (rule optionStep_keeps [rotated 6, where g = "\<lambda>opts. s_certPath (o_z opts)"]) (auto dest: openBlock_keeps optSub_keeps)
qed (auto simp: initOptions_def optSub_defs split: if_splits)

interpretation z_ca: path_option "\<lambda>opts. s_caPath (o_z opts)" SubCa scopeZ
proof (unfold_locales, goal_cases)
  case (3 t opts s opts' s')
  then show ?case
    by (rule optionStep_keeps [rotated 6, where g = "\<lambda>opts. s_caPath (o_z opts)"]) (auto dest: openBlock_keeps optSub_keeps)
qed (auto simp: initOptions_def optSub_defs split: if_splits)

interpretation m_ca: path_option "\<lambda>opts. m_caPath (o_m opts)" SubCa scopeM
proof (unfold_locales, goal_cases)
  case (3 t opts s opts' s')
  then show ?case
    by (rule optionStep_keeps [rotated 6, where g = "\<lambda>opts. m_caPath (o_m opts)"]) (auto dest: openBlock_keeps optSub_keeps)
qed (auto simp: initOptions_def optSub_defs split: if_splits)

interpretation m_signca: path_option "\<lambda>opts. m_signCAPath (o_m opts)" SubSignca scopeM
proof (unfold_locales, goal_cases)
  case (3 t opts s opts' s')
  then show ?case
    by (rule optionStep_keeps [rotated 6, where g = "\<lambda>opts. m_signCAPath (o_m opts)"]) (auto dest: openBlock_keeps optSub_keeps)
qed (auto simp: initOptions_def optSub_defs split: if_splits)

interpretation m_servername: path_option "\<lambda>opts. m_serverName (o_m opts)" SubServername scopeM
proof (unfold_locales, goal_cases)
  case (3 t opts s opts' s')
  then show ?case
    by (rule optionStep_keeps [rotated 6, where g = "\<lambda>opts. m_serverName (o_m opts)"]) (auto dest: openBlock_keeps optSub_keeps)
qed (auto simp: initOptions_def optSub_defs split: if_splits)


section \<open>Blocks, the verify flags, the levels and the user\<close>

text \<open>Each block token is accepted at most once, and the block's \<open>seen\<close> flag says whether it was.\<close>

locale block_option =
  fixes seen :: "options \<Rightarrow> bool" and b :: block
  assumes seen_init: "\<not> seen initOptions"
    and seen_hit: "openBlock b opts = Next opts' s' \<Longrightarrow> \<not> seen opts \<and> seen opts'"
    and seen_miss: "optionStep t opts s = Next opts' s' \<Longrightarrow> t \<noteq> TokBlock b \<Longrightarrow> seen opts' = seen opts"
begin

lemma seen_walk:
  "walk opts s toks opts' s' \<Longrightarrow>
   of_bool (seen opts') = of_bool (seen opts) + length (filter (\<lambda>t. classifyTok t = TokBlock b) toks)"
proof (induction rule: walk.induct)
  case (walk_Cons tok opts s opts1 s1 toks opts' s')
  then show ?case
    using seen_hit [of opts opts1 s1] seen_miss [of "classifyTok tok" opts s opts1 s1]
    by (cases "classifyTok tok = TokBlock b") auto
qed simp

lemma seen_extract:
  "walk initOptions scopeNone toks opts s' \<Longrightarrow>
   length (filter (\<lambda>t. classifyTok t = TokBlock b) toks) = of_bool (seen opts)"
  using seen_walk seen_init by fastforce

end

lemma openBlock_seen:
  assumes "openBlock c opts = Next opts' s'"
  shows "c \<noteq> BlockQ \<Longrightarrow> s_seen (o_q opts') = s_seen (o_q opts)"
    "c \<noteq> BlockZ \<Longrightarrow> s_seen (o_z opts') = s_seen (o_z opts)"
    "c \<noteq> BlockM \<Longrightarrow> m_seen (o_m opts') = m_seen (o_m opts)"
    "c \<noteq> BlockF \<Longrightarrow> f_seen (o_f opts') = f_seen (o_f opts)"
  using assms by (cases c; auto split: if_splits)+

interpretation seen_q: block_option "\<lambda>opts. s_seen (o_q opts)" BlockQ
proof (unfold_locales, goal_cases)
  case (3 t opts s opts' s')
  then show ?case by (cases t) (auto dest: openBlock_seen optSub_keeps split: if_splits)
qed (auto simp: initOptions_def split: if_splits)

interpretation seen_z: block_option "\<lambda>opts. s_seen (o_z opts)" BlockZ
proof (unfold_locales, goal_cases)
  case (3 t opts s opts' s')
  then show ?case by (cases t) (auto dest: openBlock_seen optSub_keeps split: if_splits)
qed (auto simp: initOptions_def split: if_splits)

interpretation seen_m: block_option "\<lambda>opts. m_seen (o_m opts)" BlockM
proof (unfold_locales, goal_cases)
  case (3 t opts s opts' s')
  then show ?case by (cases t) (auto dest: openBlock_seen optSub_keeps split: if_splits)
qed (auto simp: initOptions_def split: if_splits)

interpretation seen_f: block_option "\<lambda>opts. f_seen (o_f opts)" BlockF
proof (unfold_locales, goal_cases)
  case (3 t opts s opts' s')
  then show ?case by (cases t) (auto dest: openBlock_seen optSub_keeps split: if_splits)
qed (auto simp: initOptions_def split: if_splits)

text \<open>The values a sub-option is given in a scope, in the order of the tokens.\<close>

fun subValsFrom :: "sslScopeKind \<Rightarrow> subopt \<Rightarrow> sslScopeKind \<Rightarrow> string list \<Rightarrow> string list" where
  "subValsFrom s sub sc [] = []"
| "subValsFrom s sub sc (tok # toks) =
     (case classifyTok tok of
        TokSub u v \<Rightarrow> if u = sub \<and> s = sc then v # subValsFrom s sub sc toks else subValsFrom s sub sc toks
      | t \<Rightarrow> subValsFrom (nextScope s t) sub sc toks)"

definition subVals :: "subopt \<Rightarrow> block \<Rightarrow> string list \<Rightarrow> string list" where
  "subVals sub b toks = subValsFrom scopeNone sub (blockScope b) toks"

lemma subValsFrom_scoped:
  "v \<in> set (subValsFrom s sub sc toks) \<longleftrightarrow> (sc, TokSub sub v) \<in> set (scoped s toks)"
  by (induction s sub sc toks rule: subValsFrom.induct) (auto split: optTok.splits)

locale verify_option =
  fixes get :: "options \<Rightarrow> bool" and sc :: sslScopeKind
  assumes get_init: "get initOptions"
    and get_hit: "optSub SubVerify v opts sc = Next opts' s' \<Longrightarrow> get opts' = (v \<noteq> ''0'')"
    and get_miss: "optionStep t opts s = Next opts' s' \<Longrightarrow> \<not> (s = sc \<and> (\<exists>v. t = TokSub SubVerify v))
      \<Longrightarrow> get opts' = get opts"
begin

lemma get_walk:
  "walk opts s toks opts' s' \<Longrightarrow>
   get opts' = (let vs = subValsFrom s SubVerify sc toks in if vs = [] then get opts else last vs \<noteq> ''0'')"
proof (induction rule: walk.induct)
  case (walk_Cons tok opts s opts1 s1 toks opts' s')
  have s1: "s1 = nextScope s (classifyTok tok)"
    using walk_Cons.hyps(1) by (rule optionStep_scope)
  show ?case
  proof (cases "s = sc \<and> (\<exists>w. classifyTok tok = TokSub SubVerify w)")
    case True
    then obtain w where w: "s = sc" "classifyTok tok = TokSub SubVerify w" by blast
    with walk_Cons.hyps(1) have "get opts1 = (w \<noteq> ''0'')"
      using get_hit [of w opts opts1 s1] by auto
    with w s1 walk_Cons.IH show ?thesis by (simp add: Let_def)
  next
    case False
    with walk_Cons.hyps(1) have "get opts1 = get opts" by (rule get_miss)
    moreover have "subValsFrom s SubVerify sc (tok # toks) = subValsFrom s1 SubVerify sc toks"
      using False s1 by (cases "classifyTok tok") auto
    ultimately show ?thesis using walk_Cons.IH by simp
  qed
qed simp

lemma get_extract:
  "walk initOptions scopeNone toks opts s' \<Longrightarrow>
   get opts \<longleftrightarrow> (let vs = subValsFrom scopeNone SubVerify sc toks in vs = [] \<or> last vs \<noteq> ''0'')"
  using get_walk [of initOptions scopeNone toks opts s'] get_init by (auto simp: Let_def)

end

interpretation q_verify: verify_option "\<lambda>opts. s_verify (o_q opts)" scopeQ
proof (unfold_locales, goal_cases)
  case (3 t opts s opts' s')
  then show ?case
    by (rule optionStep_keeps [rotated 6, where g = "\<lambda>opts. s_verify (o_q opts)"])
      (auto dest: openBlock_keeps optSub_keeps)
qed (auto simp: initOptions_def optSub_defs)

interpretation z_verify: verify_option "\<lambda>opts. s_verify (o_z opts)" scopeZ
proof (unfold_locales, goal_cases)
  case (3 t opts s opts' s')
  then show ?case
    by (rule optionStep_keeps [rotated 6, where g = "\<lambda>opts. s_verify (o_z opts)"])
      (auto dest: openBlock_keeps optSub_keeps)
qed (auto simp: initOptions_def optSub_defs)

interpretation m_verify: verify_option "\<lambda>opts. m_verify (o_m opts)" scopeM
proof (unfold_locales, goal_cases)
  case (3 t opts s opts' s')
  then show ?case
    by (rule optionStep_keeps [rotated 6, where g = "\<lambda>opts. m_verify (o_m opts)"])
      (auto dest: openBlock_keeps optSub_keeps)
qed (auto simp: initOptions_def optSub_defs)

lemma classifyTok_level:
  "logLevelTokens tok = (case classifyTok tok of TokLevel l \<Rightarrow> l | _ \<Rightarrow> 0)"
  by (auto simp: classifyTok_def logLevelTokens_def)

lemma optionStep_level:
  assumes "optionStep t opts s = Next opts' s'" "0 \<le> o_logLevel opts"
  shows "o_logLevel opts' = max (o_logLevel opts) (case t of TokLevel l \<Rightarrow> l | _ \<Rightarrow> 0)"
  using assms by (cases t) (auto dest: openBlock_keeps optSub_keeps)

lemma logLevelTokens_range: "0 \<le> logLevelTokens tok \<and> logLevelTokens tok \<le> 3"
  by (simp add: logLevelTokens_def)

lemma walk_level:
  "walk opts s toks opts' s' \<Longrightarrow> 0 \<le> o_logLevel opts \<Longrightarrow>
   o_logLevel opts' = fold (\<lambda>t l. max l (logLevelTokens t)) toks (o_logLevel opts)"
  by (induction rule: walk.induct)
    (auto simp: classifyTok_level optionStep_level max.assoc le_max_iff_disj)

lemma fold_max_Max:
  "fold (\<lambda>t l. max l (f t)) xs (a :: int) = Max (insert a (f ` set xs))"
proof (induction xs arbitrary: a)
  case (Cons x xs)
  then show ?case
    by (cases "xs = []") (auto simp: Max_insert max.assoc)
qed simp

text \<open>Once \<open>-user=\<close> has been taken, no later token changes the credentials.\<close>

lemma optionStep_user_fixed:
  assumes "optionStep t opts s = Next opts' s'" "f_userSeen (o_f opts)"
  shows "f_userSeen (o_f opts') \<and> f_user (o_f opts') = f_user (o_f opts) \<and> f_pass (o_f opts') = f_pass (o_f opts)"
proof (cases t)
  case (TokSub sub v)
  with assms show ?thesis
    by (cases "sub = SubUser") (auto simp: optUser_def dest: optSub_keeps split: if_splits)
qed (use assms in \<open>auto dest: openBlock_keeps\<close>)

lemma walk_user_fixed:
  "walk opts s toks opts' s' \<Longrightarrow> f_userSeen (o_f opts) \<Longrightarrow>
   f_userSeen (o_f opts') \<and> f_user (o_f opts') = f_user (o_f opts) \<and> f_pass (o_f opts') = f_pass (o_f opts)"
  by (induction rule: walk.induct) (auto dest: optionStep_user_fixed)

lemma walk_user:
  assumes "walk opts s toks opts' s'"
    "f_userSeen (o_f opts) \<longrightarrow> f_user (o_f opts) \<noteq> '''' \<and> CHR '':'' \<notin> set (f_user (o_f opts))"
    "\<not> f_userSeen (o_f opts) \<longrightarrow> f_user (o_f opts) = '''' \<and> f_pass (o_f opts) = ''''"
  shows "(f_userSeen (o_f opts') \<longrightarrow> f_user (o_f opts') \<noteq> '''' \<and> CHR '':'' \<notin> set (f_user (o_f opts'))
      \<and> (f_userSeen (o_f opts) \<or> (scopeF, TokSub SubUser (f_user (o_f opts') @ CHR '':'' # f_pass (o_f opts')))
            \<in> set (scoped s toks)))
    \<and> (\<not> f_userSeen (o_f opts') \<longrightarrow> f_user (o_f opts') = '''' \<and> f_pass (o_f opts') = '''')"
  using assms
proof (induction rule: walk.induct)
  case (walk_Cons tok opts s opts1 s1 toks opts' s')
  have s1: "s1 = nextScope s (classifyTok tok)"
    using walk_Cons.hyps(1) by (rule optionStep_scope)
  show ?case
  proof (cases "\<exists>v. classifyTok tok = TokSub SubUser v")
    case True
    then obtain v where v: "classifyTok tok = TokSub SubUser v" by blast
    with walk_Cons.hyps(1) obtain user pass where "s = scopeF" "\<not> f_userSeen (o_f opts)" "user \<noteq> ''''"
      and cut: "Cut v CHR '':'' = (user, pass, True)"
      and o1: "opts1 = opts\<lparr>o_f := (o_f opts)\<lparr>f_user := user, f_pass := pass, f_userSeen := True\<rparr>\<rparr>"
      by (auto simp: optUser_def split: if_splits prod.splits)
    from Cut_TrueD [OF cut] have "v = user @ CHR '':'' # pass" "CHR '':'' \<notin> set user" by auto
    moreover have "f_user (o_f opts') = user" "f_pass (o_f opts') = pass"
      using walk_user_fixed [OF walk_Cons.hyps(2)] o1 by auto
    ultimately show ?thesis
      using walk_Cons v o1 \<open>s = scopeF\<close> \<open>user \<noteq> ''''\<close> by auto
  next
    case False
    then have "f_user (o_f opts1) = f_user (o_f opts)" "f_pass (o_f opts1) = f_pass (o_f opts)"
      "f_userSeen (o_f opts1) = f_userSeen (o_f opts)"
      using walk_Cons.hyps(1)
      by (cases "classifyTok tok"; auto dest: openBlock_keeps optSub_keeps split: if_splits)+
    with walk_Cons s1 False show ?thesis by auto
  qed
qed auto

text \<open>The values of \<open>-user=\<close> in the \<open>-F\<close> block: the one that was taken, and no other.\<close>

lemma walk_userVals:
  "walk opts s toks opts' s' \<Longrightarrow>
   subValsFrom s SubUser scopeF toks =
     (if f_userSeen (o_f opts') \<and> \<not> f_userSeen (o_f opts) then [f_user (o_f opts') @ CHR '':'' # f_pass (o_f opts')] else [])"
proof (induction rule: walk.induct)
  case (walk_Cons tok opts s opts1 s1 toks opts' s')
  have s1: "s1 = nextScope s (classifyTok tok)"
    using walk_Cons.hyps(1) by (rule optionStep_scope)
  show ?case
  proof (cases "\<exists>v. classifyTok tok = TokSub SubUser v")
    case True
    then obtain v where v: "classifyTok tok = TokSub SubUser v" by blast
    with walk_Cons.hyps(1) obtain user pass where u: "s = scopeF" "\<not> f_userSeen (o_f opts)" "Cut v CHR '':'' = (user, pass, True)"
      and o1: "opts1 = opts\<lparr>o_f := (o_f opts)\<lparr>f_user := user, f_pass := pass, f_userSeen := True\<rparr>\<rparr>"
      by (auto simp: optUser_def split: if_splits prod.splits)
    have "v = user @ CHR '':'' # pass" using Cut_TrueD [OF u(3)] by simp
    then show ?thesis
      using walk_user_fixed [OF walk_Cons.hyps(2)] walk_Cons.IH v u(1,2) o1 s1 by simp
  next
    case False
    then have "f_userSeen (o_f opts1) = f_userSeen (o_f opts)"
      using walk_Cons.hyps(1)
      by (cases "classifyTok tok"; auto dest: openBlock_keeps optSub_keeps split: if_splits)
    moreover have "subValsFrom s SubUser scopeF (tok # toks) = subValsFrom s1 SubUser scopeF toks"
      using False s1 by (cases "classifyTok tok") auto
    ultimately show ?thesis using walk_Cons.IH by simp
  qed
qed simp

lemma classifyTok_global:
  "classifyTok tok = TokHelp \<longleftrightarrow> tok = ''-help''" "classifyTok tok = TokVersion \<longleftrightarrow> tok = ''-version''"
  "classifyTok tok = TokVerbose \<longleftrightarrow> tok = ''-v''"
  by (auto simp: classifyTok_def)

lemma walk_global:
  "walk opts s toks opts' s' \<Longrightarrow>
   (o_help opts' \<longleftrightarrow> o_help opts \<or> ''-help'' \<in> set toks) \<and> (o_version opts' \<longleftrightarrow> o_version opts \<or> ''-version'' \<in> set toks) \<and>
   (o_verbose opts' \<longleftrightarrow> o_verbose opts \<or> ''-v'' \<in> set toks)"
proof (induction rule: walk.induct)
  case (walk_Cons tok opts s opts1 s1 toks opts' s')
  have "(o_help opts1 \<longleftrightarrow> o_help opts \<or> tok = ''-help'') \<and> (o_version opts1 \<longleftrightarrow> o_version opts \<or> tok = ''-version'') \<and>
      (o_verbose opts1 \<longleftrightarrow> o_verbose opts \<or> tok = ''-v'')"
    unfolding classifyTok_global [symmetric]
    using walk_Cons.hyps(1) by (cases "classifyTok tok") (auto dest: openBlock_keeps optSub_keeps split: if_splits)
  with walk_Cons.IH show ?case by auto
qed simp


end
