(* ===== verification/Config_Address.thy ===== *)
theory Config_Address
  imports Config_Types
begin

text \<open>
  The address and suffix grammar of \<open>parse.go\<close>: \<open>normalizeAddr\<close> with its helpers, the protocol
  suffixes of an endpoint, and the proxy keywords. The lemmas say what an accepted token looks like:
  a normalized address is stable under normalization and splits back into the host and port it was
  made of, and the suffixes an endpoint accepts are exactly the strictly increasing keyword lists.
\<close>

section \<open>Addresses\<close>

definition isAllDigits :: "string \<Rightarrow> bool" where
  "isAllDigits s \<longleftrightarrow> s \<noteq> '''' \<and> list_all isDigit s"

definition validatePort :: "string \<Rightarrow> (address_error, unit) result" where
  "validatePort p =
     (case Atoi p of
        None \<Rightarrow> Inl (InvalidPort p)
      | Some n \<Rightarrow> if n < 1 \<or> n > 65535 then Inl (PortOutOfRange n) else Inr ())"

definition normalizeAddr :: "string \<Rightarrow> bool \<Rightarrow> (address_error, string) result" where
  "normalizeAddr tok isTarget =
     (if tok = '''' then Inl EmptyAddress
      else if \<not> ContainsByte tok CHR '':'' then
        (if \<not> isAllDigits tok then Inl (AddressMissingPort tok)
         else if isTarget then Inl (TargetNeedsPort tok)
         else bindR (validatePort tok) (\<lambda>_. Inr (''0.0.0.0:'' @ tok)))
      else
        (case SplitHostPort tok of
           Inl e \<Rightarrow> Inl (InvalidAddress tok e)
         | Inr (host, port) \<Rightarrow>
             bindR (validatePort port) (\<lambda>_.
               if host = '''' then
                 (if isTarget then Inl (TargetNeedsHost tok)
                  else Inr (JoinHostPort ''0.0.0.0'' port))
               else Inr (JoinHostPort host port))))"

section \<open>Proxy keywords\<close>

definition matchKeyword :: "string \<Rightarrow> string \<Rightarrow> bool" where
  "matchKeyword tok word \<longleftrightarrow> tok = ToUpper word \<or> tok = ToLower word"

definition proxyMode :: "string \<Rightarrow> mode option" where
  "proxyMode tok =
     (if matchKeyword tok ''proxy'' then Some ModeHTTPProxy
      else if matchKeyword tok ''socks'' then Some ModeSOCKSProxy
      else None)"

text \<open>The address token, and the frontend mode when the token carries a suffix.\<close>

definition splitProxyListenSuffix :: "string \<Rightarrow> (suffix_error, string \<times> mode option) result" where
  "splitProxyListenSuffix tok =
     (let idx = IndexByte tok CHR ''/'' in
      if idx < 0 then Inr (tok, None)
      else
        (let addrTok = sliceTo tok idx; suffix = sliceFrom tok (idx + 1) in
         if ContainsByte suffix CHR ''/'' then Inl (ListenSuffixNotSingle tok)
         else
           (case proxyMode suffix of
              None \<Rightarrow> Inl (ListenSuffixUnknown suffix tok)
            | Some m \<Rightarrow> Inr (addrTok, Some m))))"

text \<open>
  The four results \<open>(mode, upstream, ok, err)\<close>: not a proxy target (\<open>ok\<close> false), a proxy target with
  an invalid upstream address, or a proxy target.
\<close>

datatype proxyClass = NotProxy | BadProxy config_error | Proxy mode string

definition classifyProxyTarget :: "string \<Rightarrow> proxyClass" where
  "classifyProxyTarget targetTok =
     (case proxyMode targetTok of
        Some m \<Rightarrow> Proxy m ''''
      | None \<Rightarrow>
          (let idx = IndexByte targetTok CHR ''/'' in
           if idx < 0 then NotProxy
           else
             (let addrTok = sliceTo targetTok idx; suffix = sliceFrom targetTok (idx + 1) in
              if ContainsByte suffix CHR ''/'' then NotProxy
              else
                (case proxyMode suffix of
                   None \<Rightarrow> NotProxy
                 | Some m \<Rightarrow>
                     (case normalizeAddr addrTok True of
                        Inl e \<Rightarrow> BadProxy (InvalidUpstream addrTok (AddressErr e))
                      | Inr addr \<Rightarrow> Proxy m addr)))))"

section \<open>Endpoints\<close>

record parsedEndpoint =
  pe_ep :: Endpoint
  pe_tcp :: bool
  pe_udp :: bool

definition setSuffix :: "string \<Rightarrow> parsedEndpoint \<Rightarrow> parsedEndpoint" where
  "setSuffix upper pe =
     (if upper = ''TCP'' then pe\<lparr>pe_tcp := True\<rparr>
      else if upper = ''UDP'' then pe\<lparr>pe_udp := True\<rparr>
      else if upper = ''SSL'' then pe\<lparr>pe_ep := (pe_ep pe)\<lparr>SSL := True\<rparr>\<rparr>
      else pe)"

fun suffixLoop ::
  "string \<Rightarrow> bool \<Rightarrow> int \<Rightarrow> string set \<Rightarrow> parsedEndpoint \<Rightarrow> string list \<Rightarrow>
   (config_error, parsedEndpoint) result" where
  "suffixLoop tok isTarget lastIdx seen pe [] = Inr pe"
| "suffixLoop tok isTarget lastIdx seen pe (s # ss) =
     (if s = '''' then Inl (SuffixErr (EmptySuffix tok))
      else
        (let upper = ToUpper s in
         if s \<noteq> upper \<and> s \<noteq> ToLower s then Inl (SuffixErr (MixedCaseKeyword s))
         else
           (case keywordOrder upper of
              None \<Rightarrow> Inl (SuffixErr (UnknownSuffix s tok))
            | Some idx \<Rightarrow>
                if isTarget \<and> (upper = ''TCP'' \<or> upper = ''UDP'')
                then Inl (SuffixErr (SuffixOnTarget s tok))
                else if upper \<in> seen then Inl (SuffixErr (SuffixRepeated s tok))
                else if idx \<le> lastIdx then Inl (SuffixErr (SuffixOrder tok))
                else suffixLoop tok isTarget idx (insert upper seen) (setSuffix upper pe) ss)))"

definition splitEndpoint :: "string \<Rightarrow> string \<times> string list" where
  "splitEndpoint tok =
     (let idx = IndexByte tok CHR ''/'' in
      if idx \<ge> 0 then (sliceTo tok idx, splitByte CHR ''/'' (sliceFrom tok (idx + 1)))
      else (tok, []))"

definition parseEndpoint :: "string \<Rightarrow> bool \<Rightarrow> (config_error, parsedEndpoint) result" where
  "parseEndpoint tok isTarget =
     (case splitEndpoint tok of (addrTok, suffixToks) \<Rightarrow>
        (case normalizeAddr addrTok isTarget of
           Inl e \<Rightarrow> Inl (AddressErr e)
         | Inr addr \<Rightarrow>
             suffixLoop tok isTarget (- 1) {}
               \<lparr>pe_ep = zeroEndpoint\<lparr>Addr := addr\<rparr>, pe_tcp = False, pe_udp = False\<rparr> suffixToks))"

section \<open>What normalization gives\<close>

lemma validatePort_Inr: "validatePort p = Inr u \<longleftrightarrow> (\<exists>n. Atoi p = Some n \<and> 1 \<le> n \<and> n \<le> 65535)"
  by (auto simp: validatePort_def split: option.splits)

lemma isAllDigits_no_colon: "isAllDigits s \<Longrightarrow> CHR '':'' \<notin> set s \<and> noBrackets s"
  by (auto simp: isAllDigits_def list_all_iff noBrackets_def dest: isDigit_not_sign)

text \<open>The shape of a normalized address: a joined host and port, the port in range.\<close>

definition normalAddr :: "string \<Rightarrow> string \<Rightarrow> string \<Rightarrow> bool" where
  "normalAddr addr h p \<longleftrightarrow> addr = JoinHostPort h p \<and> h \<noteq> '''' \<and> noBrackets h \<and> noBrackets p
     \<and> CHR '':'' \<notin> set p \<and> validatePort p = Inr ()"

lemma normalAddr_split: "normalAddr addr h p \<Longrightarrow> SplitHostPort addr = Inr (h, p)"
  by (simp add: normalAddr_def)

lemma normalizeAddr_normal:
  assumes "normalizeAddr tok isTarget = Inr addr"
  shows "\<exists>h p. normalAddr addr h p"
proof (cases "ContainsByte tok CHR '':''")
  case False
  with assms have d: "isAllDigits tok" "validatePort tok = Inr ()" "addr = ''0.0.0.0:'' @ tok"
    by (auto simp: normalizeAddr_def split: if_splits)
  then have "normalAddr addr ''0.0.0.0'' tok"
    using isAllDigits_no_colon [of tok]
    by (auto simp: normalAddr_def JoinHostPort_def ContainsByte_def noBrackets_def)
  then show ?thesis by blast
next
  case True
  with assms obtain h p where sp: "SplitHostPort tok = Inr (h, p)" and vp: "validatePort p = Inr ()"
    and addr: "addr = JoinHostPort (if h = '''' then ''0.0.0.0'' else h) p"
    by (auto simp: normalizeAddr_def split: if_splits sum.splits)
  have "normalAddr addr (if h = '''' then ''0.0.0.0'' else h) p"
    using SplitHostPort_InrD [OF sp] vp addr by (auto simp: normalAddr_def noBrackets_def)
  then show ?thesis by blast
qed

lemma normalizeAddr_of_normal:
  assumes "normalAddr addr h p"
  shows "normalizeAddr addr isTarget = Inr addr"
  using normalAddr_split [OF assms] assms
  by (auto simp: normalizeAddr_def normalAddr_def ContainsByte_def)

lemma normalizeAddr_keeps_host:
  assumes "normalizeAddr tok True = Inr addr"
  shows "SplitHostPort addr = SplitHostPort tok"
proof -
  from assms obtain h p where "SplitHostPort tok = Inr (h, p)" "addr = JoinHostPort h p"
    by (auto simp: normalizeAddr_def split: if_splits sum.splits)
  then show ?thesis using Join_Split_stable by metis
qed

section \<open>Which suffixes an endpoint accepts\<close>

definition suffixKeyword :: "string \<Rightarrow> keyword option" where
  "suffixKeyword s = (if s = ToUpper s \<or> s = ToLower s then keyword_of (ToUpper s) else None)"

fun setKeyword :: "keyword \<Rightarrow> parsedEndpoint \<Rightarrow> parsedEndpoint" where
  "setKeyword KwTCP pe = pe\<lparr>pe_tcp := True\<rparr>"
| "setKeyword KwUDP pe = pe\<lparr>pe_udp := True\<rparr>"
| "setKeyword KwSSL pe = pe\<lparr>pe_ep := (pe_ep pe)\<lparr>SSL := True\<rparr>\<rparr>"

lemma setSuffix_setKeyword: "keyword_of u = Some k \<Longrightarrow> setSuffix u pe = setKeyword k pe"
  by (auto simp: keyword_of_def setSuffix_def split: if_splits)

lemma keyword_of_target: "keyword_of u = Some k \<Longrightarrow> (u = ''TCP'' \<or> u = ''UDP'') \<longleftrightarrow> k \<noteq> KwSSL"
  by (auto simp: keyword_of_def split: if_splits)

lemma keyword_of_Nil [simp]: "keyword_of [] = None"
  by (simp add: keyword_of_def)

lemma suffixKeyword_Nil [simp]: "suffixKeyword [] = None"
  by (simp add: suffixKeyword_def keyword_of_def)

text \<open>One turn of the loop, in terms of keywords: the \<open>seen\<close> test never fires on its own.\<close>

lemma suffixLoop_Cons_Inr:
  assumes "\<forall>u \<in> seen. \<exists>k. keyword_of u = Some k \<and> kw_rank k \<le> l"
  shows "suffixLoop tok isT l seen pe (s # ss) = Inr pe' \<longleftrightarrow>
    (\<exists>k. suffixKeyword s = Some k \<and> l < kw_rank k \<and> (isT \<longrightarrow> k = KwSSL) \<and>
       suffixLoop tok isT (kw_rank k) (insert (ToUpper s) seen) (setKeyword k pe) ss = Inr pe')"
proof (cases "suffixKeyword s")
  case None
  then show ?thesis
    by (auto simp: suffixKeyword_def keywordOrder_rank Let_def split: if_splits)
next
  case (Some k)
  then have k: "keyword_of (ToUpper s) = Some k" "s = ToUpper s \<or> s = ToLower s" "s \<noteq> []"
    by (auto simp: suffixKeyword_def split: if_splits)
  have "ToUpper s \<in> seen \<Longrightarrow> kw_rank k \<le> l"
    using assms k(1) by fastforce
  with k Some show ?thesis
    by (auto simp: keywordOrder_rank setSuffix_setKeyword keyword_of_target Let_def)
qed

lemma suffixLoop_iff:
  assumes "\<forall>u \<in> seen. \<exists>k. keyword_of u = Some k \<and> kw_rank k \<le> l"
  shows "suffixLoop tok isT l seen pe ss = Inr pe' \<longleftrightarrow>
    (\<exists>ks. map suffixKeyword ss = map Some ks \<and> sorted_wrt (<) ks \<and> (\<forall>k \<in> set ks. l < kw_rank k) \<and>
       (isT \<longrightarrow> set ks \<subseteq> {KwSSL}) \<and> pe' = fold setKeyword ks pe)"
  using assms
proof (induction ss arbitrary: l seen pe)
  case Nil
  then show ?case by auto
next
  case (Cons s ss)
  have inv: "\<forall>u \<in> insert (ToUpper s) seen. \<exists>k'. keyword_of u = Some k' \<and> kw_rank k' \<le> kw_rank k"
    if "suffixKeyword s = Some k" "l < kw_rank k" for k
  proof -
    from that(1) have "keyword_of (ToUpper s) = Some k"
      by (simp add: suffixKeyword_def split: if_splits)
    moreover have "\<exists>k'. keyword_of u = Some k' \<and> kw_rank k' \<le> kw_rank k" if "u \<in> seen" for u
      using Cons.prems that \<open>l < kw_rank k\<close> by (meson less_imp_le order.trans)
    ultimately show ?thesis by auto
  qed
  let ?R = "\<lambda>k ks. map suffixKeyword ss = map Some ks \<and> sorted_wrt (<) ks \<and>
      (\<forall>k' \<in> set ks. kw_rank k < kw_rank k') \<and> (isT \<longrightarrow> set ks \<subseteq> {KwSSL}) \<and>
      pe' = fold setKeyword ks (setKeyword k pe)"
  have "suffixLoop tok isT l seen pe (s # ss) = Inr pe' \<longleftrightarrow>
      (\<exists>k. suffixKeyword s = Some k \<and> l < kw_rank k \<and> (isT \<longrightarrow> k = KwSSL) \<and> (\<exists>ks. ?R k ks))"
    unfolding suffixLoop_Cons_Inr [OF Cons.prems]
    by (intro ex_cong1 conj_cong refl) (rule Cons.IH [OF inv])
  also have "\<dots> \<longleftrightarrow> (\<exists>ks. map suffixKeyword (s # ss) = map Some ks \<and> sorted_wrt (<) ks \<and>
      (\<forall>k \<in> set ks. l < kw_rank k) \<and> (isT \<longrightarrow> set ks \<subseteq> {KwSSL}) \<and> pe' = fold setKeyword ks pe)"
    (is "?A \<longleftrightarrow> ?B")
  proof
    assume ?A
    then obtain k ks where "suffixKeyword s = Some k" "l < kw_rank k" "isT \<longrightarrow> k = KwSSL" "?R k ks"
      by blast
    then show ?B
      by (intro exI [of _ "k # ks"]) (auto simp: less_keyword_def)
  next
    assume ?B
    then obtain ks' where ks': "map suffixKeyword (s # ss) = map Some ks'" "sorted_wrt (<) ks'"
      "\<forall>k \<in> set ks'. l < kw_rank k" "isT \<longrightarrow> set ks' \<subseteq> {KwSSL}" "pe' = fold setKeyword ks' pe"
      by blast
    then obtain k ks where "ks' = k # ks" by (cases ks') auto
    with ks' show ?A
      by (intro exI [of _ k]) (auto simp: less_keyword_def intro: exI [of _ ks])
  qed
  finally show ?case .
qed

lemma fold_setKeyword:
  "fold setKeyword ks pe =
     pe\<lparr>pe_tcp := pe_tcp pe \<or> KwTCP \<in> set ks, pe_udp := pe_udp pe \<or> KwUDP \<in> set ks,
        pe_ep := (pe_ep pe)\<lparr>SSL := SSL (pe_ep pe) \<or> KwSSL \<in> set ks\<rparr>\<rparr>"
proof (induction ks arbitrary: pe)
  case (Cons k ks)
  then show ?case by (cases k) auto
qed auto

text \<open>The result of \<open>parseEndpoint\<close> in closed form.\<close>

lemma parseEndpoint_iff:
  "parseEndpoint tok isT = Inr pe \<longleftrightarrow>
   (\<exists>addr ks. normalizeAddr (fst (splitEndpoint tok)) isT = Inr addr \<and>
      map suffixKeyword (snd (splitEndpoint tok)) = map Some ks \<and> sorted_wrt (<) ks \<and>
      (isT \<longrightarrow> set ks \<subseteq> {KwSSL}) \<and>
      pe = \<lparr>pe_ep = \<lparr>Addr = addr, TCP = False, UDP = False, SSL = KwSSL \<in> set ks\<rparr>,
            pe_tcp = KwTCP \<in> set ks, pe_udp = KwUDP \<in> set ks\<rparr>)"
proof -
  have pos: "- 1 < kw_rank k" for k using kw_rank_bounds [of k] by linarith
  show ?thesis
    by (auto simp: parseEndpoint_def suffixLoop_iff fold_setKeyword pos zeroEndpoint_def
        split: prod.splits sum.splits)
qed

end
