(* ===== verification/Config_Parse.thy ===== *)
theory Config_Parse
  imports Config_Options Config_Address "HOL-Library.Code_Target_Nat"
begin

text \<open>
  \<open>ParseAll\<close>, \<open>Parse\<close> and the combination rules of \<open>parse.go\<close>. \<open>tlsutil.HasEmbeddedKey\<close>, which reads the
  certificate file, is the argument \<open>hasKey\<close> here; the theory of \<open>tlsutil\<close> supplies it.
\<close>

section \<open>Argument groups\<close>

text \<open>The loop over \<open>args\<close>: a \<open>--\<close> starts a new group, another token goes to the last one.\<close>

fun splitLoop :: "string list list \<Rightarrow> string list \<Rightarrow> string list list" where
  "splitLoop groups [] = groups"
| "splitLoop groups (a # args) =
     (if a = ''--'' then splitLoop (groups @ [[]]) args
      else splitLoop (butlast groups @ [last groups @ [a]]) args)"

definition splitArgGroups :: "string list \<Rightarrow> string list list" where
  "splitArgGroups args = splitLoop [[]] args"

section \<open>TLS combination rules\<close>

definition validateSSLKeyCert ::
  "(string \<Rightarrow> (string, bool) result) \<Rightarrow> block \<Rightarrow> string \<Rightarrow> string \<Rightarrow> (ssl_error, unit) result" where
  "validateSSLKeyCert hasKey label keyPath certPath =
     (if keyPath \<noteq> '''' \<and> certPath = '''' then Inl (KeyWithoutCert label)
      else if certPath \<noteq> '''' \<and> keyPath = '''' then
        (case hasKey certPath of
           Inl err \<Rightarrow> Inl (CertUnreadable label certPath err)
         | Inr embedded \<Rightarrow>
             if \<not> embedded then Inl (CertWithoutKey label certPath) else Inr ())
      else Inr ())"

definition validateSSL ::
  "(string \<Rightarrow> (string, bool) result) \<Rightarrow> options \<Rightarrow> bool \<Rightarrow> bool \<Rightarrow> bool \<Rightarrow> (ssl_error, unit) result" where
  "validateSSL hasKey opts sslListen sslListenUDP sslTarget =
     (if s_seen (o_z opts) \<and> m_seen (o_m opts) then Inl ZandM
      else if s_seen (o_q opts) \<and> \<not> sslTarget then Inl QNeedsTargetSSL
      else if s_seen (o_z opts) \<and> \<not> sslListen then Inl ZNeedsListenSSL
      else if m_seen (o_m opts) \<and> \<not> sslListen then Inl MNeedsListenSSL
      else if m_seen (o_m opts) \<and> sslListenUDP \<and> m_serverName (o_m opts) = ''''
      then Inl ServerNameRequiredForDTLS
      else if m_serverName (o_m opts) \<noteq> '''' \<and> m_signCAPath (o_m opts) = ''''
      then Inl ServerNameNeedsSignca
      else
        bindR (validateSSLKeyCert hasKey BlockQ (s_keyPath (o_q opts)) (s_certPath (o_q opts))) (\<lambda>_.
        bindR (validateSSLKeyCert hasKey BlockZ (s_keyPath (o_z opts)) (s_certPath (o_z opts))) (\<lambda>_.
          if sslListen \<and> s_certPath (o_z opts) = '''' \<and> m_signCAPath (o_m opts) = ''''
          then Inl ListenSSLNeedsCert
          else Inr ())))"

section \<open>Parse\<close>

definition parseProxy :: "options \<Rightarrow> mode \<Rightarrow> string \<Rightarrow> string \<Rightarrow> (config_error, Config) result" where
  "parseProxy opts mode upstream listenTok =
     (if s_seen (o_q opts) \<or> s_seen (o_z opts) \<or> m_seen (o_m opts) then Inl ProxyWithTLSBlocks
      else
        (case splitProxyListenSuffix listenTok of
           Inl e \<Rightarrow> Inl (SuffixErr e)
         | Inr (listenAddrTok, suffixMode) \<Rightarrow>
             (let frontendMode = (case suffixMode of None \<Rightarrow> mode | Some m \<Rightarrow> m) in
              case normalizeAddr listenAddrTok False of
                Inl e \<Rightarrow> Inl (AddressErr e)
              | Inr addr \<Rightarrow>
                  bindR
                    (if f_seen (o_f opts) then
                       (if upstream = '''' then Inl ForwardNeedsUpstream
                        else if \<not> f_userSeen (o_f opts) then Inl ForwardNeedsUser
                        else Inr \<lparr>User = f_user (o_f opts), Pass = f_pass (o_f opts)\<rparr>)
                     else Inr zeroForwardAuth)
                    (\<lambda>auth. Inr (zeroConfig
                       \<lparr>Mode := frontendMode,
                        Listen := zeroEndpoint\<lparr>Addr := addr, TCP := True\<rparr>,
                        UpstreamAddr := upstream,
                        UpstreamKind := mode,
                        ForwardAuth := auth,
                        LogLevel := o_logLevel opts,
                        Verbose := o_verbose opts\<rparr>)))))"

definition parseForward ::
  "(string \<Rightarrow> (string, bool) result) \<Rightarrow> options \<Rightarrow> string \<Rightarrow> string \<Rightarrow> (config_error, Config) result" where
  "parseForward hasKey opts targetTok listenTok =
     bindR (parseEndpoint targetTok True) (\<lambda>target.
     bindR (parseEndpoint listenTok False) (\<lambda>listen.
       let udp = pe_udp listen;
           tcp = (if \<not> pe_tcp listen \<and> \<not> pe_udp listen then True else pe_tcp listen);
           targetEp = (pe_ep target)\<lparr>TCP := tcp, UDP := udp\<rparr>;
           listenEp = (pe_ep listen)\<lparr>TCP := tcp, UDP := udp\<rparr>;
           sslListenTCP = (tcp \<and> SSL listenEp);
           sslListenUDP = (udp \<and> SSL listenEp);
           sslTargetTCP = (tcp \<and> SSL targetEp);
           sslTargetUDP = (udp \<and> SSL targetEp);
           sslListen = (sslListenTCP \<or> sslListenUDP);
           sslTarget = (sslTargetTCP \<or> sslTargetUDP)
       in case validateSSL hasKey opts sslListen sslListenUDP sslTarget of
            Inl e \<Rightarrow> Inl (SSLErr e)
          | Inr _ \<Rightarrow> Inr (zeroConfig
              \<lparr>Mode := ModeForward,
               Target := targetEp,
               Listen := listenEp,
               ClientTLS := \<lparr>ct_KeyPath = s_keyPath (o_q opts), ct_CertPath = s_certPath (o_q opts),
                             ct_CAPath = s_caPath (o_q opts), ct_Verify = s_verify (o_q opts)\<rparr>,
               ServerTLS := \<lparr>st_KeyPath = s_keyPath (o_z opts), st_CertPath = s_certPath (o_z opts),
                             st_CAPath = s_caPath (o_z opts), st_VerifyClient = s_verify (o_z opts)\<rparr>,
               MITM := \<lparr>mi_SignCAPath = m_signCAPath (o_m opts), mi_ServerName = m_serverName (o_m opts),
                        mi_CAPath = m_caPath (o_m opts), mi_VerifyClient = m_verify (o_m opts)\<rparr>,
               LogLevel := o_logLevel opts,
               Verbose := o_verbose opts\<rparr>)))"

definition Parse ::
  "(string \<Rightarrow> (string, bool) result) \<Rightarrow> string list \<Rightarrow> (config_error, Config) result" where
  "Parse hasKey args =
     bindR (extractOptions args) (\<lambda>(opts, rest).
       if o_help opts then Inr (zeroConfig\<lparr>Mode := ModeHelp\<rparr>)
       else if o_version opts then Inr (zeroConfig\<lparr>Mode := ModeVersion\<rparr>)
       else
         (case rest of
            [targetTok, listenTok] \<Rightarrow>
              (case classifyProxyTarget targetTok of
                 BadProxy e \<Rightarrow> Inl e
               | Proxy mode upstream \<Rightarrow> parseProxy opts mode upstream listenTok
               | NotProxy \<Rightarrow>
                   if f_seen (o_f opts) then Inl ForwardOnlyChained
                   else parseForward hasKey opts targetTok listenTok)
          | _ \<Rightarrow> Inl (PositionalCount (length rest))))"

section \<open>ParseAll\<close>

text \<open>The loop over the groups, with the configurations and errors collected so far.\<close>

fun parseGroups ::
  "(string \<Rightarrow> (string, bool) result) \<Rightarrow> nat \<Rightarrow> string list list \<Rightarrow> Config list \<Rightarrow> group_error list \<Rightarrow>
   Config list \<times> group_error list" where
  "parseGroups hasKey i [] cfgs errs = (cfgs, errs)"
| "parseGroups hasKey i (g # gs) cfgs errs =
     (case Parse hasKey g of
        Inl e \<Rightarrow> parseGroups hasKey (i + 1) gs cfgs (errs @ [GroupError (i + 1) g e])
      | Inr cfg \<Rightarrow>
          if Mode cfg = ModeHelp \<or> Mode cfg = ModeVersion
          then parseGroups hasKey (i + 1) gs cfgs (errs @ [HelpInGroup (i + 1) g])
          else parseGroups hasKey (i + 1) gs (cfgs @ [cfg]) errs)"

definition ParseAll ::
  "(string \<Rightarrow> (string, bool) result) \<Rightarrow> string list \<Rightarrow> (parse_error, Config list) result" where
  "ParseAll hasKey args =
     (case splitArgGroups args of
        [g] \<Rightarrow> (case Parse hasKey g of Inl e \<Rightarrow> Inl (SingleError e) | Inr cfg \<Rightarrow> Inr [cfg])
      | groups \<Rightarrow>
          (case parseGroups hasKey 0 groups [] [] of
             (cfgs, errs) \<Rightarrow> if errs \<noteq> [] then Inl (JoinedErrors errs) else Inr cfgs))"

section \<open>Groups, as a specification\<close>

fun joinGroups :: "string list list \<Rightarrow> string list" where
  "joinGroups [] = []"
| "joinGroups [g] = g"
| "joinGroups (g # h # gs) = g @ ''--'' # joinGroups (h # gs)"

lemma joinGroups_snoc_Nil: "gs \<noteq> [] \<Longrightarrow> joinGroups (gs @ [[]]) = joinGroups gs @ [''--'']"
  by (induction gs rule: joinGroups.induct) auto

lemma joinGroups_snoc_last: "joinGroups (gs @ [g @ [a]]) = joinGroups (gs @ [g]) @ [a]"
proof (induction gs rule: joinGroups.induct)
  case (2 g)
  then show ?case by simp
qed auto

lemma joinGroups_splitLoop:
  "groups \<noteq> [] \<Longrightarrow> joinGroups (splitLoop groups args) = joinGroups groups @ args"
proof (induction groups args rule: splitLoop.induct)
  case (2 groups a args)
  then show ?case
    using joinGroups_snoc_last [of "butlast groups" "last groups" a] by (auto simp: joinGroups_snoc_Nil)
qed simp

lemma splitLoop_no_sep:
  "groups \<noteq> [] \<Longrightarrow> \<forall>g \<in> set groups. ''--'' \<notin> set g \<Longrightarrow> \<forall>g \<in> set (splitLoop groups args). ''--'' \<notin> set g"
proof (induction groups args rule: splitLoop.induct)
  case (2 groups a args)
  have "\<forall>g \<in> set (butlast groups @ [last groups @ [a]]). ''--'' \<notin> set g" if "a \<noteq> ''--''"
    using "2.prems" that last_in_set [of groups] by (auto dest: in_set_butlastD)
  with 2 show ?case by (auto split del: if_split split: if_splits)
qed simp

lemma length_splitLoop:
  "groups \<noteq> [] \<Longrightarrow> length (splitLoop groups args) = length groups + count_list args ''--''"
proof (induction groups args rule: splitLoop.induct)
  case (2 groups a args)
  then show ?case
    by (cases groups rule: rev_cases) auto
qed simp

lemma parseGroups_result:
  "parseGroups hasKey i gs cfgs errs = (cfgs', []) \<longleftrightarrow>
   errs = [] \<and> (\<exists>cs. cfgs' = cfgs @ cs \<and> list_all2 (\<lambda>g c. Parse hasKey g = Inr c) gs cs \<and>
     list_all (\<lambda>c. Mode c \<noteq> ModeHelp \<and> Mode c \<noteq> ModeVersion) cs)"
proof (induction gs arbitrary: i cfgs errs)
  case (Cons g gs)
  show ?case
  proof (cases "Parse hasKey g")
    case (Inl e)
    with Cons show ?thesis by (auto simp: list_all2_Cons1)
  next
    case (Inr c)
    with Cons show ?thesis
      by (cases "Mode c = ModeHelp \<or> Mode c = ModeVersion") (auto simp: list_all2_Cons1)
  qed
qed auto

section \<open>Options of a block that was not opened\<close>

text \<open>A block whose token was not given still has its initial options, whatever else was given.\<close>

definition optsInv :: "options \<Rightarrow> sslScopeKind \<Rightarrow> bool" where
  "optsInv opts s \<longleftrightarrow>
     (s_seen (o_q opts) \<or> o_q opts = o_q initOptions) \<and> (s_seen (o_z opts) \<or> o_z opts = o_z initOptions) \<and>
     (m_seen (o_m opts) \<or> o_m opts = o_m initOptions) \<and> (f_seen (o_f opts) \<or> o_f opts = o_f initOptions) \<and>
     (s = scopeQ \<longrightarrow> s_seen (o_q opts)) \<and> (s = scopeZ \<longrightarrow> s_seen (o_z opts)) \<and>
     (s = scopeM \<longrightarrow> m_seen (o_m opts)) \<and> (s = scopeF \<longrightarrow> f_seen (o_f opts))"

lemma optSub_scope_frame:
  assumes "optSub sub v opts s = Next opts' s'"
  shows "s \<noteq> scopeQ \<Longrightarrow> o_q opts' = o_q opts" "s \<noteq> scopeZ \<Longrightarrow> o_z opts' = o_z opts"
    "s \<noteq> scopeM \<Longrightarrow> o_m opts' = o_m opts" "s \<noteq> scopeF \<Longrightarrow> o_f opts' = o_f opts"
  using assms by (cases sub; cases s; auto simp: optSub_defs Let_def split: if_splits prod.splits)+

lemma optsInv_optSub:
  assumes "optSub sub v opts s = Next opts' s'" "optsInv opts s"
  shows "optsInv opts' s'"
proof -
  have s': "s' = s" using assms(1) by (rule optSub_Next)
  note fr = optSub_scope_frame [OF assms(1)] optSub_keeps(17-20) [OF assms(1)]
  show ?thesis
    using assms(2) fr unfolding optsInv_def s' by (cases s) simp_all
qed

lemma optsInv_global [simp]:
  "optsInv (opts\<lparr>o_help := h\<rparr>) s = optsInv opts s" "optsInv (opts\<lparr>o_version := h\<rparr>) s = optsInv opts s"
  "optsInv (opts\<lparr>o_verbose := h\<rparr>) s = optsInv opts s" "optsInv (opts\<lparr>o_logLevel := l\<rparr>) s = optsInv opts s"
  by (simp_all add: optsInv_def)

lemma openBlock_Next_iff:
  "openBlock b opts = Next opts' s' \<longleftrightarrow>
   (case b of
      BlockQ \<Rightarrow> \<not> s_seen (o_q opts) \<and> s' = scopeQ \<and> opts' = opts\<lparr>o_q := (o_q opts)\<lparr>s_seen := True\<rparr>\<rparr>
    | BlockZ \<Rightarrow> \<not> s_seen (o_z opts) \<and> s' = scopeZ \<and> opts' = opts\<lparr>o_z := (o_z opts)\<lparr>s_seen := True\<rparr>\<rparr>
    | BlockM \<Rightarrow> \<not> m_seen (o_m opts) \<and> s' = scopeM \<and> opts' = opts\<lparr>o_m := (o_m opts)\<lparr>m_seen := True\<rparr>\<rparr>
    | BlockF \<Rightarrow> \<not> f_seen (o_f opts) \<and> s' = scopeF \<and> opts' = opts\<lparr>o_f := (o_f opts)\<lparr>f_seen := True\<rparr>\<rparr>)"
  by (cases b) auto

lemma optsInv_openBlock: "openBlock b opts = Next opts' s' \<Longrightarrow> optsInv opts s \<Longrightarrow> optsInv opts' s'"
  unfolding openBlock_Next_iff by (cases b; simp add: optsInv_def; elim conjE; simp)

lemma optsInv_step:
  assumes "optionStep t opts s = Next opts' s'" "optsInv opts s"
  shows "optsInv opts' s'"
  using assms by (cases t) (auto dest: optsInv_optSub optsInv_openBlock split: if_splits)

lemma optsInv_walk: "walk opts s toks opts' s' \<Longrightarrow> optsInv opts s \<Longrightarrow> optsInv opts' s'"
  by (induction rule: walk.induct) (auto dest: optsInv_step)

lemma extractOptions_walk:
  assumes "extractOptions args = Inr (opts, rest)"
  obtains toks s' where "args = toks @ rest" "walk initOptions scopeNone toks opts s'"
    "\<forall>t \<in> set toks. classifyTok t \<noteq> TokOther" "rest \<noteq> [] \<longrightarrow> classifyTok (hd rest) = TokOther"
  using assms extractLoop_walk unfolding extractOptions_def by metis

lemma extractOptions_walked:
  assumes "extractOptions args = Inr (opts, rest)"
  obtains toks s' where "walk initOptions scopeNone toks opts s'"
  by (rule extractOptions_walk [OF assms]) (rule that)

lemma extractOptions_inv:
  assumes "extractOptions args = Inr (opts, rest)"
  shows "\<exists>s. optsInv opts s"
proof -
  obtain toks s' where "walk initOptions scopeNone toks opts s'"
    by (rule extractOptions_walked [OF assms])
  moreover have "optsInv initOptions scopeNone"
    by (simp add: optsInv_def)
  ultimately show ?thesis using optsInv_walk by blast
qed

lemma extractOptions_level:
  assumes "extractOptions args = Inr (opts, rest)"
  shows "0 \<le> o_logLevel opts \<and> o_logLevel opts \<le> 3"
proof -
  obtain toks s' where "walk initOptions scopeNone toks opts s'"
    by (rule extractOptions_walked [OF assms])
  from walk_level [OF this] have "o_logLevel opts = Max (insert 0 (logLevelTokens ` set toks))"
    by (simp add: initOptions_def fold_max_Max)
  then show ?thesis
    using logLevelTokens_range by auto
qed

lemma extractOptions_user:
  assumes "extractOptions args = Inr (opts, rest)"
  shows "(f_userSeen (o_f opts) \<longrightarrow> f_user (o_f opts) \<noteq> '''' \<and> CHR '':'' \<notin> set (f_user (o_f opts)))
     \<and> (\<not> f_userSeen (o_f opts) \<longrightarrow> f_user (o_f opts) = '''' \<and> f_pass (o_f opts) = '''')"
proof -
  obtain toks s' where "walk initOptions scopeNone toks opts s'"
    by (rule extractOptions_walked [OF assms])
  from walk_user [OF this] show ?thesis by (simp add: initOptions_def)
qed

section \<open>Well-formed configurations\<close>

definition isNormalAddr :: "string \<Rightarrow> bool" where
  "isNormalAddr a \<longleftrightarrow> normalizeAddr a True = Inr a"

lemma isNormalAddr_iff: "isNormalAddr a \<longleftrightarrow> (\<exists>h p. normalAddr a h p)"
  using normalizeAddr_normal normalizeAddr_of_normal unfolding isNormalAddr_def by blast

lemma normalizeAddr_isNormal: "normalizeAddr tok isT = Inr a \<Longrightarrow> isNormalAddr a"
  using normalizeAddr_normal by (simp add: isNormalAddr_iff)

text \<open>The rules of a forwarding relay: both ends share TCP and UDP, and TLS options match the ends.\<close>

definition wfForward :: "Config \<Rightarrow> bool" where
  "wfForward cfg \<longleftrightarrow>
     isNormalAddr (Addr (Target cfg)) \<and> isNormalAddr (Addr (Listen cfg)) \<and>
     TCP (Target cfg) = TCP (Listen cfg) \<and> UDP (Target cfg) = UDP (Listen cfg) \<and>
     (TCP (Listen cfg) \<or> UDP (Listen cfg)) \<and>
     UpstreamAddr cfg = '''' \<and> ForwardAuth cfg = zeroForwardAuth \<and>
     (SSL (Listen cfg) \<longrightarrow> st_CertPath (ServerTLS cfg) \<noteq> '''' \<or> mi_SignCAPath (MITM cfg) \<noteq> '''') \<and>
     (st_CertPath (ServerTLS cfg) = '''' \<or> mi_SignCAPath (MITM cfg) = '''') \<and>
     (\<not> SSL (Listen cfg) \<longrightarrow> ServerTLS cfg = zeroServerTLS\<lparr>st_VerifyClient := True\<rparr> \<and>
        MITM cfg = zeroMITM\<lparr>mi_VerifyClient := True\<rparr>) \<and>
     (\<not> SSL (Target cfg) \<longrightarrow> ClientTLS cfg = zeroClientTLS\<lparr>ct_Verify := True\<rparr>) \<and>
     (mi_ServerName (MITM cfg) \<noteq> '''' \<longrightarrow> mi_SignCAPath (MITM cfg) \<noteq> '''') \<and>
     (mi_SignCAPath (MITM cfg) \<noteq> '''' \<and> UDP (Listen cfg) \<longrightarrow> mi_ServerName (MITM cfg) \<noteq> '''') \<and>
     (ct_KeyPath (ClientTLS cfg) \<noteq> '''' \<longrightarrow> ct_CertPath (ClientTLS cfg) \<noteq> '''') \<and>
     (st_KeyPath (ServerTLS cfg) \<noteq> '''' \<longrightarrow> st_CertPath (ServerTLS cfg) \<noteq> '''')"

text \<open>The rules of a proxy: plain TCP, and credentials only towards an upstream.\<close>

definition wfProxy :: "Config \<Rightarrow> bool" where
  "wfProxy cfg \<longleftrightarrow>
     isNormalAddr (Addr (Listen cfg)) \<and> TCP (Listen cfg) \<and> \<not> UDP (Listen cfg) \<and> \<not> SSL (Listen cfg) \<and>
     Target cfg = zeroEndpoint \<and>
     (UpstreamKind cfg = ModeHTTPProxy \<or> UpstreamKind cfg = ModeSOCKSProxy) \<and>
     (UpstreamAddr cfg = '''' \<or> isNormalAddr (UpstreamAddr cfg)) \<and>
     (UpstreamAddr cfg = '''' \<longrightarrow> ForwardAuth cfg = zeroForwardAuth) \<and>
     (ForwardAuth cfg \<noteq> zeroForwardAuth \<longrightarrow>
        User (ForwardAuth cfg) \<noteq> '''' \<and> CHR '':'' \<notin> set (User (ForwardAuth cfg))) \<and>
     ClientTLS cfg = zeroClientTLS \<and> ServerTLS cfg = zeroServerTLS \<and> MITM cfg = zeroMITM"

definition wfConfig :: "Config \<Rightarrow> bool" where
  "wfConfig cfg \<longleftrightarrow> 0 \<le> LogLevel cfg \<and> LogLevel cfg \<le> 3 \<and>
     (case Mode cfg of
        ModeForward \<Rightarrow> wfForward cfg
      | ModeHTTPProxy \<Rightarrow> wfProxy cfg
      | ModeSOCKSProxy \<Rightarrow> wfProxy cfg
      | ModeVersion \<Rightarrow> cfg = zeroConfig\<lparr>Mode := ModeVersion\<rparr>
      | ModeHelp \<Rightarrow> cfg = zeroConfig\<lparr>Mode := ModeHelp\<rparr>)"

lemma proxyMode_range: "proxyMode t = Some m \<Longrightarrow> m = ModeHTTPProxy \<or> m = ModeSOCKSProxy"
  by (auto simp: proxyMode_def split: if_splits)

lemma classifyProxyTarget_Proxy:
  assumes "classifyProxyTarget t = Proxy m up"
  shows "(m = ModeHTTPProxy \<or> m = ModeSOCKSProxy) \<and> (up = '''' \<or> isNormalAddr up)"
  using assms
  by (auto simp: classifyProxyTarget_def Let_def split: option.splits if_splits sum.splits
      dest: proxyMode_range normalizeAddr_isNormal)

lemma splitProxyListenSuffix_mode:
  "splitProxyListenSuffix t = Inr (a, Some m) \<Longrightarrow> m = ModeHTTPProxy \<or> m = ModeSOCKSProxy"
  by (auto simp: splitProxyListenSuffix_def Let_def split: option.splits if_splits dest: proxyMode_range)

lemma parseProxy_wf:
  assumes "parseProxy opts m up listenTok = Inr cfg" "m = ModeHTTPProxy \<or> m = ModeSOCKSProxy"
    "up = '''' \<or> isNormalAddr up" "0 \<le> o_logLevel opts \<and> o_logLevel opts \<le> 3"
    "f_userSeen (o_f opts) \<longrightarrow> f_user (o_f opts) \<noteq> '''' \<and> CHR '':'' \<notin> set (f_user (o_f opts))"
  shows "wfConfig cfg"
proof -
  from assms(1) obtain a sm addr auth where
    sp: "splitProxyListenSuffix listenTok = Inr (a, sm)" and na: "normalizeAddr a False = Inr addr"
    and auth: "auth = zeroForwardAuth \<or>
      (up \<noteq> '''' \<and> f_userSeen (o_f opts) \<and> auth = \<lparr>User = f_user (o_f opts), Pass = f_pass (o_f opts)\<rparr>)"
    and cfg: "cfg = zeroConfig\<lparr>Mode := case sm of None \<Rightarrow> m | Some m' \<Rightarrow> m',
       Listen := zeroEndpoint\<lparr>Addr := addr, TCP := True\<rparr>, UpstreamAddr := up, UpstreamKind := m,
       ForwardAuth := auth, LogLevel := o_logLevel opts, Verbose := o_verbose opts\<rparr>"
    by (auto simp: parseProxy_def Let_def split: if_splits sum.splits prod.splits)
  have mode: "Mode cfg = ModeHTTPProxy \<or> Mode cfg = ModeSOCKSProxy"
    using assms(2) splitProxyListenSuffix_mode [of listenTok a] sp by (auto simp: cfg split: option.splits)
  have "wfProxy cfg"
    using assms(2,3,5) auth normalizeAddr_isNormal [OF na] by (auto simp: wfProxy_def cfg zero_defs)
  with mode assms(4) show ?thesis
    by (auto simp: wfConfig_def cfg)
qed

text \<open>The checks of \<open>validateSSL\<close>, in closed form.\<close>

definition keyCertOk :: "(string \<Rightarrow> (string, bool) result) \<Rightarrow> string \<Rightarrow> string \<Rightarrow> bool" where
  "keyCertOk hasKey k c \<longleftrightarrow> (if c = '''' then k = '''' else k \<noteq> '''' \<or> hasKey c = Inr True)"

lemma validateSSLKeyCert_ok:
  "validateSSLKeyCert hasKey b k c = Inr u \<longleftrightarrow> keyCertOk hasKey k c"
  by (auto simp: validateSSLKeyCert_def keyCertOk_def split: sum.splits)

lemma validateSSL_ok:
  "validateSSL hasKey opts sl slu st = Inr u \<longleftrightarrow>
     \<not> (s_seen (o_z opts) \<and> m_seen (o_m opts)) \<and> (s_seen (o_q opts) \<longrightarrow> st) \<and>
     (s_seen (o_z opts) \<or> m_seen (o_m opts) \<longrightarrow> sl) \<and>
     (m_seen (o_m opts) \<and> slu \<longrightarrow> m_serverName (o_m opts) \<noteq> '''') \<and>
     (m_serverName (o_m opts) \<noteq> '''' \<longrightarrow> m_signCAPath (o_m opts) \<noteq> '''') \<and>
     keyCertOk hasKey (s_keyPath (o_q opts)) (s_certPath (o_q opts)) \<and>
     keyCertOk hasKey (s_keyPath (o_z opts)) (s_certPath (o_z opts)) \<and>
     (sl \<longrightarrow> s_certPath (o_z opts) \<noteq> '''' \<or> m_signCAPath (o_m opts) \<noteq> '''')"
  by (simp add: validateSSL_def validateSSLKeyCert_ok)

definition forwardConfig :: "options \<Rightarrow> parsedEndpoint \<Rightarrow> parsedEndpoint \<Rightarrow> Config" where
  "forwardConfig opts t l = zeroConfig
     \<lparr>Target := (pe_ep t)\<lparr>TCP := pe_tcp l \<or> \<not> pe_udp l, UDP := pe_udp l\<rparr>,
      Listen := (pe_ep l)\<lparr>TCP := pe_tcp l \<or> \<not> pe_udp l, UDP := pe_udp l\<rparr>,
      ClientTLS := \<lparr>ct_KeyPath = s_keyPath (o_q opts), ct_CertPath = s_certPath (o_q opts),
        ct_CAPath = s_caPath (o_q opts), ct_Verify = s_verify (o_q opts)\<rparr>,
      ServerTLS := \<lparr>st_KeyPath = s_keyPath (o_z opts), st_CertPath = s_certPath (o_z opts),
        st_CAPath = s_caPath (o_z opts), st_VerifyClient = s_verify (o_z opts)\<rparr>,
      MITM := \<lparr>mi_SignCAPath = m_signCAPath (o_m opts), mi_ServerName = m_serverName (o_m opts),
        mi_CAPath = m_caPath (o_m opts), mi_VerifyClient = m_verify (o_m opts)\<rparr>,
      LogLevel := o_logLevel opts, Verbose := o_verbose opts\<rparr>"

lemma parseForward_Inr:
  "parseForward hasKey opts tt lt = Inr cfg \<longleftrightarrow>
   (\<exists>t. parseEndpoint tt True = Inr t \<and> (\<exists>l. parseEndpoint lt False = Inr l \<and>
      validateSSL hasKey opts (SSL (pe_ep l)) (pe_udp l \<and> SSL (pe_ep l)) (SSL (pe_ep t)) = Inr () \<and>
      cfg = forwardConfig opts t l))"
proof -
  have step: "(case validateSSL hasKey opts a b c of Inl e \<Rightarrow> Inl (SSLErr e) | Inr _ \<Rightarrow> Inr x) = Inr cfg \<longleftrightarrow>
      validateSSL hasKey opts a b c = Inr () \<and> cfg = x" for a b c x
    by (auto split: sum.splits)
  show ?thesis
    unfolding parseForward_def bindR_Inr_iff Let_def step
    by (intro ex_cong1 conj_cong refl)
      (rename_tac t l, case_tac "pe_tcp l"; case_tac "pe_udp l"; simp add: forwardConfig_def zeroConfig_def)+
qed

lemma parseForward_wf:
  assumes "parseForward hasKey opts targetTok listenTok = Inr cfg" "optsInv opts s"
    "0 \<le> o_logLevel opts \<and> o_logLevel opts \<le> 3"
  shows "wfConfig cfg"
proof -
  from assms(1) obtain t l where t: "parseEndpoint targetTok True = Inr t"
    and l: "parseEndpoint listenTok False = Inr l"
    and v: "validateSSL hasKey opts (SSL (pe_ep l)) (pe_udp l \<and> SSL (pe_ep l)) (SSL (pe_ep t)) = Inr ()"
    and cfg: "cfg = forwardConfig opts t l"
    unfolding parseForward_Inr by blast
  from t obtain ta where ta: "normalizeAddr (fst (splitEndpoint targetTok)) True = Inr ta"
    and t': "Addr (pe_ep t) = ta"
    by (auto simp: parseEndpoint_iff)
  from l obtain la where la: "normalizeAddr (fst (splitEndpoint listenTok)) False = Inr la"
    and l': "Addr (pe_ep l) = la"
    by (auto simp: parseEndpoint_iff)
  have q: "\<not> s_seen (o_q opts) \<Longrightarrow> o_q opts = o_q initOptions"
    and z: "\<not> s_seen (o_z opts) \<Longrightarrow> o_z opts = o_z initOptions"
    and m: "\<not> m_seen (o_m opts) \<Longrightarrow> o_m opts = o_m initOptions"
    using assms(2) unfolding optsInv_def by blast+
  note ok = v [unfolded validateSSL_ok]
  have q1: "\<not> SSL (pe_ep t) \<Longrightarrow> o_q opts = o_q initOptions" using ok q by blast
  have z1: "\<not> SSL (pe_ep l) \<Longrightarrow> o_z opts = o_z initOptions \<and> o_m opts = o_m initOptions" using ok z m by blast
  have z2: "s_certPath (o_z opts) \<noteq> '''' \<Longrightarrow> s_seen (o_z opts)"
    using z by (cases "s_seen (o_z opts)") (auto simp: initOptions_def)
  have m2: "m_signCAPath (o_m opts) \<noteq> '''' \<Longrightarrow> m_seen (o_m opts)"
    using m by (cases "m_seen (o_m opts)") (auto simp: initOptions_def)
  have ex: "s_certPath (o_z opts) = '''' \<or> m_signCAPath (o_m opts) = ''''"
    using z2 m2 ok by blast
  have dtls: "m_signCAPath (o_m opts) \<noteq> '''' \<and> pe_udp l \<Longrightarrow> m_serverName (o_m opts) \<noteq> ''''"
    using m2 ok z1 by (cases "SSL (pe_ep l)") (auto simp: initOptions_def)
  have kc: "s_keyPath (o_q opts) \<noteq> '''' \<Longrightarrow> s_certPath (o_q opts) \<noteq> ''''"
    "s_keyPath (o_z opts) \<noteq> '''' \<Longrightarrow> s_certPath (o_z opts) \<noteq> ''''"
    using ok by (auto simp: keyCertOk_def split: if_splits)
  have sel: "Target cfg = (pe_ep t)\<lparr>TCP := pe_tcp l \<or> \<not> pe_udp l, UDP := pe_udp l\<rparr>"
    "Listen cfg = (pe_ep l)\<lparr>TCP := pe_tcp l \<or> \<not> pe_udp l, UDP := pe_udp l\<rparr>"
    "UpstreamAddr cfg = ''''" "ForwardAuth cfg = zeroForwardAuth"
    "ClientTLS cfg = \<lparr>ct_KeyPath = s_keyPath (o_q opts), ct_CertPath = s_certPath (o_q opts),
        ct_CAPath = s_caPath (o_q opts), ct_Verify = s_verify (o_q opts)\<rparr>"
    "ServerTLS cfg = \<lparr>st_KeyPath = s_keyPath (o_z opts), st_CertPath = s_certPath (o_z opts),
        st_CAPath = s_caPath (o_z opts), st_VerifyClient = s_verify (o_z opts)\<rparr>"
    "MITM cfg = \<lparr>mi_SignCAPath = m_signCAPath (o_m opts), mi_ServerName = m_serverName (o_m opts),
        mi_CAPath = m_caPath (o_m opts), mi_VerifyClient = m_verify (o_m opts)\<rparr>"
    "Mode cfg = ModeForward" "LogLevel cfg = o_logLevel opts"
    by (simp_all add: cfg forwardConfig_def zeroConfig_def)
  have cert: "SSL (pe_ep l) \<Longrightarrow> s_certPath (o_z opts) \<noteq> '''' \<or> m_signCAPath (o_m opts) \<noteq> ''''"
    and sn: "m_serverName (o_m opts) \<noteq> '''' \<Longrightarrow> m_signCAPath (o_m opts) \<noteq> ''''"
    using ok by blast+
  have "wfForward cfg"
    unfolding wfForward_def sel
    using normalizeAddr_isNormal [OF ta] normalizeAddr_isNormal [OF la] cert sn ex dtls kc
    by (intro conjI impI) (simp_all add: t' l' q1 z1 zero_defs initOptions_def)
  with assms(3) show ?thesis by (simp add: wfConfig_def sel)
qed

lemma Parse_Inr_iff:
  "Parse hasKey args = Inr cfg \<longleftrightarrow>
   (\<exists>opts rest. extractOptions args = Inr (opts, rest) \<and>
      (if o_help opts then cfg = zeroConfig\<lparr>Mode := ModeHelp\<rparr>
       else if o_version opts then cfg = zeroConfig\<lparr>Mode := ModeVersion\<rparr>
       else \<exists>t l. rest = [t, l] \<and>
         ((\<exists>m up. classifyProxyTarget t = Proxy m up \<and> parseProxy opts m up l = Inr cfg) \<or>
          (classifyProxyTarget t = NotProxy \<and> \<not> f_seen (o_f opts) \<and>
             parseForward hasKey opts t l = Inr cfg))))"
proof (cases "extractOptions args")
  case (Inl e)
  then show ?thesis by (simp add: Parse_def)
next
  case (Inr p)
  obtain opts rest where p: "p = (opts, rest)" by (cases p)
  have eq: "(case rest of [t, l] \<Rightarrow> F t l | _ \<Rightarrow> Inl (PositionalCount (length rest))) = Inr cfg \<longleftrightarrow>
      (\<exists>t l. rest = [t, l] \<and> F t l = Inr cfg)" for F :: "string \<Rightarrow> string \<Rightarrow> (config_error, Config) result"
    by (auto split: list.splits)
  have pc: "(case classifyProxyTarget t of NotProxy \<Rightarrow> A | BadProxy e \<Rightarrow> Inl e | Proxy m up \<Rightarrow> B m up) = Inr cfg \<longleftrightarrow>
      (\<exists>m up. classifyProxyTarget t = Proxy m up \<and> B m up = Inr cfg) \<or> (classifyProxyTarget t = NotProxy \<and> A = Inr cfg)"
    for t A and B :: "mode \<Rightarrow> string \<Rightarrow> (config_error, Config) result"
    by (cases "classifyProxyTarget t") auto
  have A: "(if f_seen (o_f opts) then Inl ForwardOnlyChained else X) = Inr cfg \<longleftrightarrow>
      \<not> f_seen (o_f opts) \<and> X = Inr cfg" for X :: "(config_error, Config) result"
    by simp
  show ?thesis
    by (cases "o_help opts"; cases "o_version opts") (simp_all add: Parse_def Inr p eq pc A eq_commute [of cfg])
qed

lemma Parse_wfConfig:
  assumes "Parse hasKey args = Inr cfg"
  shows "wfConfig cfg"
proof -
  from assms obtain opts rest where ex: "extractOptions args = Inr (opts, rest)"
    unfolding Parse_Inr_iff by blast
  note lv = extractOptions_level [OF ex] and us = extractOptions_user [OF ex]
  obtain s where inv: "optsInv opts s" using extractOptions_inv [OF ex] by blast
  from assms ex consider
      "cfg = zeroConfig\<lparr>Mode := ModeHelp\<rparr>" | "cfg = zeroConfig\<lparr>Mode := ModeVersion\<rparr>"
    | t l m up where "classifyProxyTarget t = Proxy m up" "parseProxy opts m up l = Inr cfg"
    | t l where "parseForward hasKey opts t l = Inr cfg"
    by (auto simp: Parse_Inr_iff split: if_splits)
  then show ?thesis
  proof cases
    case 3
    then show ?thesis
      using classifyProxyTarget_Proxy [OF 3(1)] lv us parseProxy_wf by blast
  next
    case 4
    then show ?thesis using inv lv by (rule parseForward_wf)
  qed (simp_all add: wfConfig_def zeroConfig_def)
qed

text \<open>
  C10. Every configuration \<open>Parse\<close> returns is well formed: the log level is in range; a forwarding
  relay has normalized addresses, the same non-empty protocol set on both ends, a certificate source
  whenever \<open>/SSL\<close> is on the listen side, at most one of the static certificate and the signing CA, and
  TLS options only where the matching \<open>/SSL\<close> is; a proxy has plain TCP and credentials only with an
  upstream.
\<close>

theorem parse_wf:
  "Parse hasKey args = Inr cfg \<Longrightarrow> wfConfig cfg"
  by (rule Parse_wfConfig)

theorem parse_wf_witness:
  "Parse (\<lambda>_. Inr True) [''-Z'', ''-cert=c.pem'', ''-Q'', ''-verify=0'', ''h:80/ssl'', ''8888/udp/ssl''] =
     Inr (zeroConfig\<lparr>Target := \<lparr>Addr = ''h:80'', TCP = False, UDP = True, SSL = True\<rparr>,
       Listen := \<lparr>Addr = ''0.0.0.0:8888'', TCP = False, UDP = True, SSL = True\<rparr>,
       ClientTLS := zeroClientTLS,
       ServerTLS := zeroServerTLS\<lparr>st_CertPath := ''c.pem'', st_VerifyClient := True\<rparr>,
       MITM := zeroMITM\<lparr>mi_VerifyClient := True\<rparr>\<rparr>) \<and>
   wfConfig (zeroConfig\<lparr>Target := \<lparr>Addr = ''h:80'', TCP = False, UDP = True, SSL = True\<rparr>,
       Listen := \<lparr>Addr = ''0.0.0.0:8888'', TCP = False, UDP = True, SSL = True\<rparr>,
       ClientTLS := zeroClientTLS,
       ServerTLS := zeroServerTLS\<lparr>st_CertPath := ''c.pem'', st_VerifyClient := True\<rparr>,
       MITM := zeroMITM\<lparr>mi_VerifyClient := True\<rparr>\<rparr>)"
  (is "Parse _ ?args = Inr ?cfg \<and> _")
proof -
  have "Parse (\<lambda>_. Inr True) ?args = Inr ?cfg" by code_simp
  then show ?thesis using parse_wf by blast
qed

section \<open>Properties of the parser\<close>

lemma ParseAll_Inr_iff:
  "ParseAll hasKey args = Inr cfgs \<longleftrightarrow>
   list_all2 (\<lambda>g c. Parse hasKey g = Inr c) (splitArgGroups args) cfgs \<and>
   (length (splitArgGroups args) = 1 \<or>
    list_all (\<lambda>c. Mode c \<noteq> ModeHelp \<and> Mode c \<noteq> ModeVersion) cfgs)"
proof -
  have multi: "(case parseGroups hasKey 0 gs [] [] of (cfgs', errs) \<Rightarrow>
        if errs \<noteq> [] then Inl (JoinedErrors errs) else Inr cfgs') = Inr cfgs \<longleftrightarrow>
      list_all2 (\<lambda>g c. Parse hasKey g = Inr c) gs cfgs \<and>
      list_all (\<lambda>c. Mode c \<noteq> ModeHelp \<and> Mode c \<noteq> ModeVersion) cfgs" for gs
    using parseGroups_result [of hasKey 0 gs "[]" "[]" cfgs] by (auto split: prod.splits if_splits)
  have ne: "splitArgGroups args \<noteq> []"
    using length_splitLoop [of "[[]]" args] by (auto simp: splitArgGroups_def)
  then consider g where "splitArgGroups args = [g]" | g h gs where "splitArgGroups args = g # h # gs"
    by (metis list.exhaust)
  then show ?thesis
  proof cases
    case 1
    then show ?thesis by (auto simp: ParseAll_def list_all2_Cons1 split: sum.splits)
  next
    case 2
    then show ?thesis unfolding ParseAll_def 2 by (simp only: list.case multi) simp
  qed
qed

text \<open>
  C32. \<open>ParseAll\<close> is all or nothing: it returns configurations exactly when every \<open>--\<close>-separated group
  parses on its own, one configuration per group in the order of the groups, and, with more than one
  group, none of them is the help or version mode.
\<close>

theorem parseAll_all_or_nothing:
  "ParseAll hasKey args = Inr cfgs \<longleftrightarrow>
   list_all2 (\<lambda>g c. Parse hasKey g = Inr c) (splitArgGroups args) cfgs \<and>
   (length (splitArgGroups args) = 1 \<or>
    list_all (\<lambda>c. Mode c \<noteq> ModeHelp \<and> Mode c \<noteq> ModeVersion) cfgs)"
  by (rule ParseAll_Inr_iff)

text \<open>
  \<open>splitArgGroups\<close> loses nothing: joining the groups with \<open>--\<close> gives the arguments back, no group
  holds a \<open>--\<close>, and there is one group more than there are \<open>--\<close> tokens.
\<close>

theorem splitArgGroups_roundtrip:
  "joinGroups (splitArgGroups args) = args \<and>
   list_all (\<lambda>g. ''--'' \<notin> set g) (splitArgGroups args) \<and>
   length (splitArgGroups args) = count_list args ''--'' + 1"
  using joinGroups_splitLoop [of "[[]]" args] splitLoop_no_sep [of "[[]]" args] length_splitLoop [of "[[]]" args]
  by (simp add: splitArgGroups_def list_all_iff)

text \<open>
  C33. What \<open>extractOptions\<close> returns is determined by the blocks of the tokens it consumed: the
  arguments are the consumed option tokens followed by the rest, which does not start with an option;
  each of the nine path sub-options holds a non-empty value exactly when that value was given in its
  own block; the three verify flags are false exactly when the last \<open>-verify=\<close> of the block was \<open>0\<close>;
  each block token occurs at most once, and the seen flags record which; the user and the password are
  the two sides of the first colon of the one \<open>-user=\<close> value of the \<open>-F\<close> block, and are empty when there is
  none; the log level is the highest level given, and the help, version and verbose flags record whether
  their tokens are among those consumed.
\<close>

theorem extractOptions_blocks:
  assumes "extractOptions args = Inr (opts, rest)"
  shows "\<exists>toks. args = toks @ rest \<and> (\<forall>t \<in> set toks. classifyTok t \<noteq> TokOther) \<and>
    (rest \<noteq> [] \<longrightarrow> classifyTok (hd rest) = TokOther) \<and>
    (\<forall>v. v \<noteq> '''' \<longrightarrow>
       (s_keyPath (o_q opts) = v \<longleftrightarrow> v \<in> set (subVals SubKey BlockQ toks)) \<and>
       (s_certPath (o_q opts) = v \<longleftrightarrow> v \<in> set (subVals SubCert BlockQ toks)) \<and>
       (s_caPath (o_q opts) = v \<longleftrightarrow> v \<in> set (subVals SubCa BlockQ toks)) \<and>
       (s_keyPath (o_z opts) = v \<longleftrightarrow> v \<in> set (subVals SubKey BlockZ toks)) \<and>
       (s_certPath (o_z opts) = v \<longleftrightarrow> v \<in> set (subVals SubCert BlockZ toks)) \<and>
       (s_caPath (o_z opts) = v \<longleftrightarrow> v \<in> set (subVals SubCa BlockZ toks)) \<and>
       (m_caPath (o_m opts) = v \<longleftrightarrow> v \<in> set (subVals SubCa BlockM toks)) \<and>
       (m_signCAPath (o_m opts) = v \<longleftrightarrow> v \<in> set (subVals SubSignca BlockM toks)) \<and>
       (m_serverName (o_m opts) = v \<longleftrightarrow> v \<in> set (subVals SubServername BlockM toks))) \<and>
    (s_verify (o_q opts) \<longleftrightarrow> (let vs = subVals SubVerify BlockQ toks in vs = [] \<or> last vs \<noteq> ''0'')) \<and>
    (s_verify (o_z opts) \<longleftrightarrow> (let vs = subVals SubVerify BlockZ toks in vs = [] \<or> last vs \<noteq> ''0'')) \<and>
    (m_verify (o_m opts) \<longleftrightarrow> (let vs = subVals SubVerify BlockM toks in vs = [] \<or> last vs \<noteq> ''0'')) \<and>
    length (filter (\<lambda>t. classifyTok t = TokBlock BlockQ) toks) = of_bool (s_seen (o_q opts)) \<and>
    length (filter (\<lambda>t. classifyTok t = TokBlock BlockZ) toks) = of_bool (s_seen (o_z opts)) \<and>
    length (filter (\<lambda>t. classifyTok t = TokBlock BlockM) toks) = of_bool (m_seen (o_m opts)) \<and>
    length (filter (\<lambda>t. classifyTok t = TokBlock BlockF) toks) = of_bool (f_seen (o_f opts)) \<and>
    subVals SubUser BlockF toks = (if f_userSeen (o_f opts) then [f_user (o_f opts) @ CHR '':'' # f_pass (o_f opts)] else []) \<and>
    (if f_userSeen (o_f opts) then f_user (o_f opts) \<noteq> '''' \<and> CHR '':'' \<notin> set (f_user (o_f opts))
     else f_user (o_f opts) = '''' \<and> f_pass (o_f opts) = '''') \<and>
    o_help opts = (''-help'' \<in> set toks) \<and> o_version opts = (''-version'' \<in> set toks) \<and> o_verbose opts = (''-v'' \<in> set toks) \<and>
    o_logLevel opts = Max (insert 0 (logLevelTokens ` set toks))"
proof -
  obtain toks s' where toks: "args = toks @ rest" "\<forall>t \<in> set toks. classifyTok t \<noteq> TokOther"
      "rest \<noteq> [] \<longrightarrow> classifyTok (hd rest) = TokOther"
    and w: "walk initOptions scopeNone toks opts s'"
    using extractOptions_walk [OF assms] by metis
  note paths = q_key.get_extract [OF w] q_cert.get_extract [OF w] q_ca.get_extract [OF w]
    z_key.get_extract [OF w] z_cert.get_extract [OF w] z_ca.get_extract [OF w]
    m_ca.get_extract [OF w] m_signca.get_extract [OF w] m_servername.get_extract [OF w]
  note flags = q_verify.get_extract [OF w] z_verify.get_extract [OF w] m_verify.get_extract [OF w]
  note seen = seen_q.seen_extract [OF w] seen_z.seen_extract [OF w] seen_m.seen_extract [OF w]
    seen_f.seen_extract [OF w]
  have "o_logLevel opts = Max (insert 0 (logLevelTokens ` set toks))"
    using walk_level [OF w] by (simp add: initOptions_def fold_max_Max)
  moreover have "subValsFrom scopeNone SubUser scopeF toks =
      (if f_userSeen (o_f opts) then [f_user (o_f opts) @ CHR '':'' # f_pass (o_f opts)] else [])"
    using walk_userVals [OF w] by (simp add: initOptions_def)
  moreover have "if f_userSeen (o_f opts) then f_user (o_f opts) \<noteq> '''' \<and> CHR '':'' \<notin> set (f_user (o_f opts))
      else f_user (o_f opts) = '''' \<and> f_pass (o_f opts) = ''''"
    using extractOptions_user [OF assms] by simp
  moreover have "o_help opts = (''-help'' \<in> set toks)" "o_version opts = (''-version'' \<in> set toks)" "o_verbose opts = (''-v'' \<in> set toks)"
    using walk_global [OF w] by (simp_all add: initOptions_def)
  ultimately show ?thesis
    unfolding subVals_def subValsFrom_scoped blockScope.simps
    by (intro exI [of _ toks] conjI allI impI)
      (rule toks(1,2) toks(3) [rule_format] paths flags seen | assumption)+
qed

theorem extractOptions_blocks_witness:
  "\<exists>toks. [''-Q'', ''-key=k'', ''-dd'', ''-verify=0'', ''h:1''] = toks @ [''h:1''] \<and>
     subVals SubKey BlockQ toks = [''k'']"
proof -
  have "extractOptions [''-Q'', ''-key=k'', ''-dd'', ''-verify=0'', ''h:1''] =
     Inr (initOptions\<lparr>o_q := \<lparr>s_keyPath = ''k'', s_certPath = [], s_caPath = [], s_verify = False, s_seen = True\<rparr>,
       o_logLevel := 2\<rparr>, [''h:1''])"
    by code_simp
  from extractOptions_blocks [OF this] obtain toks where
    args: "[''-Q'', ''-key=k'', ''-dd'', ''-verify=0'', ''h:1''] = toks @ [''h:1'']"
    by blast
  moreover have "toks = [''-Q'', ''-key=k'', ''-dd'', ''-verify=0'']"
    using arg_cong [OF args, of butlast] by simp
  moreover have "subVals SubKey BlockQ [''-Q'', ''-key=k'', ''-dd'', ''-verify=0''] = [''k'']"
    by code_simp
  ultimately show ?thesis by blast
qed

end
