(* ===== verification/Relay_UDP.thy ===== *)
theory Relay_UDP
  imports Logx
begin

text \<open>
  The plaintext UDP relay of \<open>internal/relay/udp.go\<close> as a state machine: the receive loop of
  \<open>serveUDP\<close>, one reply goroutine per session (\<open>relayUDPReplies\<close>) and the reaper
  (\<open>reapUDPSessions\<close>), interleaved at the granularity of their critical sections and system calls. A
  session pointer is a number; \<open>u_heap\<close> holds the session objects, \<open>u_sessions\<close> the map from client
  addresses to pointers. What the network does (which datagrams arrive, whether a dial, a read or a
  write fails) is the choice of the step. The context, the listening socket with the goroutine that closes
  it once the context is cancelled, and the \<open>stop\<close> channel of the reaper are part of the state; the
  counters are 64 bits wide, as \<open>atomic.Int64\<close> is.
\<close>

section \<open>State\<close>

definition udpSessionIdleTimeout :: int where "udpSessionIdleTimeout = 2 * 60"
definition udpBufferSize :: nat where "udpBufferSize = 64 * 1024"

text \<open>Where a reply goroutine stands: blocked in \<open>Read\<close>; about to refresh \<open>last\<close> with a packet in hand;
  about to write it to the client; about to take the lock after a read error; about to close the
  socket; returned.\<close>

datatype rpc = RReading | RTouch "byte list" | RWrite "byte list" | RFailed | RClosing | RDone

record udpSession =
  u_key :: string
  u_last :: int
  u_sent :: "64 word"
  u_recv :: "64 word"
  u_open :: bool
  u_pc :: rpc

text \<open>Where \<open>serveUDP\<close> stands: blocked in \<open>ReadFromUDP\<close>; about to write a datagram to a session's socket; past
  the write but before \<open>sess.sent.Add\<close>; returned, which closes \<open>stop\<close>.\<close>

datatype mpc = MReceive | MSend nat string "byte list" | MCount nat nat | MStopped "io_error option"

text \<open>\<open>u_ctx\<close>: the context is cancelled; \<open>u_lnOpen\<close>: the listening socket is open; \<open>u_reaper\<close>: the reaper has
  not returned. The lists record what the network has seen: the datagrams received from each client and read from each
  session's socket, and, per session, what has been written to its socket on behalf of which client and
  what has been written to which client.\<close>

record udpState =
  u_sessions :: "string \<Rightarrow> nat option"
  u_heap :: "nat \<Rightarrow> udpSession option"
  u_next :: nat
  u_clock :: int
  u_main :: mpc
  u_ctx :: bool
  u_lnOpen :: bool
  u_reaper :: bool
  u_fromClient :: "(string \<times> byte list) list"
  u_fromTarget :: "(nat \<times> byte list) list"
  u_toTarget :: "(nat \<times> string \<times> byte list) list"
  u_toClient :: "(nat \<times> string \<times> byte list) list"
  u_log :: "log_entry list"

definition udpInit :: "int \<Rightarrow> udpState" where
  "udpInit now = \<lparr>u_sessions = (\<lambda>_. None), u_heap = (\<lambda>_. None), u_next = 0, u_clock = now, u_main = MReceive, u_ctx = False, u_lnOpen = True, u_reaper = True,
     u_fromClient = [], u_fromTarget = [], u_toTarget = [], u_toClient = [], u_log = []\<rparr>"

definition updSess :: "nat \<Rightarrow> (udpSession \<Rightarrow> udpSession) \<Rightarrow> udpState \<Rightarrow> udpState" where
  "updSess i f s = s\<lparr>u_heap := (u_heap s)(i := map_option f (u_heap s i))\<rparr>"

section \<open>The receive loop\<close>

text \<open>A datagram from \<open>key\<close> with no session and a dial that fails.\<close>

definition recvDialFail :: "logger option \<Rightarrow> string \<Rightarrow> string \<Rightarrow> byte list \<Rightarrow> udpState \<Rightarrow> udpState" where
  "recvDialFail l target key p s =
     s\<lparr>u_fromClient := u_fromClient s @ [(key, take udpBufferSize p)],
       u_log := u_log s @ log_Error l ''udp: %s: dial %s: %v'' [ArgS key, ArgS target, ArgErr]\<rparr>"

text \<open>The critical section for a datagram: look the session up, create it if there is none, refresh it.\<close>

definition recvPacket :: "(nat \<Rightarrow> bool) \<Rightarrow> logger option \<Rightarrow> string \<Rightarrow> string \<Rightarrow> byte list \<Rightarrow> udpState \<Rightarrow> udpState" where
  "recvPacket isPrint l target key p s =
     (let q = take udpBufferSize p;
          (i, s1) =
            (case u_sessions s key of
               Some i \<Rightarrow> (i, s)
             | None \<Rightarrow>
                 (u_next s,
                  s\<lparr>u_sessions := (u_sessions s)(key \<mapsto> u_next s),
                    u_heap := (u_heap s)(u_next s \<mapsto> \<lparr>u_key = key, u_last = u_clock s, u_sent = 0, u_recv = 0, u_open = True, u_pc = RReading\<rparr>),
                    u_next := Suc (u_next s),
                    u_log := u_log s @ log_Warn l ''udp %s: session created (-> %s)'' [ArgS key, ArgS target]\<rparr>));
          s2 = updSess i (\<lambda>u. u\<lparr>u_last := u_clock s\<rparr>) s1
      in s2\<lparr>u_main := MSend i key q,
            u_fromClient := u_fromClient s2 @ [(key, q)],
            u_log := u_log s2 @ Data isPrint l (''udp '' @ key) True q @
              log_Debug l ''udp %s: -> %d bytes'' [ArgS key, ArgI (int (length q))]\<rparr>)"

text \<open>The write to the session's socket, outside the lock, and then the count of it: in between the session's
  goroutine may close the session and read the counter.\<close>

definition sendOk :: "nat \<Rightarrow> string \<Rightarrow> byte list \<Rightarrow> udpState \<Rightarrow> udpState" where
  "sendOk i key q s = s\<lparr>u_main := MCount i (length q), u_toTarget := u_toTarget s @ [(i, key, q)]\<rparr>"

definition sendCount :: "nat \<Rightarrow> nat \<Rightarrow> udpState \<Rightarrow> udpState" where
  "sendCount i n s = (updSess i (\<lambda>u. u\<lparr>u_sent := u_sent u + of_nat n\<rparr>) s)\<lparr>u_main := MReceive\<rparr>"

definition sendErr :: "logger option \<Rightarrow> string \<Rightarrow> udpState \<Rightarrow> udpState" where
  "sendErr l key s =
     s\<lparr>u_main := MReceive, u_log := u_log s @ log_Error l ''udp: %s: write to target: %v'' [ArgS key, ArgErr]\<rparr>"

text \<open>An error of \<open>ReadFromUDP\<close> ends the loop; it is returned unless the context was cancelled.\<close>

definition recvErr :: "io_error \<Rightarrow> udpState \<Rightarrow> udpState" where
  "recvErr e s = s\<lparr>u_main := MStopped (if u_ctx s then None else Some e)\<rparr>"

text \<open>The goroutine that waits for the context: it closes the listening socket.\<close>

definition udpCloser :: "udpState \<Rightarrow> udpState" where
  "udpCloser s = s\<lparr>u_lnOpen := False\<rparr>"

section \<open>The reply goroutine\<close>

definition setPc :: "nat \<Rightarrow> rpc \<Rightarrow> udpState \<Rightarrow> udpState" where
  "setPc i pc s = updSess i (\<lambda>u. u\<lparr>u_pc := pc\<rparr>) s"

text \<open>A packet from the target, logged and counted. \<open>recv\<close> is read and written by this goroutine only, so it
  makes no difference that the count is part of this step.\<close>

definition replyRead :: "(nat \<Rightarrow> bool) \<Rightarrow> logger option \<Rightarrow> nat \<Rightarrow> string \<Rightarrow> byte list \<Rightarrow> udpState \<Rightarrow> udpState" where
  "replyRead isPrint l i key p s =
     (let q = take udpBufferSize p;
          s1 = updSess i (\<lambda>u. u\<lparr>u_pc := RTouch q, u_recv := u_recv u + of_nat (length q)\<rparr>) s
      in s1\<lparr>u_fromTarget := u_fromTarget s1 @ [(i, q)],
            u_log := u_log s1 @ Data isPrint l (''udp '' @ key) False q @
              log_Debug l ''udp %s: <- %d bytes'' [ArgS key, ArgI (int (length q))]\<rparr>)"

definition replyTouch :: "nat \<Rightarrow> byte list \<Rightarrow> udpState \<Rightarrow> udpState" where
  "replyTouch i q s = updSess i (\<lambda>u. u\<lparr>u_last := u_clock s, u_pc := RWrite q\<rparr>) s"

definition replyWrite :: "nat \<Rightarrow> string \<Rightarrow> byte list \<Rightarrow> udpState \<Rightarrow> udpState" where
  "replyWrite i key q s = (setPc i RReading s)\<lparr>u_toClient := u_toClient s @ [(i, key, q)]\<rparr>"

text \<open>After a read error: under the lock, remove the session from the map if it is still the one there.\<close>

definition replyDelete :: "nat \<Rightarrow> string \<Rightarrow> udpState \<Rightarrow> udpState" where
  "replyDelete i key s =
     (let s1 = (if u_sessions s key = Some i then s\<lparr>u_sessions := (u_sessions s)(key := None)\<rparr> else s)
      in setPc i RClosing s1)"

definition replyClose :: "logger option \<Rightarrow> nat \<Rightarrow> string \<Rightarrow> udpState \<Rightarrow> udpState" where
  "replyClose l i key s =
     (let s1 = updSess i (\<lambda>u. u\<lparr>u_open := False, u_pc := RDone\<rparr>) s;
          (sent, recv) = (case u_heap s i of None \<Rightarrow> (0, 0) | Some u \<Rightarrow> (u_sent u, u_recv u))
      in s1\<lparr>u_log := u_log s1 @
           (if InfoEnabled l then log_Info l ''udp %s: session closed (sent=%d recv=%d)'' [ArgS key, ArgI (sint sent), ArgI (sint recv)]
            else log_Warn l ''udp %s: session closed'' [ArgS key])\<rparr>)"

section \<open>The reaper\<close>

definition idle :: "udpState \<Rightarrow> nat \<Rightarrow> bool" where
  "idle s i = (case u_heap s i of None \<Rightarrow> False | Some u \<Rightarrow> u_clock s - u_last u > udpSessionIdleTimeout)"

text \<open>One pass over the map, under the lock: the sessions idle for too long are closed and deleted. The
  warnings, one per reaped session in the order of Go's map iteration, are given by \<open>order\<close>.\<close>

definition reapUDPSessions :: "logger option \<Rightarrow> string list \<Rightarrow> udpState \<Rightarrow> udpState" where
  "reapUDPSessions l order s =
     s\<lparr>u_sessions := (\<lambda>k. case u_sessions s k of None \<Rightarrow> None | Some i \<Rightarrow> if idle s i then None else Some i),
       u_heap := (\<lambda>i. case u_heap s i of None \<Rightarrow> None
                    | Some u \<Rightarrow> Some (if u_sessions s (u_key u) = Some i \<and> idle s i then u\<lparr>u_open := False\<rparr> else u)),
       u_log := u_log s @ concat (map (\<lambda>k. log_Warn l ''udp %s: session reaped (idle %s)'' [ArgS k, ArgS ''2m0s'']) order)\<rparr>"

text \<open>Once \<open>stop\<close> is closed the reaper may return. A tick that is ready at the same time may still be taken
  first, so a pass needs only that the reaper has not returned.\<close>

definition reaperStop :: "udpState \<Rightarrow> udpState" where
  "reaperStop s = s\<lparr>u_reaper := False\<rparr>"

section \<open>The steps\<close>

inductive udpStep :: "(nat \<Rightarrow> bool) \<Rightarrow> logger option \<Rightarrow> string \<Rightarrow> udpState \<Rightarrow> udpState \<Rightarrow> bool"
  for isPrint l target where
  recv_dial_fail: "u_main s = MReceive \<Longrightarrow> u_lnOpen s \<Longrightarrow> u_sessions s key = None \<Longrightarrow> udpStep isPrint l target s (recvDialFail l target key p s)"
| recv_packet: "u_main s = MReceive \<Longrightarrow> u_lnOpen s \<Longrightarrow> udpStep isPrint l target s (recvPacket isPrint l target key p s)"
| recv_err: "u_main s = MReceive \<Longrightarrow> udpStep isPrint l target s (recvErr e s)"
| send_ok: "u_main s = MSend i key q \<Longrightarrow> u_heap s i = Some u \<Longrightarrow> u_open u \<Longrightarrow> udpStep isPrint l target s (sendOk i key q s)"
| send_count: "u_main s = MCount i n \<Longrightarrow> udpStep isPrint l target s (sendCount i n s)"
| send_err: "u_main s = MSend i key q \<Longrightarrow> udpStep isPrint l target s (sendErr l key s)"
| reply_read: "u_heap s i = Some u \<Longrightarrow> u_pc u = RReading \<Longrightarrow> u_open u \<Longrightarrow> udpStep isPrint l target s (replyRead isPrint l i (u_key u) p s)"
| reply_read_err: "u_heap s i = Some u \<Longrightarrow> u_pc u = RReading \<Longrightarrow> udpStep isPrint l target s (setPc i RFailed s)"
| reply_touch: "u_heap s i = Some u \<Longrightarrow> u_pc u = RTouch q \<Longrightarrow> udpStep isPrint l target s (replyTouch i q s)"
| reply_write: "u_heap s i = Some u \<Longrightarrow> u_pc u = RWrite q \<Longrightarrow> u_lnOpen s \<Longrightarrow> udpStep isPrint l target s (replyWrite i (u_key u) q s)"
| reply_write_err: "u_heap s i = Some u \<Longrightarrow> u_pc u = RWrite q \<Longrightarrow> udpStep isPrint l target s (setPc i RDone s)"
| reply_delete: "u_heap s i = Some u \<Longrightarrow> u_pc u = RFailed \<Longrightarrow> udpStep isPrint l target s (replyDelete i (u_key u) s)"
| reply_close: "u_heap s i = Some u \<Longrightarrow> u_pc u = RClosing \<Longrightarrow> udpStep isPrint l target s (replyClose l i (u_key u) s)"
| reap: "u_reaper s \<Longrightarrow> distinct order \<Longrightarrow> set order = {k. \<exists>i. u_sessions s k = Some i \<and> idle s i} \<Longrightarrow>
     udpStep isPrint l target s (reapUDPSessions l order s)"
| reaper_stop: "u_main s = MStopped r \<Longrightarrow> u_reaper s \<Longrightarrow> udpStep isPrint l target s (reaperStop s)"
| cancel: "udpStep isPrint l target s (s\<lparr>u_ctx := True\<rparr>)"
| closer: "u_ctx s \<Longrightarrow> u_lnOpen s \<Longrightarrow> udpStep isPrint l target s (udpCloser s)"
| tick: "0 \<le> d \<Longrightarrow> udpStep isPrint l target s (s\<lparr>u_clock := u_clock s + d\<rparr>)"

inductive_cases udpStepE: "udpStep isPrint l target s t"

inductive udpReach :: "(nat \<Rightarrow> bool) \<Rightarrow> logger option \<Rightarrow> string \<Rightarrow> udpState \<Rightarrow> udpState \<Rightarrow> bool"
  for isPrint l target where
  refl: "udpReach isPrint l target s s"
| step: "udpReach isPrint l target s t \<Longrightarrow> udpStep isPrint l target t u \<Longrightarrow> udpReach isPrint l target s u"

section \<open>The invariant\<close>

text \<open>The table: pointers below \<open>u_next\<close> are the allocated ones; a session in the map is filed under its own
  client and its socket is open; a session outside the map has a closed socket, or its goroutine is just
  about to close it; and a session about to be closed is not in the map.\<close>

definition tableInv :: "udpState \<Rightarrow> bool" where
  "tableInv s \<longleftrightarrow>
     (\<forall>i. (u_heap s i = None) = (u_next s \<le> i)) \<and>
     (\<forall>k i. u_sessions s k = Some i \<longrightarrow> (\<exists>u. u_heap s i = Some u \<and> u_key u = k \<and> u_open u)) \<and>
     (\<forall>i u. u_heap s i = Some u \<longrightarrow> u_open u \<longrightarrow> u_sessions s (u_key u) \<noteq> Some i \<longrightarrow> u_pc u = RClosing) \<and>
     (\<forall>i u. u_heap s i = Some u \<longrightarrow> u_pc u = RClosing \<longrightarrow> u_sessions s (u_key u) \<noteq> Some i)"

definition owns :: "udpState \<Rightarrow> nat \<Rightarrow> string \<Rightarrow> bool" where
  "owns s i k \<longleftrightarrow> (\<exists>u. u_heap s i = Some u \<and> u_key u = k)"

text \<open>The traffic: every datagram in flight or written belongs to a session of the same client.\<close>

definition flowInv :: "udpState \<Rightarrow> bool" where
  "flowInv s \<longleftrightarrow>
     (\<forall>i k q. u_main s = MSend i k q \<longrightarrow> owns s i k) \<and>
     (\<forall>(i, k, q) \<in> set (u_toTarget s). owns s i k) \<and>
     (\<forall>(i, k, q) \<in> set (u_toClient s). owns s i k)"

definition bytesOn :: "nat \<Rightarrow> (nat \<times> 'a \<times> byte list) list \<Rightarrow> nat" where
  "bytesOn i xs = (\<Sum>(j, k, q) \<leftarrow> xs. if j = i then length q else 0)"

definition bytesRead :: "nat \<Rightarrow> (nat \<times> byte list) list \<Rightarrow> nat" where
  "bytesRead i xs = (\<Sum>(j, q) \<leftarrow> xs. if j = i then length q else 0)"

lemma bytesOn_append [simp]: "bytesOn i (xs @ ys) = bytesOn i xs + bytesOn i ys" "bytesRead i (as @ bs) = bytesRead i as + bytesRead i bs"
  by (simp_all add: bytesOn_def bytesRead_def)

lemma bytesOn_single [simp]: "bytesOn i [(j, k, q)] = (if j = i then length q else 0)" "bytesOn i [] = 0"
  "bytesRead i [(j, q)] = (if j = i then length q else 0)" "bytesRead i [] = 0"
  by (simp_all add: bytesOn_def bytesRead_def)

text \<open>The counters: a session's \<open>sent\<close> is the number of bytes written to its socket, but for a write that has
  not been counted yet; its \<open>recv\<close> is the number of bytes read from it; both modulo \<open>2 ^ 64\<close>.\<close>

definition uncounted :: "nat \<Rightarrow> udpState \<Rightarrow> nat" where
  "uncounted i s = (case u_main s of MCount j n \<Rightarrow> if j = i then n else 0 | _ \<Rightarrow> 0)"

definition countInv :: "udpState \<Rightarrow> bool" where
  "countInv s \<longleftrightarrow>
     (\<forall>i u. u_heap s i = Some u \<longrightarrow> u_sent u + of_nat (uncounted i s) = of_nat (bytesOn i (u_toTarget s)) \<and>
        u_recv u = of_nat (bytesRead i (u_fromTarget s))) \<and>
     (\<forall>i \<in> fst ` set (u_toTarget s). u_heap s i \<noteq> None) \<and> (\<forall>i \<in> fst ` set (u_fromTarget s). u_heap s i \<noteq> None)"

definition udpInv :: "udpState \<Rightarrow> bool" where
  "udpInv s \<longleftrightarrow> tableInv s \<and> flowInv s \<and> countInv s"

lemmas udp_ops = recvDialFail_def recvErr_def sendOk_def sendCount_def udpCloser_def reaperStop_def sendErr_def setPc_def replyRead_def replyTouch_def
  replyWrite_def replyDelete_def replyClose_def updSess_def Let_def

lemma udpInit_inv: "udpInv (udpInit now)"
  by (simp add: udpInv_def tableInv_def flowInv_def countInv_def udpInit_def)

lemma tableInv_fresh: "tableInv s \<Longrightarrow> u_heap s (u_next s) = None \<and> u_sessions s k \<noteq> Some (u_next s)"
proof -
  assume t: "tableInv s"
  then have h: "u_heap s (u_next s) = None" unfolding tableInv_def by blast
  have "u_sessions s k = Some (u_next s) \<Longrightarrow> \<exists>u. u_heap s (u_next s) = Some u"
    using t unfolding tableInv_def by blast
  with h show ?thesis by auto
qed

lemma bytesOn_absent: "i \<notin> fst ` set xs \<Longrightarrow> bytesOn i xs = 0" "i \<notin> fst ` set ys \<Longrightarrow> bytesRead i ys = 0"
  by (induction xs; auto simp: bytesOn_def) (induction ys; auto simp: bytesRead_def)

text \<open>The two outcomes of the critical section of the receive loop.\<close>

lemma recvPacket_old:
  assumes "u_sessions s key = Some i"
  shows "u_sessions (recvPacket isPrint l target key p s) = u_sessions s"
    "u_heap (recvPacket isPrint l target key p s) = (u_heap s)(i := map_option (\<lambda>u. u\<lparr>u_last := u_clock s\<rparr>) (u_heap s i))"
    "u_next (recvPacket isPrint l target key p s) = u_next s"
    "u_main (recvPacket isPrint l target key p s) = MSend i key (take udpBufferSize p)"
  using assms by (simp_all add: recvPacket_def updSess_def Let_def)

lemma recvPacket_new:
  assumes "u_sessions s key = None"
  shows "u_sessions (recvPacket isPrint l target key p s) = (u_sessions s)(key \<mapsto> u_next s)"
    "u_heap (recvPacket isPrint l target key p s) =
       (u_heap s)(u_next s \<mapsto> \<lparr>u_key = key, u_last = u_clock s, u_sent = 0, u_recv = 0, u_open = True, u_pc = RReading\<rparr>)"
    "u_next (recvPacket isPrint l target key p s) = Suc (u_next s)"
    "u_main (recvPacket isPrint l target key p s) = MSend (u_next s) key (take udpBufferSize p)"
  using assms by (simp_all add: recvPacket_def updSess_def Let_def)

lemma recvPacket_flows [simp]:
  "u_toTarget (recvPacket isPrint l target key p s) = u_toTarget s" "u_toClient (recvPacket isPrint l target key p s) = u_toClient s"
  "u_fromTarget (recvPacket isPrint l target key p s) = u_fromTarget s" "u_ctx (recvPacket isPrint l target key p s) = u_ctx s"
  "u_lnOpen (recvPacket isPrint l target key p s) = u_lnOpen s" "u_reaper (recvPacket isPrint l target key p s) = u_reaper s"
  by (simp_all add: recvPacket_def updSess_def Let_def split: option.splits)

lemma tableInv_cong:
  "u_sessions t = u_sessions s \<Longrightarrow> u_heap t = u_heap s \<Longrightarrow> u_next t = u_next s \<Longrightarrow> tableInv t = tableInv s"
  by (simp add: tableInv_def)

lemma tableI:
  assumes "\<And>i. u_next s \<le> i \<Longrightarrow> u_heap s i = None" "\<And>i. i < u_next s \<Longrightarrow> \<exists>u. u_heap s i = Some u"
    and "\<And>k i. u_sessions s k = Some i \<Longrightarrow> i < u_next s"
    and "\<And>k i u. u_sessions s k = Some i \<Longrightarrow> u_heap s i = Some u \<Longrightarrow> u_key u = k \<and> u_open u"
    and "\<And>i u. u_heap s i = Some u \<Longrightarrow> u_open u \<Longrightarrow> u_sessions s (u_key u) \<noteq> Some i \<Longrightarrow> u_pc u = RClosing"
    and "\<And>i u. u_heap s i = Some u \<Longrightarrow> u_pc u = RClosing \<Longrightarrow> u_sessions s (u_key u) \<noteq> Some i"
  shows "tableInv s"
  unfolding tableInv_def
proof (intro conjI allI impI)
  fix i show "(u_heap s i = None) = (u_next s \<le> i)"
    using assms(1,2) [of i] by (cases "u_next s \<le> i") auto
next
  fix k i assume k: "u_sessions s k = Some i"
  with assms(2) [OF assms(3) [OF k]] assms(4) [OF k] show "\<exists>u. u_heap s i = Some u \<and> u_key u = k \<and> u_open u" by blast
qed (use assms(5,6) in blast)+

lemma tableD:
  assumes "tableInv s"
  shows "u_next s \<le> i \<Longrightarrow> u_heap s i = None" "i < u_next s \<Longrightarrow> \<exists>u. u_heap s i = Some u"
    "u_heap s i = Some u \<Longrightarrow> i < u_next s"
    "u_sessions s k = Some i \<Longrightarrow> i < u_next s" "u_sessions s k = Some i \<Longrightarrow> u_heap s i = Some u \<Longrightarrow> u_key u = k \<and> u_open u"
    "u_heap s i = Some u \<Longrightarrow> u_open u \<Longrightarrow> u_sessions s (u_key u) \<noteq> Some i \<Longrightarrow> u_pc u = RClosing"
    "u_heap s i = Some u \<Longrightarrow> u_pc u = RClosing \<Longrightarrow> u_sessions s (u_key u) \<noteq> Some i"
proof -
  have 1: "(u_heap s i = None) = (u_next s \<le> i)" for i using assms unfolding tableInv_def by blast
  have 2: "u_sessions s k = Some i \<Longrightarrow> \<exists>u. u_heap s i = Some u \<and> u_key u = k \<and> u_open u" for k i
    using assms unfolding tableInv_def by blast
  show "u_next s \<le> i \<Longrightarrow> u_heap s i = None" "i < u_next s \<Longrightarrow> \<exists>u. u_heap s i = Some u" "u_heap s i = Some u \<Longrightarrow> i < u_next s"
    using 1 [of i] by (auto simp: not_le)
  show "u_sessions s k = Some i \<Longrightarrow> i < u_next s" using 1 [of i] 2 [of k i] by (auto simp: not_le)
  show "u_sessions s k = Some i \<Longrightarrow> u_heap s i = Some u \<Longrightarrow> u_key u = k \<and> u_open u" using 2 [of k i] by auto
  show "u_heap s i = Some u \<Longrightarrow> u_open u \<Longrightarrow> u_sessions s (u_key u) \<noteq> Some i \<Longrightarrow> u_pc u = RClosing"
    "u_heap s i = Some u \<Longrightarrow> u_pc u = RClosing \<Longrightarrow> u_sessions s (u_key u) \<noteq> Some i"
    using assms unfolding tableInv_def by blast+
qed

lemma updSess_table:
  assumes "tableInv s" "\<And>u. u_key (f u) = u_key u" "\<And>u. u_open (f u) = u_open u" 
    and "\<And>u. u_heap s i = Some u \<Longrightarrow> (u_pc (f u) = RClosing) = (u_pc u = RClosing)"
  shows "tableInv (updSess i f s)"
  using assms by (auto simp: tableInv_def updSess_def) metis

lemma recvPacket_table:
  assumes "tableInv s"
  shows "tableInv (recvPacket isPrint l target key p s)"
proof (cases "u_sessions s key")
  case None
  with tableInv_fresh [OF assms] assms show ?thesis
    by (auto simp: tableInv_def recvPacket_new le_Suc_eq)
next
  case (Some i)
  have "tableInv (updSess i (\<lambda>u. u\<lparr>u_last := u_clock s\<rparr>) s)"
    using assms by (rule updSess_table) simp_all
  then show ?thesis
    using recvPacket_old [OF Some] by (subst tableInv_cong [of _ "updSess i (\<lambda>u. u\<lparr>u_last := u_clock s\<rparr>) s"]) (simp_all add: updSess_def)
qed

lemma replyDelete_sel:
  "u_sessions (replyDelete i k s) = (\<lambda>x. if x = k \<and> u_sessions s k = Some i then None else u_sessions s x)"
  "u_heap (replyDelete i k s) = (u_heap s)(i := map_option (\<lambda>u. u\<lparr>u_pc := RClosing\<rparr>) (u_heap s i))"
  "u_next (replyDelete i k s) = u_next s" "u_main (replyDelete i k s) = u_main s"
  "u_toTarget (replyDelete i k s) = u_toTarget s" "u_toClient (replyDelete i k s) = u_toClient s"
  "u_fromTarget (replyDelete i k s) = u_fromTarget s" "u_ctx (replyDelete i k s) = u_ctx s"
  "u_lnOpen (replyDelete i k s) = u_lnOpen s" "u_reaper (replyDelete i k s) = u_reaper s"
  by (auto simp: replyDelete_def setPc_def updSess_def Let_def)

lemma replyDelete_table:
  assumes t: "tableInv s" and u: "u_heap s i = Some u"
  shows "tableInv (replyDelete i (u_key u) s)"
proof (rule tableI, goal_cases)
  case (4 k j v)
  then have k: "u_sessions s k = Some j" by (simp add: replyDelete_sel split: if_splits)
  show ?case
  proof (cases "j = i")
    case True
    with 4(2) u k show ?thesis using tableD(5) [OF t, of k i u] by (auto simp: replyDelete_sel)
  next
    case False
    with 4(2) k show ?thesis using tableD(5) [OF t, of k j v] by (simp add: replyDelete_sel)
  qed
next
  case (5 j v)
  show ?case
  proof (cases "j = i")
    case True
    with 5(1) u show ?thesis by (auto simp: replyDelete_sel)
  next
    case False
    then have v: "u_heap s j = Some v" using 5(1) by (simp add: replyDelete_sel)
    from 5(3) False have "u_sessions s (u_key v) \<noteq> Some j" by (auto simp: replyDelete_sel split: if_splits)
    then show ?thesis using tableD(6) [OF t v 5(2)] by simp
  qed
next
  case (6 j v)
  show ?case
  proof (cases "j = i")
    case True
    with 6(1) u show ?thesis by (auto simp: replyDelete_sel)
  next
    case False
    then have v: "u_heap s j = Some v" using 6(1) by (simp add: replyDelete_sel)
    then show ?thesis using tableD(7) [OF t v 6(2)] by (simp add: replyDelete_sel)
  qed
qed (use tableD(1-4) [OF t] u in \<open>auto simp: replyDelete_sel split: if_splits\<close>)

lemma replyClose_table:
  assumes t: "tableInv s" and u: "u_heap s i = Some u" "u_pc u = RClosing"
  shows "tableInv (replyClose l i (u_key u) s)"
proof -
  let ?t = "updSess i (\<lambda>u. u\<lparr>u_open := False, u_pc := RDone\<rparr>) s"
  have "tableInv ?t"
  proof (rule tableI, goal_cases)
    case (4 k j v)
    then show ?case using tableD(5) [OF t, of k j v] tableD(5) [OF t, of k i u] tableD(7) [OF t, of i u] u by (auto simp: updSess_def split: if_splits)
  next
    case (5 j v)
    then show ?case using tableD(6) [OF t, of j v] by (auto simp: updSess_def split: if_splits)
  next
    case (6 j v)
    then show ?case using tableD(7) [OF t, of j v] by (auto simp: updSess_def split: if_splits)
  qed (use tableD(1-4) [OF t] u in \<open>auto simp: updSess_def\<close>)
  then show ?thesis
    by (subst tableInv_cong [of _ ?t]) (simp_all add: replyClose_def Let_def split: prod.splits)
qed

lemma reap_table:
  assumes t: "tableInv s"
  shows "tableInv (reapUDPSessions l order s)"
proof (rule tableI, goal_cases)
  case (4 k j v)
  then show ?case using tableD(5) [OF t, of k j v] by (auto simp: reapUDPSessions_def split: option.splits if_splits)
next
  case (5 j v)
  then show ?case using tableD(6) [OF t, of j v] by (auto simp: reapUDPSessions_def split: option.splits if_splits)
next
  case (6 j v)
  then show ?case using tableD(7) [OF t, of j v] by (auto simp: reapUDPSessions_def split: option.splits if_splits)
qed (use tableD(1-4) [OF t] in \<open>auto simp: reapUDPSessions_def split: option.splits if_splits\<close>)

lemma updSess_log [simp]:
  "tableInv (s\<lparr>u_main := m\<rparr>) = tableInv s" "tableInv (s\<lparr>u_log := g\<rparr>) = tableInv s" "tableInv (s\<lparr>u_toTarget := x\<rparr>) = tableInv s"
  "tableInv (s\<lparr>u_toClient := x\<rparr>) = tableInv s" "tableInv (s\<lparr>u_clock := c\<rparr>) = tableInv s"
  "tableInv (s\<lparr>u_fromClient := y\<rparr>) = tableInv s" "tableInv (s\<lparr>u_fromTarget := z\<rparr>) = tableInv s"
  "tableInv (s\<lparr>u_ctx := d\<rparr>) = tableInv s" "tableInv (s\<lparr>u_lnOpen := d\<rparr>) = tableInv s" "tableInv (s\<lparr>u_reaper := d\<rparr>) = tableInv s"
  by (simp_all add: tableInv_def)

lemma udpStep_table:
  assumes "udpStep isPrint l target s t" "tableInv s"
  shows "tableInv t"
  using assms
proof cases
  case (reply_delete i u)
  then show ?thesis using assms replyDelete_table by simp
next
  case (reply_close i u)
  then show ?thesis using assms replyClose_table by simp
next
  case (reply_write_err i u q)
  then show ?thesis using assms by (auto simp: setPc_def intro!: updSess_table)
qed (auto simp: recvDialFail_def recvErr_def sendOk_def sendCount_def udpCloser_def reaperStop_def sendErr_def setPc_def replyRead_def replyTouch_def replyWrite_def Let_def
    assms recvPacket_table reap_table intro!: updSess_table)


text \<open>The other selectors of the operations.\<close>

lemma op_sel [simp]:
  "u_toTarget (updSess i f s) = u_toTarget s" "u_toClient (updSess i f s) = u_toClient s" "u_main (updSess i f s) = u_main s"
  "u_heap (updSess i f s) = (u_heap s)(i := map_option f (u_heap s i))" "u_sessions (updSess i f s) = u_sessions s"
  "u_ctx (updSess i f s) = u_ctx s" "u_lnOpen (updSess i f s) = u_lnOpen s" "u_reaper (updSess i f s) = u_reaper s"
  "u_clock (updSess i f s) = u_clock s" "u_fromClient (updSess i f s) = u_fromClient s" "u_fromTarget (updSess i f s) = u_fromTarget s"
  by (simp_all add: updSess_def)

lemma replyClose_sel:
  "u_heap (replyClose l i k s) = (u_heap s)(i := map_option (\<lambda>u. u\<lparr>u_open := False, u_pc := RDone\<rparr>) (u_heap s i))"
  "u_main (replyClose l i k s) = u_main s" "u_toTarget (replyClose l i k s) = u_toTarget s" "u_toClient (replyClose l i k s) = u_toClient s"
  "u_sessions (replyClose l i k s) = u_sessions s" "u_fromTarget (replyClose l i k s) = u_fromTarget s"
  "u_ctx (replyClose l i k s) = u_ctx s" "u_lnOpen (replyClose l i k s) = u_lnOpen s" "u_reaper (replyClose l i k s) = u_reaper s"
  by (simp_all add: replyClose_def Let_def split: prod.splits)

lemmas udp_sels = recvDialFail_def recvErr_def sendOk_def sendCount_def udpCloser_def reaperStop_def sendErr_def setPc_def replyRead_def
  replyTouch_def replyWrite_def replyDelete_sel replyClose_sel reapUDPSessions_def Let_def

text \<open>What a step can do to a session object: it is never deallocated, and its client never changes.\<close>

lemma udpStep_keeps:
  assumes "udpStep isPrint l target s t" "tableInv s" "u_heap s i = Some u"
  shows "\<exists>v. u_heap t i = Some v \<and> u_key v = u_key u"
  using assms
proof cases
  case (recv_packet key p)
  then show ?thesis
    using assms tableInv_fresh [OF assms(2)]
    by (cases "u_sessions s key") (auto simp: recvPacket_old recvPacket_new)
next
  case (reap order)
  then show ?thesis using assms by (auto simp: reapUDPSessions_def)
qed (use assms in \<open>auto simp: udp_sels\<close>)

lemma owns_step: "udpStep isPrint l target s t \<Longrightarrow> tableInv s \<Longrightarrow> owns s i k \<Longrightarrow> owns t i k"
  by (fastforce simp: owns_def dest: udpStep_keeps)

lemma recvPacket_owns:
  assumes t: "tableInv s" and m: "u_main (recvPacket isPrint l target key p s) = MSend i k q"
  shows "owns (recvPacket isPrint l target key p s) i k"
proof (cases "u_sessions s key")
  case None
  with m show ?thesis by (auto simp: recvPacket_new owns_def)
next
  case (Some j)
  then obtain u where "u_heap s j = Some u" using tableD(2) [OF t tableD(4) [OF t Some]] by blast
  with Some tableD(5) [OF t Some this] m show ?thesis by (auto simp: recvPacket_old owns_def)
qed

lemma udpStep_main:
  assumes "udpStep isPrint l target s t" "tableInv s" "u_main t = MSend i k q"
  shows "u_main s = MSend i k q \<or> owns t i k"
  using assms
proof cases
  case (recv_packet key p)
  then show ?thesis using assms recvPacket_owns by blast
qed (use assms in \<open>auto simp: udp_sels\<close>)

lemma udpStep_toTarget:
  assumes "udpStep isPrint l target s t"
  obtains "u_toTarget t = u_toTarget s" | i k q where "u_main s = MSend i k q" "t = sendOk i k q s" "u_heap s i \<noteq> None"
  using assms
proof cases
  case (send_ok i key q u)
  then show ?thesis using that(2) [of i key q] by auto
qed (use that(1) in \<open>auto simp: recvDialFail_def recvErr_def sendCount_def udpCloser_def reaperStop_def sendErr_def setPc_def replyRead_def replyTouch_def
    replyWrite_def replyDelete_sel replyClose_sel reapUDPSessions_def Let_def\<close>)

lemma udpStep_toClient:
  assumes "udpStep isPrint l target s t"
  obtains "u_toClient t = u_toClient s" | i u q where "u_heap s i = Some u" "u_pc u = RWrite q" "t = replyWrite i (u_key u) q s"
  using assms
proof cases
  case (reply_write i u q)
  then show ?thesis using that(2) by blast
qed (use that(1) in \<open>auto simp: recvDialFail_def recvErr_def sendOk_def sendCount_def udpCloser_def reaperStop_def sendErr_def setPc_def replyRead_def replyTouch_def
    replyDelete_sel replyClose_sel reapUDPSessions_def Let_def\<close>)

lemma udpStep_flow:
  assumes s: "udpStep isPrint l target s t" and tab: "tableInv s" and f: "flowInv s"
  shows "flowInv t"
proof -
  note keep = owns_step [OF s tab]
  have m: "u_main t = MSend i k q \<Longrightarrow> owns t i k" for i k q
    using udpStep_main [OF s tab] f keep by (auto simp: flowInv_def)
  have "\<forall>(i, k, q) \<in> set (u_toTarget t). owns t i k"
    using s
  proof (rule udpStep_toTarget)
    assume "u_toTarget t = u_toTarget s"
    then show ?thesis using f keep by (auto simp: flowInv_def)
  next
    fix i k q assume m: "u_main s = MSend i k q" "t = sendOk i k q s"
    then have "owns s i k" using f by (simp add: flowInv_def)
    then show ?thesis using f keep m by (auto simp: flowInv_def sendOk_def)
  qed
  moreover have "\<forall>(i, k, q) \<in> set (u_toClient t). owns t i k"
    using s
  proof (rule udpStep_toClient)
    assume "u_toClient t = u_toClient s"
    then show ?thesis using f keep by (auto simp: flowInv_def)
  next
    fix i u q assume m: "u_heap s i = Some u" "t = replyWrite i (u_key u) q s"
    then have "owns s i (u_key u)" by (simp add: owns_def)
    then show ?thesis using f keep m by (auto simp: flowInv_def replyWrite_def setPc_def)
  qed
  ultimately show ?thesis using m by (simp add: flowInv_def)
qed


text \<open>What the operations leave of the counters and the histories.\<close>

lemma countInv_absent:
  "countInv s \<Longrightarrow> u_heap s i = None \<Longrightarrow> bytesOn i (u_toTarget s) = 0 \<and> bytesRead i (u_fromTarget s) = 0"
  unfolding countInv_def by (metis bytesOn_absent)

lemma countInvI:
  assumes "\<And>i u. u_heap s i = Some u \<Longrightarrow> u_sent u + of_nat (uncounted i s) = of_nat (bytesOn i (u_toTarget s)) \<and> u_recv u = of_nat (bytesRead i (u_fromTarget s))"
    and "\<And>i k q. (i, k, q) \<in> set (u_toTarget s) \<Longrightarrow> u_heap s i \<noteq> None" "\<And>i q. (i, q) \<in> set (u_fromTarget s) \<Longrightarrow> u_heap s i \<noteq> None"
  shows "countInv s"
proof -
  have "u_heap s i \<noteq> None" if "i \<in> fst ` set (u_toTarget s)" for i using that assms(2) by fastforce
  moreover have "u_heap s i \<noteq> None" if "i \<in> fst ` set (u_fromTarget s)" for i using that assms(3) by fastforce
  ultimately show ?thesis using assms(1) unfolding countInv_def by blast
qed

lemma countInvD:
  assumes "countInv s"
  shows "u_heap s i = Some u \<Longrightarrow> u_sent u + of_nat (uncounted i s) = of_nat (bytesOn i (u_toTarget s))"
    "u_heap s i = Some u \<Longrightarrow> u_recv u = of_nat (bytesRead i (u_fromTarget s))"
    "(i, k, q) \<in> set (u_toTarget s) \<Longrightarrow> \<exists>u. u_heap s i = Some u" "(i, q) \<in> set (u_fromTarget s) \<Longrightarrow> \<exists>u. u_heap s i = Some u"
  using assms unfolding countInv_def by force+

text \<open>A step that moves no bytes and no counters.\<close>

lemma countInv_quiet:
  assumes "countInv s" "u_toTarget t = u_toTarget s" "u_fromTarget t = u_fromTarget s" "\<And>i. uncounted i t = uncounted i s"
    and "\<And>i v. u_heap t i = Some v \<Longrightarrow> \<exists>u. u_heap s i = Some u \<and> u_sent v = u_sent u \<and> u_recv v = u_recv u"
    and "\<And>i u. u_heap s i = Some u \<Longrightarrow> \<exists>v. u_heap t i = Some v"
  shows "countInv t"
proof (rule countInvI)
  fix i v assume "u_heap t i = Some v"
  with assms(5) obtain u where "u_heap s i = Some u" "u_sent v = u_sent u" "u_recv v = u_recv u" by blast
  with countInvD(1,2) [OF assms(1), of i u] show "u_sent v + of_nat (uncounted i t) = of_nat (bytesOn i (u_toTarget t)) \<and> u_recv v = of_nat (bytesRead i (u_fromTarget t))"
    by (simp add: assms(2-4))
qed (use countInvD(3,4) [OF assms(1)] assms(2,3,6) in fastforce)+

lemma udpStep_count:
  assumes s: "udpStep isPrint l target s t" and tab: "tableInv s" and c: "countInv s"
  shows "countInv t"
  using s
proof cases
  case (recv_packet key p)
  note sel = recvPacket_flows [of isPrint l target key p s]
  show ?thesis
  proof (cases "u_sessions s key")
    case (Some i)
    then show ?thesis
      using recv_packet by (intro countInv_quiet [OF c]) (auto simp: recvPacket_old uncounted_def sel split: if_splits)
  next
    case None
    have n: "u_heap s (u_next s) = None" using tableInv_fresh [OF tab, of key] by blast
    show ?thesis
    proof (rule countInvI)
      fix i v assume v: "u_heap t i = Some v"
      show "u_sent v + of_nat (uncounted i t) = of_nat (bytesOn i (u_toTarget t)) \<and> u_recv v = of_nat (bytesRead i (u_fromTarget t))"
      proof (cases "i = u_next s")
        case True
        with v recv_packet None countInv_absent [OF c n] show ?thesis by (auto simp: recvPacket_new uncounted_def sel)
      next
        case False
        with v recv_packet None countInvD(1,2) [OF c, of i v] show ?thesis by (simp add: recvPacket_new uncounted_def sel)
      qed
    qed (use countInvD(3,4) [OF c] recv_packet None in \<open>fastforce simp: recvPacket_new sel\<close>)+
  qed
next
  case (send_ok i key q u)
  then show ?thesis
    using countInvD [OF c] by (intro countInvI) (fastforce simp: sendOk_def uncounted_def split: if_splits)+
next
  case (send_count i n)
  then show ?thesis
    using countInvD [OF c] by (intro countInvI) (fastforce simp: sendCount_def uncounted_def add.assoc split: if_splits)+
next
  case (reply_read i u p)
  then show ?thesis
    using countInvD [OF c] by (intro countInvI) (fastforce simp: replyRead_def uncounted_def Let_def split: if_splits)+
next
  case (reap order)
  then show ?thesis
    by (intro countInv_quiet [OF c]) (auto simp: reapUDPSessions_def uncounted_def split: option.splits if_splits)
qed (intro countInv_quiet [OF c]; auto simp: recvDialFail_def recvErr_def sendErr_def udpCloser_def reaperStop_def setPc_def replyTouch_def
    replyWrite_def replyDelete_sel replyClose_sel uncounted_def Let_def split: if_splits)+

lemma udpReach_inv: "udpReach isPrint l target s t \<Longrightarrow> udpInv s \<Longrightarrow> udpInv t"
proof (induction rule: udpReach.induct)
  case (step s t u)
  then show ?case using udpStep_table udpStep_flow udpStep_count by (simp add: udpInv_def)
qed

text \<open>The reaper runs for as long as the loop does.\<close>

lemma udpStep_reaper:
  assumes "udpStep isPrint l target s t" "(\<exists>r. u_main s = MStopped r) \<or> u_reaper s"
  shows "(\<exists>r. u_main t = MStopped r) \<or> u_reaper t"
  using assms by cases (auto simp: udp_ops reapUDPSessions_def split: prod.splits)

lemma udpReach_reaper: "udpReach isPrint l target (udpInit now) s \<Longrightarrow> (\<exists>r. u_main s = MStopped r) \<or> u_reaper s"
proof (induction "udpInit now" s rule: udpReach.induct)
  case refl
  then show ?case by (simp add: udpInit_def)
next
  case (step t u)
  then show ?case using udpStep_reaper by blast
qed

section \<open>Properties of the UDP relay\<close>

text \<open>C2. In every state the UDP relay can reach, whatever the network does and however its goroutines
  interleave: the map files each session under the client that created it, with an open socket, and no
  two clients share a session; a socket is open only while its session is in the map or its own
  goroutine is just about to close it, so until the loop has returned every open socket is one the reaper
  sees; a session's \<open>sent\<close>, with the bytes of a write whose \<open>Add\<close> is still to come, is the number of bytes
  written to its socket, and its \<open>recv\<close> the number of bytes read from it, both modulo \<open>2 ^ 64\<close>.\<close>

theorem udp_sessions_sound:
  assumes "udpReach isPrint l target (udpInit now) s"
  shows "(\<forall>k i. u_sessions s k = Some i \<longrightarrow> (\<exists>u. u_heap s i = Some u \<and> u_key u = k \<and> u_open u)) \<and>
    (\<forall>k k' i. u_sessions s k = Some i \<longrightarrow> u_sessions s k' = Some i \<longrightarrow> k = k') \<and>
    (\<forall>i u. u_heap s i = Some u \<longrightarrow> u_open u \<longrightarrow> u_sessions s (u_key u) = Some i \<or> u_pc u = RClosing) \<and>
    ((\<exists>r. u_main s = MStopped r) \<or> u_reaper s) \<and>
    (\<forall>i u. u_heap s i = Some u \<longrightarrow>
       u_sent u + (case u_main s of MCount j n \<Rightarrow> if j = i then of_nat n else 0 | _ \<Rightarrow> 0) = of_nat (bytesOn i (u_toTarget s)) \<and>
       u_recv u = of_nat (bytesRead i (u_fromTarget s)))"
proof -
  have i: "tableInv s" "countInv s" using udpReach_inv [OF assms udpInit_inv] by (simp_all add: udpInv_def)
  have 2: "u_sessions s k = Some i \<Longrightarrow> \<exists>u. u_heap s i = Some u \<and> u_key u = k \<and> u_open u" for k i
    using i(1) unfolding tableInv_def by blast
  moreover have "u_sessions s k = Some i \<Longrightarrow> u_sessions s k' = Some i \<Longrightarrow> k = k'" for k k' i
    using 2 [of k i] 2 [of k' i] by auto
  moreover have "u_heap s i = Some u \<Longrightarrow> u_open u \<Longrightarrow> u_sessions s (u_key u) = Some i \<or> u_pc u = RClosing" for i u
    using tableD(6) [OF i(1)] by blast
  moreover have "of_nat (uncounted i s) = (case u_main s of MCount j n \<Rightarrow> if j = i then of_nat n else (0 :: 64 word) | _ \<Rightarrow> 0)" for i
    by (simp add: uncounted_def split: mpc.split)
  ultimately show ?thesis using countInvD(1,2) [OF i(2)] udpReach_reaper [OF assms] by simp
qed

text \<open>Clients are isolated: in every reachable state, each datagram written to a session's socket came
  from the client that owns the session, and each reply written to a client was read from a session
  that this client owns.\<close>

theorem udp_client_isolation:
  assumes "udpReach isPrint l target (udpInit now) s"
  shows "(\<forall>(i, k, q) \<in> set (u_toTarget s). \<exists>u. u_heap s i = Some u \<and> u_key u = k) \<and>
    (\<forall>(i, k, q) \<in> set (u_toClient s). \<exists>u. u_heap s i = Some u \<and> u_key u = k)"
  using udpReach_inv [OF assms udpInit_inv] by (simp add: udpInv_def flowInv_def owns_def)

text \<open>The reaper removes exactly the sessions that have been idle for more than two minutes, and closes
  exactly their sockets: every other session stays in the map with its socket as it was, and after a
  pass no session in the map is idle.\<close>

theorem reaper_exact:
  "(u_sessions (reapUDPSessions l order s) k = Some i \<longleftrightarrow> u_sessions s k = Some i \<and> \<not> idle s i) \<and>
    (u_heap s i = Some u \<longrightarrow> (\<exists>v. u_heap (reapUDPSessions l order s) i = Some v \<and>
       u_open v = (u_open u \<and> \<not> (u_sessions s (u_key u) = Some i \<and> u_clock s - u_last u > 120)) \<and>
       v\<lparr>u_open := u_open u\<rparr> = u)) \<and>
    (u_sessions (reapUDPSessions l order s) k = Some i \<longrightarrow> \<not> idle (reapUDPSessions l order s) i)"
proof -
  have "idle (reapUDPSessions l order s) j = idle s j" for j
    by (auto simp: idle_def reapUDPSessions_def split: option.splits)
  then show ?thesis
    by (auto simp: reapUDPSessions_def idle_def udpSessionIdleTimeout_def split: option.splits)
qed


text \<open>A run: a client's datagram creates a session and is sent.\<close>

definition demoUdp :: udpState where
  "demoUdp = recvPacket (\<lambda>r. True) None ''t:1'' ''c:9'' [1, 2] (udpInit 0)"

lemma demoUdp_reach: "udpReach (\<lambda>r. True) None ''t:1'' (udpInit 0) demoUdp"
  unfolding demoUdp_def
  by (rule udpReach.step [OF udpReach.refl]) (rule recv_packet, simp_all add: udpInit_def)

lemma demoUdp_sel:
  "u_sessions demoUdp ''c:9'' = Some 0" "u_main demoUdp = MSend 0 ''c:9'' [1, 2]" "u_clock demoUdp = 0"
  "u_heap demoUdp 0 = Some \<lparr>u_key = ''c:9'', u_last = 0, u_sent = 0, u_recv = 0, u_open = True, u_pc = RReading\<rparr>"
  by (simp_all add: demoUdp_def recvPacket_def udpInit_def updSess_def udpBufferSize_def Let_def)

lemma demoUdp_sent_reach: "udpReach (\<lambda>r. True) None ''t:1'' (udpInit 0) (sendOk 0 ''c:9'' [1, 2] demoUdp)"
  by (rule udpReach.step [OF demoUdp_reach]) (rule send_ok [OF demoUdp_sel(2,4)], simp)

lemma demoUdp_counted_reach: "udpReach (\<lambda>r. True) None ''t:1'' (udpInit 0) (sendCount 0 2 (sendOk 0 ''c:9'' [1, 2] demoUdp))"
  by (rule udpReach.step [OF demoUdp_sent_reach]) (rule send_count, simp add: sendOk_def)

theorem udp_sessions_sound_witness:
  "\<exists>u. u_heap demoUdp 0 = Some u \<and> u_key u = ''c:9'' \<and> u_open u"
  using udp_sessions_sound [OF demoUdp_reach] demoUdp_sel(1) by blast

theorem udp_client_isolation_witness:
  "(0, ''c:9'', [1, 2]) \<in> set (u_toTarget (sendOk 0 ''c:9'' [1, 2] demoUdp)) \<and>
   (\<exists>u. u_heap (sendOk 0 ''c:9'' [1, 2] demoUdp) 0 = Some u \<and> u_key u = ''c:9'')"
proof -
  have "(0, ''c:9'', [1, 2]) \<in> set (u_toTarget (sendOk 0 ''c:9'' [1, 2] demoUdp))" by (simp add: sendOk_def)
  with udp_client_isolation [OF demoUdp_sent_reach] show ?thesis by blast
qed

theorem reaper_exact_witness:
  "u_sessions (reapUDPSessions None [''c:9''] (demoUdp\<lparr>u_clock := 121\<rparr>)) ''c:9'' \<noteq> Some 0 \<and>
   u_sessions (reapUDPSessions None [] (demoUdp\<lparr>u_clock := 120\<rparr>)) ''c:9'' = Some 0"
  using reaper_exact [of None "[''c:9'']" "demoUdp\<lparr>u_clock := 121\<rparr>" "''c:9''" 0]
    reaper_exact [of None "[]" "demoUdp\<lparr>u_clock := 120\<rparr>" "''c:9''" 0]
  by (simp add: demoUdp_sel idle_def udpSessionIdleTimeout_def)

section \<open>Refinement of an address translation table\<close>

text \<open>The abstract specification: associations between clients and outgoing ports. An association is opened
  for one client and belongs to it for ever; a client has at most one current association; datagrams
  go out through, and come back from, an association of the client they belong to.\<close>

record natTable =
  n_owner :: "nat \<Rightarrow> string option"
  n_current :: "string \<Rightarrow> nat option"
  n_out :: "(nat \<times> string \<times> byte list) list"
  n_back :: "(nat \<times> string \<times> byte list) list"

inductive natStep :: "natTable \<Rightarrow> natTable \<Rightarrow> bool" where
  nat_open: "n_current n k = None \<Longrightarrow> n_owner n i = None \<Longrightarrow> natStep n (n\<lparr>n_owner := (n_owner n)(i \<mapsto> k), n_current := (n_current n)(k \<mapsto> i)\<rparr>)"
| nat_drop: "(\<And>k i. c k = Some i \<Longrightarrow> n_current n k = Some i) \<Longrightarrow> natStep n (n\<lparr>n_current := c\<rparr>)"
| nat_out: "n_owner n i = Some k \<Longrightarrow> natStep n (n\<lparr>n_out := n_out n @ [(i, k, q)]\<rparr>)"
| nat_back: "n_owner n i = Some k \<Longrightarrow> natStep n (n\<lparr>n_back := n_back n @ [(i, k, q)]\<rparr>)"

definition natOf :: "udpState \<Rightarrow> natTable" where
  "natOf s = \<lparr>n_owner = (\<lambda>i. map_option u_key (u_heap s i)), n_current = u_sessions s, n_out = u_toTarget s, n_back = u_toClient s\<rparr>"

lemma natOf_eqI:
  "\<lbrakk>\<And>i. map_option u_key (u_heap t i) = map_option u_key (u_heap s i); u_sessions t = u_sessions s; u_toTarget t = u_toTarget s; u_toClient t = u_toClient s\<rbrakk>
   \<Longrightarrow> natOf t = natOf s"
  by (simp add: natOf_def)

text \<open>A forward simulation: the concrete steps keep an invariant, and from a state with the invariant each is
  an abstract step or invisible.\<close>

locale simulation =
  fixes cstep :: "'c \<Rightarrow> 'c \<Rightarrow> bool" and astep :: "'a \<Rightarrow> 'a \<Rightarrow> bool" and inv :: "'c \<Rightarrow> bool" and abs :: "'c \<Rightarrow> 'a"
  assumes keeps: "cstep s t \<Longrightarrow> inv s \<Longrightarrow> inv t"
    and simulates: "cstep s t \<Longrightarrow> inv s \<Longrightarrow> abs t = abs s \<or> astep (abs s) (abs t)"
begin

lemma run_keeps: "cstep\<^sup>*\<^sup>* s t \<Longrightarrow> inv s \<Longrightarrow> inv t"
  by (induction rule: rtranclp_induct) (auto dest: keeps)

lemma run_simulates: "cstep\<^sup>*\<^sup>* s t \<Longrightarrow> inv s \<Longrightarrow> astep\<^sup>*\<^sup>* (abs s) (abs t)"
proof (induction rule: rtranclp_induct)
  case (step t u)
  from step.hyps(1) step.prems have "inv t" by (rule run_keeps)
  with simulates [OF step.hyps(2)] step show ?case by (metis rtranclp.rtrancl_into_rtrancl)
qed simp

end

text \<open>Every step of the relay is a step of the table, or changes nothing the table shows.\<close>

lemma udpStep_simulates:
  assumes s: "udpStep isPrint l target s t" and inv: "udpInv s"
  shows "natOf t = natOf s \<or> natStep (natOf s) (natOf t)"
proof -
  have tab: "tableInv s" and fl: "flowInv s" using inv by (simp_all add: udpInv_def)
  show ?thesis
    using s
  proof cases
    case (recv_packet key p)
    show ?thesis
    proof (cases "u_sessions s key")
      case (Some i)
      then have "natOf t = natOf s"
        using recv_packet by (intro natOf_eqI) (auto simp: recvPacket_old option.map_comp comp_def)
      then show ?thesis ..
    next
      case None
      have "natOf t = (natOf s)\<lparr>n_owner := (n_owner (natOf s))(u_next s \<mapsto> key), n_current := (n_current (natOf s))(key \<mapsto> u_next s)\<rparr>"
        using recv_packet None by (auto simp: natOf_def recvPacket_new)
      moreover have "n_current (natOf s) key = None" "n_owner (natOf s) (u_next s) = None"
        using None tableInv_fresh [OF tab] by (simp_all add: natOf_def)
      ultimately show ?thesis using nat_open by metis
    qed
  next
    case (send_ok i key q u)
    then have "n_owner (natOf s) i = Some key"
      using fl by (auto simp: flowInv_def owns_def natOf_def)
    moreover have "natOf t = (natOf s)\<lparr>n_out := n_out (natOf s) @ [(i, key, q)]\<rparr>"
      using send_ok by (auto simp: natOf_def sendOk_def option.map_comp comp_def)
    ultimately show ?thesis using nat_out by metis
  next
    case (reply_write i u q)
    then have "n_owner (natOf s) i = Some (u_key u)" by (simp add: natOf_def)
    moreover have "natOf t = (natOf s)\<lparr>n_back := n_back (natOf s) @ [(i, u_key u, q)]\<rparr>"
      using reply_write by (auto simp: natOf_def replyWrite_def setPc_def option.map_comp comp_def)
    ultimately show ?thesis using nat_back by metis
  next
    case (reply_delete i u)
    have "natOf t = (natOf s)\<lparr>n_current := u_sessions t\<rparr>"
      using reply_delete by (auto simp: natOf_def replyDelete_sel option.map_comp comp_def)
    moreover have "u_sessions t k = Some j \<Longrightarrow> n_current (natOf s) k = Some j" for k j
      using reply_delete by (auto simp: natOf_def replyDelete_sel split: if_splits)
    ultimately show ?thesis using nat_drop by metis
  next
    case (reap order)
    have "natOf t = (natOf s)\<lparr>n_current := u_sessions t\<rparr>"
      using reap by (auto simp: natOf_def reapUDPSessions_def split: option.splits)
    moreover have "u_sessions t k = Some j \<Longrightarrow> n_current (natOf s) k = Some j" for k j
      using reap by (auto simp: natOf_def reapUDPSessions_def split: option.splits if_splits)
    ultimately show ?thesis using nat_drop by metis
  qed (auto simp: natOf_def recvDialFail_def recvErr_def sendCount_def udpCloser_def reaperStop_def sendErr_def setPc_def replyRead_def replyTouch_def replyClose_sel
      option.map_comp comp_def Let_def)
qed


lemma udpStep_inv: "udpStep isPrint l target s t \<Longrightarrow> udpInv s \<Longrightarrow> udpInv t"
  using udpStep_table udpStep_flow udpStep_count by (simp add: udpInv_def)

interpretation udp_nat: simulation "udpStep isPrint l target" natStep udpInv natOf for isPrint l target
  by unfold_locales (erule (1) udpStep_inv, erule (1) udpStep_simulates)

lemma udpReach_rtranclp: "udpReach isPrint l target s t \<Longrightarrow> (udpStep isPrint l target)\<^sup>*\<^sup>* s t"
  by (induction rule: udpReach.induct) auto

lemma udpReach_trans: "udpReach isPrint l target s t \<Longrightarrow> udpReach isPrint l target r s \<Longrightarrow> udpReach isPrint l target r t"
  by (induction rule: udpReach.induct) (auto intro: udpReach.step)

definition emptyTable :: natTable where
  "emptyTable = \<lparr>n_owner = (\<lambda>_. None), n_current = (\<lambda>_. None), n_out = [], n_back = []\<rparr>"

text \<open>C3. The UDP relay implements an address translation table: every execution of its goroutines, seen
  through the sessions' owners, the map and the datagrams moved, is an execution of the table that
  starts empty.\<close>

theorem udp_refines_nat:
  assumes "udpReach isPrint l target (udpInit now) s"
  shows "natStep\<^sup>*\<^sup>* emptyTable (natOf s)"
proof -
  have "natOf (udpInit now) = emptyTable"
    by (simp add: natOf_def udpInit_def emptyTable_def)
  with udp_nat.run_simulates [OF udpReach_rtranclp [OF assms] udpInit_inv] show ?thesis by simp
qed

theorem udp_refines_nat_witness:
  "natStep\<^sup>*\<^sup>* emptyTable (natOf (sendOk 0 ''c:9'' [1, 2] demoUdp)) \<and> natOf (sendOk 0 ''c:9'' [1, 2] demoUdp) \<noteq> emptyTable"
  using udp_refines_nat [OF demoUdp_sent_reach] by (simp add: natOf_def sendOk_def emptyTable_def)

section \<open>A reply goroutine that gives up\<close>



text \<open>The state after a reply has been read and writing it to the client has failed.\<close>

definition demoDead :: udpState where
  "demoDead = setPc 0 RDone (replyTouch 0 [3] (replyRead (\<lambda>r. True) None 0 ''c:9'' [3] (sendCount 0 2 (sendOk 0 ''c:9'' [1, 2] demoUdp))))"

lemma demoDead_reach: "udpReach (\<lambda>r. True) None ''t:1'' (udpInit 0) demoDead"
proof -
  let ?s1 = "sendCount 0 2 (sendOk 0 ''c:9'' [1, 2] demoUdp)"
  let ?s2 = "replyRead (\<lambda>r. True) None 0 ''c:9'' [3] ?s1"
  let ?s3 = "replyTouch 0 [3] ?s2"
  have 1: "udpStep (\<lambda>r. True) None ''t:1'' ?s1 ?s2"
    using reply_read [of ?s1 0 _ "\<lambda>r. True" None "''t:1''" "[3]"] by (simp add: sendOk_def sendCount_def demoUdp_sel)
  have h2: "\<exists>u. u_heap ?s2 0 = Some u \<and> u_pc u = RTouch [3]" "\<exists>u. u_heap ?s3 0 = Some u \<and> u_pc u = RWrite [3]"
    by (simp_all add: replyTouch_def replyRead_def sendOk_def sendCount_def demoUdp_sel udpBufferSize_def Let_def)
  then have 2: "udpStep (\<lambda>r. True) None ''t:1'' ?s2 ?s3" "udpStep (\<lambda>r. True) None ''t:1'' ?s3 demoDead"
    unfolding demoDead_def by (auto intro: reply_touch reply_write_err)
  show ?thesis
    by (rule udpReach.step [OF udpReach.step [OF udpReach.step [OF demoUdp_counted_reach 1] 2(1)] 2(2)])
qed




section \<open>Sessions that outlive the loop\<close>

text \<open>Once the loop and the reaper have returned, only a session's own goroutine can close its socket.\<close>

definition abandoned :: "nat \<Rightarrow> udpState \<Rightarrow> bool" where
  "abandoned i s \<longleftrightarrow> (\<exists>r. u_main s = MStopped r) \<and> \<not> u_reaper s \<and> (\<exists>u. u_heap s i = Some u \<and> u_open u \<and> u_pc u = RDone)"

lemma udpStep_abandoned: "udpStep isPrint l target s t \<Longrightarrow> abandoned i s \<Longrightarrow> abandoned i t"
  by (erule udpStepE) (auto simp: abandoned_def recvDialFail_def recvErr_def sendErr_def udpCloser_def reaperStop_def setPc_def replyRead_def
      replyTouch_def replyWrite_def replyDelete_sel replyClose_sel Let_def)

lemma udpReach_abandoned: "udpReach isPrint l target s t \<Longrightarrow> abandoned i s \<Longrightarrow> abandoned i t"
  by (induction rule: udpReach.induct) (auto intro: udpStep_abandoned)

text \<open>\<open>serveUDP\<close> returns without closing its sessions: there is a reachable state in which it and the reaper have
  returned and a session's socket is open, and it is never closed from then on.\<close>

lemma udp_stop_leaks:
  "\<exists>s i u. udpReach (\<lambda>r. True) None ''t:1'' (udpInit 0) s \<and> u_main s = MStopped (Some EOF) \<and> u_heap s i = Some u \<and> u_open u \<and>
     (\<forall>t. udpReach (\<lambda>r. True) None ''t:1'' s t \<longrightarrow> (\<exists>v. u_heap t i = Some v \<and> u_open v))"
proof -
  let ?s1 = "recvErr EOF demoDead"
  let ?s2 = "reaperStop ?s1"
  have m: "u_main demoDead = MReceive" "\<not> u_ctx demoDead" "u_reaper demoDead"
    by (simp_all add: demoDead_def setPc_def replyTouch_def replyRead_def sendOk_def sendCount_def demoUdp_def udpInit_def Let_def)
  have 1: "udpStep (\<lambda>r. True) None ''t:1'' demoDead ?s1" by (rule recv_err) (rule m(1))
  have 2: "udpStep (\<lambda>r. True) None ''t:1'' ?s1 ?s2" by (rule reaper_stop) (simp_all add: recvErr_def m)
  have r: "udpReach (\<lambda>r. True) None ''t:1'' (udpInit 0) ?s2"
    by (rule udpReach.step [OF udpReach.step [OF demoDead_reach 1] 2])
  have a: "abandoned 0 ?s2" "u_main ?s2 = MStopped (Some EOF)"
    using m by (simp_all add: abandoned_def reaperStop_def recvErr_def demoDead_def setPc_def replyTouch_def replyRead_def sendOk_def sendCount_def demoUdp_sel Let_def)
  then obtain u where "u_heap ?s2 0 = Some u" "u_open u" by (auto simp: abandoned_def)
  with r a udpReach_abandoned [of "\<lambda>r. True" None "''t:1''" ?s2 _ 0] show ?thesis
    by (intro exI [of _ ?s2] exI [of _ 0] exI [of _ u]) (auto simp: abandoned_def)
qed

end
