(* ===== verification/Relay.thy ===== *)
theory Relay
  imports Listener Tlsutil_Props Config_Parse Relay_UDP
begin

text \<open>
  Package \<open>relay\<close>: the TLS configurations it derives from a parsed configuration and \<open>Run\<close>
  (\<open>relay.go\<close>), the TCP listener and its connections (\<open>tcp.go\<close>), and the start of the UDP listener
  with its DTLS variant (\<open>udp.go\<close>). The environment adds to that of the proxies what TLS and UDP need: listening,
  dialing and resolving, which belong to \<open>crypto/tls\<close>, \<open>net\<close> and the DTLS library. A stream is read to its
  end (\<open>readsOf\<close>); a UDP socket has no end of stream, so a plaintext UDP target comes with the sequence of
  its reads: the replies, and an error if the kernel ever reports one.
\<close>

record relay_env =
  r_net :: net_env
  r_crypto :: crypto_env
  r_draw :: draw
  r_Listen :: "string \<Rightarrow> (io_error, accept list) result"
  r_tlsListen :: "string \<Rightarrow> tls_Config \<Rightarrow> (io_error, accept list) result"
  r_dtlsListen :: "string \<Rightarrow> dtls_Config \<Rightarrow> (io_error, accept list) result"
  r_ListenUDP :: "string \<Rightarrow> (io_error, unit) result"
  r_ResolveUDPAddr :: "string \<Rightarrow> (io_error, string) result"
  r_tlsDial :: "string \<Rightarrow> tls_Config \<Rightarrow> (io_error, conn) result"
  r_dtlsDial :: "string \<Rightarrow> dtls_Config \<Rightarrow> (io_error, conn) result"
  r_udpDial :: "string \<Rightarrow> (io_error, conn \<times> reads) result"
  r_tlsState :: "string \<times> string"
  r_dtlsHalfCloses :: bool

section \<open>Names and configurations\<close>

definition splitHostPort :: "string \<Rightarrow> string \<times> string \<times> string option" where
  "splitHostPort addr =
     (let i = LastIndexByte addr CHR '':'' in
      if i < 0 then (addr, '''', Some addr)
      else (trimBytes {CHR ''['', CHR '']''} (sliceTo addr i), sliceFrom addr (i + 1), None))"

definition serverName :: "string \<Rightarrow> string" where
  "serverName addr = (case splitHostPort addr of (host, _, err) \<Rightarrow> if err \<noteq> None then '''' else host)"

definition clientTLSConfig :: "crypto_env \<Rightarrow> Config \<Rightarrow> (tls_error, tls_Config) result" where
  "clientTLSConfig ce cfg =
     (let c = ClientTLS cfg in
      ClientConfig ce (ct_CertPath c) (ct_KeyPath c) (ct_CAPath c) (serverName (Addr (Target cfg))) (ct_Verify c))"

text \<open>With the signer that \<open>GetCertificate\<close> closes over, in MITM mode.\<close>

definition serverTLSConfig :: "crypto_env \<Rightarrow> Config \<Rightarrow> (tls_error, tls_Config \<times> MITMSigner option) result" where
  "serverTLSConfig ce cfg =
     (if mi_SignCAPath (MITM cfg) \<noteq> '''' then
        (case LoadMITMSigner ce (mi_SignCAPath (MITM cfg)) of
           Inl err \<Rightarrow> Inl err
         | Inr signer \<Rightarrow>
             (case MITMServerConfig ce (mi_ServerName (MITM cfg)) (mi_CAPath (MITM cfg)) (mi_VerifyClient (MITM cfg)) of
                Inl err \<Rightarrow> Inl err
              | Inr tc \<Rightarrow> Inr (tc, Some signer)))
      else
        (let s = ServerTLS cfg in
         case ServerConfig ce (st_CertPath s) (st_KeyPath s) (st_CAPath s) (st_VerifyClient s) of
           Inl err \<Rightarrow> Inl err
         | Inr tc \<Rightarrow> Inr (tc, None)))"

definition clientDTLSConfig :: "crypto_env \<Rightarrow> Config \<Rightarrow> (tls_error, dtls_Config) result" where
  "clientDTLSConfig ce cfg =
     (let c = ClientTLS cfg in
      ClientConfigDTLS ce (ct_CertPath c) (ct_KeyPath c) (ct_CAPath c) (serverName (Addr (Target cfg))) (ct_Verify c))"

definition serverDTLSConfig :: "crypto_env \<Rightarrow> draw \<Rightarrow> Config \<Rightarrow> (tls_error, dtls_Config) result" where
  "serverDTLSConfig ce dr cfg =
     (if mi_SignCAPath (MITM cfg) \<noteq> '''' then
        (case LoadMITMSigner ce (mi_SignCAPath (MITM cfg)) of
           Inl err \<Rightarrow> Inl err
         | Inr signer \<Rightarrow>
             fst (MITMServerConfigDTLS ce dr signer (mi_ServerName (MITM cfg)) (mi_CAPath (MITM cfg)) (mi_VerifyClient (MITM cfg))))
      else
        (let s = ServerTLS cfg in
         ServerConfigDTLS ce (st_CertPath s) (st_KeyPath s) (st_CAPath s) (st_VerifyClient s)))"

section \<open>The TCP listener\<close>

datatype relay_error = CfgError tls_error | NetError io_error

text \<open>Dialing the target of a TCP connection; the flag says whether the result is a \<open>*tls.Conn\<close>.\<close>

definition dialTarget :: "relay_env \<Rightarrow> Config \<Rightarrow> (relay_error, conn \<times> bool) result" where
  "dialTarget env cfg =
     (if SSL (Target cfg) then
        (case clientTLSConfig (r_crypto env) cfg of
           Inl e \<Rightarrow> Inl (CfgError e)
         | Inr tc \<Rightarrow>
             (case r_tlsDial env (Addr (Target cfg)) tc of Inl e \<Rightarrow> Inl (NetError e) | Inr c \<Rightarrow> Inr (c, True)))
      else
        (case e_dial (r_net env) 0 (Addr (Target cfg)) of Inl e \<Rightarrow> Inl (NetError e) | Inr c \<Rightarrow> Inr (c, False)))"

definition handleTCPConn :: "relay_env \<Rightarrow> Config \<Rightarrow> logger option \<Rightarrow> string \<Rightarrow> conn \<Rightarrow> session option" where
  "handleTCPConn env cfg l remote src =
     (let label = ''tcp '' @ remote;
          target = Addr (Target cfg);
          lg0 = log_Warn l ''%s: accepted'' [ArgS label];
          finish = (\<lambda>lg. Some \<lparr>ses_client = conn_close src, ses_dst = None, ses_others = [], ses_log = lg0 @ lg\<rparr>)
      in case dialTarget env cfg of
           Inl (CfgError _) \<Rightarrow> finish (log_Error l ''tcp: %s: %v'' [ArgS remote, ArgErr])
         | Inl (NetError _) \<Rightarrow> finish (log_Error l ''tcp: %s: dial %s: %v'' [ArgS remote, ArgS target, ArgErr])
         | Inr (dst, isTLS) \<Rightarrow>
             relaySession (r_net env) l label (pipeConn True True (readsOf (r_net env) src) (readsOf (r_net env) dst) src dst) []
               (lg0 @ log_Info l ''%s: connected to %s'' [ArgS label, ArgS target] @
                (if isTLS \<and> InfoEnabled l
                 then log_Info l ''%s: tls handshake with target: version=%x cipher=%s''
                   [ArgS label, ArgS (fst (r_tlsState env)), ArgS (snd (r_tlsState env))]
                 else [])))"

text \<open>A listener's log, its sessions and the value it returned, none while it runs.\<close>

type_synonym served = "log_entry list \<times> session option list \<times> relay_error option option"

definition serveAccepted :: "log_entry list \<Rightarrow> (string \<Rightarrow> conn \<Rightarrow> session option) \<Rightarrow> accept list \<Rightarrow> served" where
  "serveAccepted banner handle as =
     (case acceptLoop handle as of (hs, r) \<Rightarrow> (banner, hs, map_option (map_option NetError) r))"

text \<open>The listening half of \<open>serveTCP\<close>, and \<open>serveTCP\<close>. The goroutine that closes the listener when the
  context is cancelled is the \<open>LnCloser\<close> step of \<open>lnStep\<close>, which \<open>Run\<close> interleaves with the loop.\<close>

definition listenTCP :: "relay_env \<Rightarrow> Config \<Rightarrow> (relay_error, accept list) result" where
  "listenTCP env cfg =
     (if SSL (Listen cfg) then
        (case serverTLSConfig (r_crypto env) cfg of
           Inl e \<Rightarrow> Inl (CfgError e)
         | Inr (tc, _) \<Rightarrow>
             (case r_tlsListen env (Addr (Listen cfg)) tc of Inl e \<Rightarrow> Inl (NetError e) | Inr as \<Rightarrow> Inr as))
      else (case r_Listen env (Addr (Listen cfg)) of Inl e \<Rightarrow> Inl (NetError e) | Inr as \<Rightarrow> Inr as))"

definition serveTCP :: "relay_env \<Rightarrow> Config \<Rightarrow> logger option \<Rightarrow> served" where
  "serveTCP env cfg l =
     (case listenTCP env cfg of
        Inl e \<Rightarrow> ([], [], Some (Some e))
      | Inr as \<Rightarrow> serveAccepted (log_Print l ''tcp: listening on %s -> %s'' [ArgS (Addr (Listen cfg)), ArgS (Addr (Target cfg))])
          (handleTCPConn env cfg l) as)"

section \<open>The UDP listener\<close>

text \<open>Up to the receive loop: what it starts from.\<close>

definition startUDP :: "relay_env \<Rightarrow> Config \<Rightarrow> logger option \<Rightarrow> (relay_error, udpState) result" where
  "startUDP env cfg l =
     (case r_ResolveUDPAddr env (Addr (Listen cfg)) of
        Inl e \<Rightarrow> Inl (NetError e)
      | Inr a \<Rightarrow>
          (case r_ListenUDP env a of
             Inl e \<Rightarrow> Inl (NetError e)
           | Inr _ \<Rightarrow> Inr ((udpInit (e_now (r_net env)))
               \<lparr>u_log := log_Print l ''udp: listening on %s -> %s'' [ArgS (Addr (Listen cfg)), ArgS (Addr (Target cfg))]\<rparr>)))"

datatype dtls_failure = DCfg tls_error | DResolve io_error | DDial io_error

text \<open>Dialing the target of a DTLS connection; the flag says whether the result can be half-closed, which a
  \<open>net.UDPConn\<close> cannot, and the last component is what its reads give.\<close>

definition dialTargetUDP :: "relay_env \<Rightarrow> Config \<Rightarrow> (dtls_failure, conn \<times> bool \<times> reads) result" where
  "dialTargetUDP env cfg =
     (if SSL (Target cfg) then
        (case clientDTLSConfig (r_crypto env) cfg of
           Inl e \<Rightarrow> Inl (DCfg e)
         | Inr dc \<Rightarrow>
             (case r_ResolveUDPAddr env (Addr (Target cfg)) of
                Inl e \<Rightarrow> Inl (DResolve e)
              | Inr a \<Rightarrow> (case r_dtlsDial env a dc of Inl e \<Rightarrow> Inl (DDial e) | Inr c \<Rightarrow> Inr (c, r_dtlsHalfCloses env, readsOf (r_net env) c))))
      else
        (case r_udpDial env (Addr (Target cfg)) of Inl e \<Rightarrow> Inl (DDial e) | Inr (c, rds) \<Rightarrow> Inr (c, False, rds)))"

text \<open>None when the relay of the two connections does not end.\<close>

definition handleUDPDTLSConn :: "relay_env \<Rightarrow> Config \<Rightarrow> logger option \<Rightarrow> string \<Rightarrow> conn \<Rightarrow> session option" where
  "handleUDPDTLSConn env cfg l remote src =
     (let label = ''udp+dtls '' @ remote;
          target = Addr (Target cfg);
          lg0 = log_Warn l ''%s: accepted'' [ArgS label];
          finish = (\<lambda>lg. Some \<lparr>ses_client = conn_close src, ses_dst = None, ses_others = [], ses_log = lg0 @ lg\<rparr>)
      in case dialTargetUDP env cfg of
           Inl (DCfg _) \<Rightarrow> finish (log_Error l ''udp+dtls: %s: %v'' [ArgS remote, ArgErr])
         | Inl (DResolve _) \<Rightarrow> finish (log_Error l ''udp+dtls: %s: resolve target %s: %v'' [ArgS remote, ArgS target, ArgErr])
         | Inl (DDial _) \<Rightarrow> finish (log_Error l ''udp+dtls: %s: dial %s: %v'' [ArgS remote, ArgS target, ArgErr])
         | Inr (dst, hc, rds) \<Rightarrow>
             relaySession (r_net env) l label
               (pipeConn (r_dtlsHalfCloses env) hc (readsOf (r_net env) src) rds src dst) []
               (lg0 @ log_Info l ''%s: connected to %s'' [ArgS label, ArgS target]))"

definition listenDTLS :: "relay_env \<Rightarrow> Config \<Rightarrow> (relay_error, accept list) result" where
  "listenDTLS env cfg =
     (case serverDTLSConfig (r_crypto env) (r_draw env) cfg of
        Inl e \<Rightarrow> Inl (CfgError e)
      | Inr dc \<Rightarrow>
          (case r_ResolveUDPAddr env (Addr (Listen cfg)) of
             Inl e \<Rightarrow> Inl (NetError e)
           | Inr a \<Rightarrow> (case r_dtlsListen env a dc of Inl e \<Rightarrow> Inl (NetError e) | Inr as \<Rightarrow> Inr as)))"

definition serveUDPDTLS :: "relay_env \<Rightarrow> Config \<Rightarrow> logger option \<Rightarrow> served" where
  "serveUDPDTLS env cfg l =
     (case listenDTLS env cfg of
        Inl e \<Rightarrow> ([], [], Some (Some e))
      | Inr as \<Rightarrow> serveAccepted (log_Print l ''udp+dtls: listening on %s -> %s'' [ArgS (Addr (Listen cfg)), ArgS (Addr (Target cfg))])
          (handleUDPDTLSConn env cfg l) as)"

text \<open>What \<open>serveUDP\<close> returns: the DTLS variant's result, the error of the start, or what a run of the receive
  loop with the goroutines beside it stops with.\<close>

inductive serveUDP :: "relay_env \<Rightarrow> Config \<Rightarrow> logger option \<Rightarrow> relay_error option \<Rightarrow> bool" for env cfg l where
  dtls: "SSL (Listen cfg) \<Longrightarrow> serveUDPDTLS env cfg l = (lg, hs, Some r) \<Longrightarrow> serveUDP env cfg l r"
| start_fails: "\<not> SSL (Listen cfg) \<Longrightarrow> startUDP env cfg l = Inl e \<Longrightarrow> serveUDP env cfg l (Some e)"
| stops: "\<not> SSL (Listen cfg) \<Longrightarrow> startUDP env cfg l = Inr s \<Longrightarrow>
    udpReach (e_isPrint (r_net env)) l (Addr (Target cfg)) s t \<Longrightarrow> u_main t = MStopped r \<Longrightarrow> serveUDP env cfg l (map_option NetError r)"

end
