(* ===== verification/Relay_Props.thy ===== *)
theory Relay_Props
  imports Relay
begin

text \<open>
  Properties of the relay's connections: the server name checked towards a TLS target, who is admitted
  by a TLS or DTLS listener, the relay of a connection from end to end, and that a listener leaves no
  connection open.
\<close>

section \<open>Server names\<close>

lemma splitHostPort_colon:
  assumes "CHR '':'' \<notin> set p"
  shows "splitHostPort (a @ CHR '':'' # p) = (trimBytes {CHR ''['', CHR '']''} a, p, None)"
  using assms by (simp add: splitHostPort_def LastIndexByte_append slice_append Let_def)

lemma splitHostPort_SplitHostPort:
  assumes "SplitHostPort addr = Inr (h, p)"
  shows "splitHostPort addr = (h, p, None)"
proof -
  note d = SplitHostPort_InrD [OF assms]
  then have h: "set h \<inter> {CHR ''['', CHR '']''} = {}" and p: "CHR '':'' \<notin> set p" by (auto simp: noBrackets_def)
  from d consider "addr = (CHR ''['' # h @ [CHR '']'']) @ CHR '':'' # p" | "addr = h @ CHR '':'' # p" by auto
  then show ?thesis
  proof cases
    case 1
    have "trimBytes {CHR ''['', CHR '']''} ([CHR ''[''] @ h @ [CHR '']'']) = h"
      using trimBytes_bracketed [OF h, of "[CHR ''['']" "[CHR '']'']"] by simp
    with splitHostPort_colon [OF p, of "CHR ''['' # h @ [CHR '']'']"] show ?thesis by (simp add: 1)
  next
    case 2
    with splitHostPort_colon [OF p, of h] trimBytes_id [OF h] show ?thesis by simp
  qed
qed

lemma serverName_host: "SplitHostPort addr = Inr (h, p) \<Longrightarrow> serverName addr = h"
  by (simp add: serverName_def splitHostPort_SplitHostPort)

text \<open>C31. The relay's own \<open>splitHostPort\<close> agrees with \<open>net.SplitHostPort\<close> on every address the parser
  lets through: the target of a parsed forwarding configuration splits, and the server name a TLS
  target is checked against is its host, without the brackets of an IPv6 address and never empty.\<close>

theorem serverName_of_parsed:
  assumes "Parse hasKey args = Inr cfg" "Mode cfg = ModeForward"
  shows "\<exists>h p. SplitHostPort (Addr (Target cfg)) = Inr (h, p) \<and> splitHostPort (Addr (Target cfg)) = (h, p, None) \<and>
     serverName (Addr (Target cfg)) = h \<and> h \<noteq> '''' \<and> noBrackets h"
proof -
  have "wfConfig cfg" using assms(1) by (rule Parse_wfConfig)
  with assms(2) have "isNormalAddr (Addr (Target cfg))" by (simp add: wfConfig_def wfForward_def)
  then obtain h p where n: "normalAddr (Addr (Target cfg)) h p" by (auto simp: isNormalAddr_iff)
  from normalAddr_split [OF n] n splitHostPort_SplitHostPort serverName_host show ?thesis
    by (metis normalAddr_def)
qed

theorem serverName_of_parsed_witness:
  "\<exists>cfg h. Parse (\<lambda>_. Inr True) [''[::1]:443/ssl'', ''8443''] = Inr cfg \<and> serverName (Addr (Target cfg)) = h \<and> h \<noteq> '''' \<and> noBrackets h"
proof -
  have "case Parse (\<lambda>_. Inr True) [''[::1]:443/ssl'', ''8443''] of Inl e \<Rightarrow> False | Inr c \<Rightarrow> Mode c = ModeForward" by code_simp
  then obtain cfg where "Parse (\<lambda>_. Inr True) [''[::1]:443/ssl'', ''8443''] = Inr cfg" "Mode cfg = ModeForward"
    by (auto split: sum.splits)
  from serverName_of_parsed [OF this] this(1) show ?thesis by blast
qed

section \<open>Who is admitted\<close>

definition clientCAPath :: "Config \<Rightarrow> string" where
  "clientCAPath cfg = (if mi_SignCAPath (MITM cfg) \<noteq> '''' then mi_CAPath (MITM cfg) else st_CAPath (ServerTLS cfg))"

definition clientVerify :: "Config \<Rightarrow> bool" where
  "clientVerify cfg = (if mi_SignCAPath (MITM cfg) \<noteq> '''' then mi_VerifyClient (MITM cfg) else st_VerifyClient (ServerTLS cfg))"

definition mayConnect :: "crypto_env \<Rightarrow> (byte list list option \<Rightarrow> byte list list \<Rightarrow> bool) \<Rightarrow> Config \<Rightarrow> byte list list \<Rightarrow> bool" where
  "mayConnect ce valid cfg certs \<longleftrightarrow> clientCAPath cfg = '''' \<or> (certs \<noteq> [] \<and>
     (clientVerify cfg \<longrightarrow> (\<exists>pool. loadCAPool ce (clientCAPath cfg) = Inr pool \<and> valid (Some pool) certs)))"

text \<open>C13. Mutual TLS, over TCP and over UDP, with a certificate or in MITM mode: a listener with \<open>-ca=\<close>
  admits only clients that present a certificate, and, unless \<open>-verify=0\<close>, one that verifies against the
  certificates of that file; without \<open>-ca=\<close> it admits everyone.\<close>

theorem listener_admission:
  "(serverTLSConfig ce cfg = Inr (tc, signer) \<longrightarrow>
      admits valid (ClientAuth tc) (ClientCAs tc) certs = mayConnect ce valid cfg certs) \<and>
   (serverDTLSConfig ce dr cfg = Inr dc \<longrightarrow>
      admits valid (d_ClientAuth dc) (d_ClientCAs dc) certs = mayConnect ce valid cfg certs)"
  using tls_server.admission [of ce "st_CertPath (ServerTLS cfg)" "st_KeyPath (ServerTLS cfg)" "clientCAPath cfg" "clientVerify cfg" tc valid certs]
    tls_mitm.admission [of ce "mi_ServerName (MITM cfg)" "clientCAPath cfg" "clientVerify cfg" tc valid certs]
    dtls_server.admission [of ce "st_CertPath (ServerTLS cfg)" "st_KeyPath (ServerTLS cfg)" "clientCAPath cfg" "clientVerify cfg" dc valid certs]
    dtls_mitm.admission [of ce dr _ "mi_ServerName (MITM cfg)" "clientCAPath cfg" "clientVerify cfg" dc valid certs]
  by (auto simp: serverTLSConfig_def serverDTLSConfig_def mayConnect_def clientCAPath_def clientVerify_def Let_def
      split: if_splits sum.splits)

theorem listener_admission_witness:
  "\<exists>tc signer. serverTLSConfig demoCrypto (zeroConfig\<lparr>ServerTLS := \<lparr>st_KeyPath = '''', st_CertPath = ''c'', st_CAPath = ''ca'', st_VerifyClient = True\<rparr>\<rparr>) = Inr (tc, signer) \<and>
     \<not> admits (\<lambda>_ _. True) (ClientAuth tc) (ClientCAs tc) []"
proof -
  let ?cfg = "zeroConfig\<lparr>ServerTLS := \<lparr>st_KeyPath = '''', st_CertPath = ''c'', st_CAPath = ''ca'', st_VerifyClient = True\<rparr>\<rparr>"
  obtain tc signer where "serverTLSConfig demoCrypto ?cfg = Inr (tc, signer)"
    by (simp add: serverTLSConfig_def zero_defs ServerConfig_def loadCertificate_def loadCAPool_def demoCrypto_def Let_def)
  with listener_admission [of demoCrypto ?cfg tc signer "\<lambda>_ _. True" "[]"] show ?thesis
    by (auto simp: mayConnect_def clientCAPath_def zero_defs)
qed

text \<open>What the two configurations of a listener with a client CA ask of its clients.\<close>

lemma serverTLS_clientAuth:
  assumes "serverTLSConfig ce cfg = Inr (tc, signer)" "clientCAPath cfg \<noteq> ''''"
  shows "\<exists>pool. loadCAPool ce (clientCAPath cfg) = Inr pool \<and> ClientCAs tc = Some pool \<and>
    ClientAuth tc = (if clientVerify cfg then RequireAndVerifyClientCert else RequireAnyClientCert)"
  using assms tls_server.with_ca [of "clientCAPath cfg" ce "st_CertPath (ServerTLS cfg)" "st_KeyPath (ServerTLS cfg)" "clientVerify cfg" tc]
    tls_mitm.with_ca [of "clientCAPath cfg" ce "mi_ServerName (MITM cfg)" "clientVerify cfg" tc]
  by (auto simp: serverTLSConfig_def clientCAPath_def clientVerify_def Let_def split: if_splits sum.splits)

lemma serverDTLS_clientAuth:
  assumes "serverDTLSConfig ce dr cfg = Inr dc" "clientCAPath cfg \<noteq> ''''"
  shows "\<exists>pool. loadCAPool ce (clientCAPath cfg) = Inr pool \<and> d_ClientCAs dc = Some pool \<and>
    d_ClientAuth dc = (if clientVerify cfg then RequireAndVerifyClientCert else RequireAnyClientCert)"
  using assms dtls_server.with_ca [of "clientCAPath cfg" ce "st_CertPath (ServerTLS cfg)" "st_KeyPath (ServerTLS cfg)" "clientVerify cfg" dc]
    dtls_mitm.with_ca [of "clientCAPath cfg" ce dr _ "mi_ServerName (MITM cfg)" "clientVerify cfg" dc]
  by (auto simp: serverDTLSConfig_def clientCAPath_def clientVerify_def Let_def split: if_splits sum.splits)

lemma serverDTLS_error:
  assumes "serverDTLSConfig ce dr cfg = Inl ServerNameRequired"
  shows "mi_SignCAPath (MITM cfg) \<noteq> '''' \<and> mi_ServerName (MITM cfg) = ''''"
proof -
  have pool: "loadCAPool ce p \<noteq> Inl ServerNameRequired" for p
    by (simp add: loadCAPool_def Let_def split: sum.split)
  have cert: "loadCertificate ce c k \<noteq> Inl ServerNameRequired" for c k
    by (simp add: loadCertificate_def Let_def split: sum.split)
  have leaf: "fst (CertificateFor ce dr h m) \<noteq> Inl ServerNameRequired" for h m
    by (simp add: CertificateFor_def Let_def split: sum.split option.split)
  have load: "LoadMITMSigner ce p \<noteq> Inl ServerNameRequired" for p
    by (simp add: LoadMITMSigner_def split: sum.split list.split)
  have static: "ServerConfigDTLS ce c k ca v \<noteq> Inl ServerNameRequired" for c k ca v
    using cert [of c k] pool [of ca] by (auto simp: ServerConfigDTLS_def Let_def split: sum.splits)
  have mitm: "fst (MITMServerConfigDTLS ce dr m h ca v) = Inl ServerNameRequired \<Longrightarrow> h = ''''" for m h ca v
    using leaf [of h m] pool [of ca]
    by (cases "CertificateFor ce dr h m") (auto simp: MITMServerConfigDTLS_def Let_def split: if_splits sum.splits)
  show ?thesis
  proof (cases "mi_SignCAPath (MITM cfg) = ''''")
    case True
    with assms static show ?thesis by (simp add: serverDTLSConfig_def Let_def)
  next
    case False
    with assms load [of "mi_SignCAPath (MITM cfg)"] mitm show ?thesis
      by (cases "LoadMITMSigner ce (mi_SignCAPath (MITM cfg))") (auto simp: serverDTLSConfig_def)
  qed
qed

section \<open>Connections\<close>

lemma handleTCPConn_closes: "\<exists>s. handleTCPConn env cfg l remote src = Some s \<and> sessionClosed s"
proof (cases "dialTarget env cfg")
  case (Inl e)
  then show ?thesis by (cases e) (simp_all add: handleTCPConn_def Let_def sessionClosed_def conn_close_def)
next
  case (Inr p)
  then show ?thesis
    using relaySession_closes [of "[]" "r_net env" l "''tcp '' @ remote" src True "fst p" True]
    by (cases p) (simp add: handleTCPConn_def Let_def pipeConn_def)
qed









text \<open>What \<open>ClientConfig\<close> asks of the target's certificate.\<close>

definition checksTarget :: "crypto_env \<Rightarrow> Config \<Rightarrow> tls_Config \<Rightarrow> bool" where
  "checksTarget ce cfg tc \<longleftrightarrow> ServerName tc = serverName (Addr (Target cfg)) \<and>
     InsecureSkipVerify tc = (\<not> ct_Verify (ClientTLS cfg)) \<and>
     (if ct_CAPath (ClientTLS cfg) = '''' then RootCAs tc = None
      else \<exists>pool. loadCAPool ce (ct_CAPath (ClientTLS cfg)) = Inr pool \<and> RootCAs tc = Some pool)"

lemma clientTLSConfig_checks: "clientTLSConfig ce cfg = Inr tc \<Longrightarrow> checksTarget ce cfg tc"
  by (auto simp: clientTLSConfig_def ClientConfig_def checksTarget_def Let_def zeroTLS_def split: if_splits sum.splits)

lemma dialTarget_Inr:
  assumes "dialTarget env cfg = Inr (dst, isTLS)"
  shows "if SSL (Target cfg) then \<exists>tc. r_tlsDial env (Addr (Target cfg)) tc = Inr dst \<and> checksTarget (r_crypto env) cfg tc
    else e_dial (r_net env) 0 (Addr (Target cfg)) = Inr dst"
  using assms by (auto simp: dialTarget_def dest: clientTLSConfig_checks split: if_splits sum.splits)

text \<open>C6. A TCP connection is relayed end to end: once the target is reached, the client receives exactly
  what the target sends and the target exactly what the client sends, and both connections are closed at
  the end. A target with TLS is reached only through a TLS dial, and this dial checks its certificate
  exactly when the configuration says so (\<open>-verify=\<close>), for the host of the target address, against the
  certificates of \<open>-ca=\<close> or, without it, the system's roots; a target without TLS is dialed in plaintext.\<close>

theorem tcp_relay_end_to_end:
  assumes "fairChop (r_net env)" "openConn src" "openConn dst" "dialTarget env cfg = Inr (dst, isTLS)"
  shows "\<exists>s d. handleTCPConn env cfg l remote src = Some s \<and> sessionClosed s \<and> ses_dst s = Some d \<and>
     wr_log (ses_client s) = wr_log src @ rd_data dst \<and> wr_log d = wr_log dst @ rd_data src \<and>
     (if SSL (Target cfg)
      then \<exists>tc. r_tlsDial env (Addr (Target cfg)) tc = Inr dst \<and> ServerName tc = serverName (Addr (Target cfg)) \<and>
        InsecureSkipVerify tc = (\<not> ct_Verify (ClientTLS cfg)) \<and>
        (if ct_CAPath (ClientTLS cfg) = '''' then RootCAs tc = None
         else \<exists>pool. loadCAPool (r_crypto env) (ct_CAPath (ClientTLS cfg)) = Inr pool \<and> RootCAs tc = Some pool)
      else e_dial (r_net env) 0 (Addr (Target cfg)) = Inr dst)"
proof -
  obtain lg where e: "handleTCPConn env cfg l remote src =
      relaySession (r_net env) l (''tcp '' @ remote) (startDir True (readsOf (r_net env) src) True dst, startDir False (readsOf (r_net env) dst) True src) [] lg"
    using assms(4) by (simp add: handleTCPConn_def Let_def pipeConn_def)
  from relaySession_relays [OF assms(1-3), of l "''tcp '' @ remote" True True "[]" lg] handleTCPConn_closes [of env cfg l remote src]
  show ?thesis
    using dialTarget_Inr [OF assms(4)] unfolding e checksTarget_def by auto
qed

definition demoRelay :: "byte list \<Rightarrow> relay_env" where
  "demoRelay d = \<lparr>r_net = demoEnv d, r_crypto = demoCrypto, r_draw = demoDraw 0, r_Listen = (\<lambda>a. Inr []), r_tlsListen = (\<lambda>a c. Inr []),
     r_dtlsListen = (\<lambda>a c. Inr []), r_ListenUDP = (\<lambda>a. Inr ()), r_ResolveUDPAddr = Inr, r_tlsDial = (\<lambda>a c. Inr (peer d)),
     r_dtlsDial = (\<lambda>a c. Inr (peer d)), r_udpDial = (\<lambda>a. Inr (peer d, [])), r_tlsState = (''304'', ''x''), r_dtlsHalfCloses = False\<rparr>"

text \<open>A TLS target whose dial succeeds only if the certificate is checked for the host \<open>h\<close>.\<close>

theorem tcp_relay_end_to_end_witness:
  "\<exists>s d (tc :: tls_Config). handleTCPConn ((demoRelay [8])\<lparr>r_tlsDial := \<lambda>a c. if InsecureSkipVerify c \<or> ServerName c \<noteq> ''h'' then Inl EOF else Inr (peer [8])\<rparr>)
       (zeroConfig\<lparr>Target := \<lparr>Addr = ''h:1'', TCP = True, UDP = False, SSL = True\<rparr>, ClientTLS := zeroClientTLS\<lparr>ct_Verify := True\<rparr>\<rparr>) None ''p'' (peer [9]) = Some s \<and>
     ses_dst s = Some d \<and> wr_log (ses_client s) = [8] \<and> wr_log d = [9] \<and> ServerName tc = ''h'' \<and> \<not> InsecureSkipVerify tc"
proof -
  let ?cfg = "zeroConfig\<lparr>Target := \<lparr>Addr = ''h:1'', TCP = True, UDP = False, SSL = True\<rparr>, ClientTLS := zeroClientTLS\<lparr>ct_Verify := True\<rparr>\<rparr>"
  let ?env = "(demoRelay [8])\<lparr>r_tlsDial := \<lambda>a c. if InsecureSkipVerify c \<or> ServerName c \<noteq> ''h'' then Inl EOF else Inr (peer [8])\<rparr>"
  have n: "serverName ''h:1'' = ''h''" by (rule serverName_host [of _ _ "''1''"]) code_simp
  have "dialTarget ?env ?cfg = Inr (peer [8], True)"
    by (simp add: dialTarget_def clientTLSConfig_def ClientConfig_def Let_def zero_defs demoRelay_def n)
  moreover have "fairChop (r_net ?env)" by (simp add: demoRelay_def demoEnv_ok)
  ultimately show ?thesis
    using tcp_relay_end_to_end [of ?env "peer [9]" "peer [8]" ?cfg True None "''p''"] n by (auto simp: zero_defs)
qed


end
