(* ===== verification/Relay_Run.thy ===== *)
theory Relay_Run
  imports Relay_Props
begin

text \<open>
  \<open>relay.Run\<close>: the goroutines of the listeners with the goroutines that close them, the error channel, the
  wait group with the goroutine that closes \<open>done\<close>, and the \<open>select\<close> of the caller, as a labelled step
  relation. A TCP or DTLS listener is a \<open>listener\<close> that moves by \<open>lnStep\<close>, the plaintext UDP listener an
  \<open>udpState\<close> that moves by \<open>udpStep\<close>, under the context that \<open>Run\<close> was given.
\<close>

section \<open>The state and its steps\<close>

datatype run_error = TcpError relay_error | UdpError relay_error

text \<open>A listener's goroutine: not started; about to listen; in its accept loop (TCP and DTLS) or its receive
  loop (plaintext UDP); past the send on \<open>errCh\<close> but before \<open>wg.Done\<close>; done.\<close>

datatype proc = Absent | Starting | Accepting | Receiving | Exiting | Finished

datatype selpc = Selecting | Draining | Returned "run_error option"

record runState =
  rn_tcp :: proc
  rn_tcpLn :: listener
  rn_udp :: proc
  rn_udpLn :: listener
  rn_udpSt :: udpState
  rn_errCh :: "run_error list"
  rn_done :: bool
  rn_ctx :: bool
  rn_pc :: selpc

text \<open>No listener yet: nothing is open and nothing moves.\<close>

definition lnOff :: listener where
  "lnOff = \<lparr>ln_todo = [], ln_open = False, ln_conns = [], ln_ret = Some None\<rparr>"

definition udpOff :: udpState where
  "udpOff = (udpInit 0)\<lparr>u_main := MStopped None, u_lnOpen := False, u_reaper := False\<rparr>"

definition runInit :: "Config \<Rightarrow> runState" where
  "runInit cfg = \<lparr>rn_tcp = (if TCP (Listen cfg) then Starting else Absent), rn_tcpLn = lnOff,
     rn_udp = (if UDP (Listen cfg) then Starting else Absent), rn_udpLn = lnOff, rn_udpSt = udpOff,
     rn_errCh = [], rn_done = False, rn_ctx = False, rn_pc = Selecting\<rparr>"

definition errChCap :: nat where "errChCap = 2"

definition relayLog :: "Config \<Rightarrow> logger option" where
  "relayLog cfg = New (LogLevel cfg) (Verbose cfg)"

definition tcpReturns :: "relay_env \<Rightarrow> Config \<Rightarrow> relay_error option \<Rightarrow> bool" where
  "tcpReturns env cfg r \<longleftrightarrow> snd (snd (serveTCP env cfg (relayLog cfg))) = Some r"

definition udpReturns :: "relay_env \<Rightarrow> Config \<Rightarrow> relay_error option \<Rightarrow> bool" where
  "udpReturns env cfg r \<longleftrightarrow> serveUDP env cfg (relayLog cfg) r"

definition over :: "proc \<Rightarrow> bool" where
  "over p \<longleftrightarrow> p = Absent \<or> p = Finished"

text \<open>The steps' labels. \<open>UdpOther\<close> is a step of the network, of a session or of the reaper; \<open>Signal\<close> the
  cancellation of the context.\<close>

datatype runAct =
    TcpStart | TcpLn lnAct | TcpReturn | TcpExit
  | UdpStart | UdpLn lnAct | UdpCloser | UdpLoop | UdpOther | UdpReturn | UdpExit
  | Waiter | Selector | Signal

text \<open>Whose step a step of the UDP relay is: the closing of the listening socket; a step of the receive loop
  that does not wait for a datagram, because the socket is closed; anything else.\<close>

definition udpLabel :: "udpState \<Rightarrow> udpState \<Rightarrow> runAct" where
  "udpLabel s t =
     (if u_lnOpen s then (if u_lnOpen t then UdpOther else UdpCloser)
      else if u_main t = u_main s then UdpOther else UdpLoop)"

inductive runStep :: "relay_env \<Rightarrow> Config \<Rightarrow> runAct \<Rightarrow> runState \<Rightarrow> runState \<Rightarrow> bool" for env cfg where
  tcp_fails: "rn_tcp s = Starting \<Longrightarrow> listenTCP env cfg = Inl e \<Longrightarrow> length (rn_errCh s) < errChCap \<Longrightarrow>
    runStep env cfg TcpStart s (s\<lparr>rn_tcp := Exiting, rn_errCh := rn_errCh s @ [TcpError e]\<rparr>)"
| tcp_listens: "rn_tcp s = Starting \<Longrightarrow> listenTCP env cfg = Inr as \<Longrightarrow>
    runStep env cfg TcpStart s (s\<lparr>rn_tcp := Accepting, rn_tcpLn := lnInit as\<rparr>)"
| tcp_ln: "lnStep (rn_ctx s) a (rn_tcpLn s) ln \<Longrightarrow> runStep env cfg (TcpLn a) s (s\<lparr>rn_tcpLn := ln\<rparr>)"
| tcp_nil: "rn_tcp s = Accepting \<Longrightarrow> ln_ret (rn_tcpLn s) = Some None \<Longrightarrow> runStep env cfg TcpReturn s (s\<lparr>rn_tcp := Finished\<rparr>)"
| tcp_err: "rn_tcp s = Accepting \<Longrightarrow> ln_ret (rn_tcpLn s) = Some (Some e) \<Longrightarrow> length (rn_errCh s) < errChCap \<Longrightarrow>
    runStep env cfg TcpReturn s (s\<lparr>rn_tcp := Exiting, rn_errCh := rn_errCh s @ [TcpError (NetError e)]\<rparr>)"
| tcp_exit: "rn_tcp s = Exiting \<Longrightarrow> runStep env cfg TcpExit s (s\<lparr>rn_tcp := Finished\<rparr>)"
| dtls_fails: "rn_udp s = Starting \<Longrightarrow> SSL (Listen cfg) \<Longrightarrow> listenDTLS env cfg = Inl e \<Longrightarrow> length (rn_errCh s) < errChCap \<Longrightarrow>
    runStep env cfg UdpStart s (s\<lparr>rn_udp := Exiting, rn_errCh := rn_errCh s @ [UdpError e]\<rparr>)"
| dtls_listens: "rn_udp s = Starting \<Longrightarrow> SSL (Listen cfg) \<Longrightarrow> listenDTLS env cfg = Inr as \<Longrightarrow>
    runStep env cfg UdpStart s (s\<lparr>rn_udp := Accepting, rn_udpLn := lnInit as\<rparr>)"
| udp_fails: "rn_udp s = Starting \<Longrightarrow> \<not> SSL (Listen cfg) \<Longrightarrow> startUDP env cfg (relayLog cfg) = Inl e \<Longrightarrow> length (rn_errCh s) < errChCap \<Longrightarrow>
    runStep env cfg UdpStart s (s\<lparr>rn_udp := Exiting, rn_errCh := rn_errCh s @ [UdpError e]\<rparr>)"
| udp_listens: "rn_udp s = Starting \<Longrightarrow> \<not> SSL (Listen cfg) \<Longrightarrow> startUDP env cfg (relayLog cfg) = Inr st \<Longrightarrow>
    runStep env cfg UdpStart s (s\<lparr>rn_udp := Receiving, rn_udpSt := st\<lparr>u_ctx := rn_ctx s\<rparr>\<rparr>)"
| dtls_ln: "lnStep (rn_ctx s) a (rn_udpLn s) ln \<Longrightarrow> runStep env cfg (UdpLn a) s (s\<lparr>rn_udpLn := ln\<rparr>)"
| udp_step: "udpStep (e_isPrint (r_net env)) (relayLog cfg) (Addr (Target cfg)) (rn_udpSt s) st \<Longrightarrow> u_ctx st = rn_ctx s \<Longrightarrow>
    runStep env cfg (udpLabel (rn_udpSt s) st) s (s\<lparr>rn_udpSt := st\<rparr>)"
| dtls_nil: "rn_udp s = Accepting \<Longrightarrow> ln_ret (rn_udpLn s) = Some None \<Longrightarrow> runStep env cfg UdpReturn s (s\<lparr>rn_udp := Finished\<rparr>)"
| dtls_err: "rn_udp s = Accepting \<Longrightarrow> ln_ret (rn_udpLn s) = Some (Some e) \<Longrightarrow> length (rn_errCh s) < errChCap \<Longrightarrow>
    runStep env cfg UdpReturn s (s\<lparr>rn_udp := Exiting, rn_errCh := rn_errCh s @ [UdpError (NetError e)]\<rparr>)"
| udp_nil: "rn_udp s = Receiving \<Longrightarrow> u_main (rn_udpSt s) = MStopped None \<Longrightarrow> runStep env cfg UdpReturn s (s\<lparr>rn_udp := Finished\<rparr>)"
| udp_err: "rn_udp s = Receiving \<Longrightarrow> u_main (rn_udpSt s) = MStopped (Some e) \<Longrightarrow> length (rn_errCh s) < errChCap \<Longrightarrow>
    runStep env cfg UdpReturn s (s\<lparr>rn_udp := Exiting, rn_errCh := rn_errCh s @ [UdpError (NetError e)]\<rparr>)"
| udp_exit: "rn_udp s = Exiting \<Longrightarrow> runStep env cfg UdpExit s (s\<lparr>rn_udp := Finished\<rparr>)"
| close_done: "over (rn_tcp s) \<Longrightarrow> over (rn_udp s) \<Longrightarrow> \<not> rn_done s \<Longrightarrow> runStep env cfg Waiter s (s\<lparr>rn_done := True\<rparr>)"
| signal: "\<not> rn_ctx s \<Longrightarrow> runStep env cfg Signal s (s\<lparr>rn_ctx := True, rn_udpSt := (rn_udpSt s)\<lparr>u_ctx := True\<rparr>\<rparr>)"
| sel_err: "rn_pc s = Selecting \<Longrightarrow> rn_errCh s = e # es \<Longrightarrow> runStep env cfg Selector s (s\<lparr>rn_errCh := es, rn_pc := Returned (Some e)\<rparr>)"
| sel_done: "rn_pc s = Selecting \<Longrightarrow> rn_done s \<Longrightarrow> runStep env cfg Selector s (s\<lparr>rn_pc := Returned None\<rparr>)"
| sel_ctx: "rn_pc s = Selecting \<Longrightarrow> rn_ctx s \<Longrightarrow> runStep env cfg Selector s (s\<lparr>rn_pc := Draining\<rparr>)"
| drained: "rn_pc s = Draining \<Longrightarrow> rn_done s \<Longrightarrow> runStep env cfg Selector s (s\<lparr>rn_pc := Returned None\<rparr>)"

inductive_cases runStepE: "runStep env cfg a s t"

inductive runReach :: "relay_env \<Rightarrow> Config \<Rightarrow> runState \<Rightarrow> runState \<Rightarrow> bool" for env cfg where
  refl: "runReach env cfg s s"
| step: "runReach env cfg s t \<Longrightarrow> runStep env cfg a t u \<Longrightarrow> runReach env cfg s u"

text \<open>What \<open>Run\<close> may return.\<close>

definition Run :: "relay_env \<Rightarrow> Config \<Rightarrow> run_error option \<Rightarrow> bool" where
  "Run env cfg r \<longleftrightarrow> (\<exists>s. runReach env cfg (runInit cfg) s \<and> rn_pc s = Returned r)"

section \<open>Invariants\<close>

text \<open>An error that \<open>Run\<close> may see is one a started listener returned.\<close>

definition caused :: "relay_env \<Rightarrow> Config \<Rightarrow> run_error \<Rightarrow> bool" where
  "caused env cfg e \<longleftrightarrow>
     (case e of TcpError x \<Rightarrow> TCP (Listen cfg) \<and> tcpReturns env cfg (Some x) | UdpError x \<Rightarrow> UDP (Listen cfg) \<and> udpReturns env cfg (Some x))"

lemma tcpReturns_Some:
  "tcpReturns env cfg (Some e) \<longleftrightarrow> listenTCP env cfg = Inl e \<or>
     (\<exists>as hs x. listenTCP env cfg = Inr as \<and> acceptLoop (handleTCPConn env cfg (relayLog cfg)) as = (hs, Some (Some x)) \<and> e = NetError x)"
  by (auto simp: tcpReturns_def serveTCP_def serveAccepted_def split: sum.split prod.split)

text \<open>Where the listeners are: each accept loop in the list its listening gave, the receive loop in a run from
  its start, all under \<open>Run\<close>'s context; a listening socket is closed only after a cancellation.\<close>

definition tcpInv :: "relay_env \<Rightarrow> Config \<Rightarrow> runState \<Rightarrow> bool" where
  "tcpInv env cfg s \<longleftrightarrow> (rn_tcp s \<noteq> Absent \<longleftrightarrow> TCP (Listen cfg)) \<and> rn_tcp s \<noteq> Receiving \<and>
     (rn_tcp s = Accepting \<longrightarrow> (\<exists>as. listenTCP env cfg = Inr as \<and> lnInv as (rn_ctx s) (rn_tcpLn s)))"

definition udpInvR :: "relay_env \<Rightarrow> Config \<Rightarrow> runState \<Rightarrow> bool" where
  "udpInvR env cfg s \<longleftrightarrow> (rn_udp s \<noteq> Absent \<longleftrightarrow> UDP (Listen cfg)) \<and> u_ctx (rn_udpSt s) = rn_ctx s \<and>
     (rn_udp s = Accepting \<longrightarrow> SSL (Listen cfg) \<and> (\<exists>as. listenDTLS env cfg = Inr as \<and> lnInv as (rn_ctx s) (rn_udpLn s))) \<and>
     (rn_udp s = Receiving \<longrightarrow> \<not> SSL (Listen cfg) \<and> (\<exists>st. startUDP env cfg (relayLog cfg) = Inr st \<and>
        udpReach (e_isPrint (r_net env)) (relayLog cfg) (Addr (Target cfg)) st (rn_udpSt s)))"

text \<open>A listener that may still send its one error.\<close>

definition maySend :: "proc \<Rightarrow> nat" where
  "maySend p = of_bool (p \<in> {Starting, Accepting, Receiving})"

definition chanInv :: "relay_env \<Rightarrow> Config \<Rightarrow> runState \<Rightarrow> bool" where
  "chanInv env cfg s \<longleftrightarrow> length (rn_errCh s) + maySend (rn_tcp s) + maySend (rn_udp s) \<le> errChCap \<and>
     (\<forall>e \<in> set (rn_errCh s). caused env cfg e) \<and> (\<forall>e. rn_pc s = Returned (Some e) \<longrightarrow> caused env cfg e) \<and>
     (rn_done s \<longrightarrow> over (rn_tcp s) \<and> over (rn_udp s)) \<and> (rn_pc s = Returned None \<longrightarrow> rn_done s)"

definition runInv :: "relay_env \<Rightarrow> Config \<Rightarrow> runState \<Rightarrow> bool" where
  "runInv env cfg s \<longleftrightarrow> tcpInv env cfg s \<and> udpInvR env cfg s \<and> chanInv env cfg s"

lemma runInit_inv: "runInv env cfg (runInit cfg)"
  by (simp add: runInv_def tcpInv_def udpInvR_def chanInv_def runInit_def maySend_def errChCap_def udpOff_def udpInit_def)

lemma runStep_tcp: "runStep env cfg a s t \<Longrightarrow> tcpInv env cfg s \<Longrightarrow> tcpInv env cfg t"
  by (erule runStepE) (auto simp: tcpInv_def intro: lnInit_inv lnStep_inv lnInv_ctx)

lemma udpReach_cancel: "udpReach p l g s t \<Longrightarrow> udpReach p l g s (t\<lparr>u_ctx := d\<rparr>)" if "u_ctx t \<longrightarrow> d"
proof (cases "u_ctx t = d")
  case True
  moreover assume "udpReach p l g s t"
  ultimately show ?thesis by (cases t) simp
next
  case False
  moreover assume "udpReach p l g s t"
  ultimately show ?thesis using that cancel [of p l g t] by (auto intro: udpReach.step)
qed

lemma runStep_udp:
  assumes "runStep env cfg a s t" "udpInvR env cfg s"
  shows "udpInvR env cfg t"
  using assms
proof cases
  case (udp_listens st)
  have "udpReach (e_isPrint (r_net env)) (relayLog cfg) (Addr (Target cfg)) st (st\<lparr>u_ctx := rn_ctx s\<rparr>)"
    by (rule udpReach_cancel [OF _ udpReach.refl])
      (use udp_listens in \<open>auto simp: startUDP_def udpInit_def split: sum.splits\<close>)
  with udp_listens assms(2) show ?thesis by (auto simp: udpInvR_def)
next
  case (udp_step st)
  with assms(2) show ?thesis by (auto simp: udpInvR_def intro: udpReach.step)
next
  case signal
  with assms(2) show ?thesis by (auto simp: udpInvR_def intro: lnInv_ctx udpReach_cancel)
qed (use assms(2) in \<open>auto simp: udpInvR_def intro: lnInit_inv lnStep_inv\<close>)

lemma lnInv_tcpReturns:
  assumes "listenTCP env cfg = Inr as" "lnInv as ctx ln" "ln_ret ln = Some (Some e)"
  shows "tcpReturns env cfg (Some (NetError e))"
  using assms lnInv_error [OF assms(2,3)] by (auto simp: tcpReturns_Some)

lemma lnInv_udpReturns:
  assumes "SSL (Listen cfg)" "listenDTLS env cfg = Inr as" "lnInv as ctx ln" "ln_ret ln = Some (Some e)"
  shows "udpReturns env cfg (Some (NetError e))"
proof -
  have "snd (snd (serveUDPDTLS env cfg (relayLog cfg))) = Some (Some (NetError e))"
    using assms(2) lnInv_error [OF assms(3,4), of "handleUDPDTLSConn env cfg (relayLog cfg)"] by (simp add: serveUDPDTLS_def serveAccepted_def)
  then show ?thesis unfolding udpReturns_def by (metis dtls [OF assms(1)] prod.collapse)
qed

lemma runStep_chan:
  assumes "runStep env cfg a s t" "tcpInv env cfg s" "udpInvR env cfg s" "chanInv env cfg s"
  shows "chanInv env cfg t"
  using assms
proof cases
  case (tcp_fails e)
  then have "caused env cfg (TcpError e)" using assms(2) by (auto simp: caused_def tcpInv_def tcpReturns_Some)
  with tcp_fails assms(4) show ?thesis by (auto simp: chanInv_def maySend_def over_def)
next
  case (tcp_err e)
  then have "caused env cfg (TcpError (NetError e))" using assms(2) lnInv_tcpReturns by (auto simp: caused_def tcpInv_def)
  with tcp_err assms(4) show ?thesis by (auto simp: chanInv_def maySend_def over_def)
next
  case (dtls_fails e)
  have "serveUDPDTLS env cfg (relayLog cfg) = ([], [], Some (Some e))" using dtls_fails by (simp add: serveUDPDTLS_def)
  then have "udpReturns env cfg (Some e)" unfolding udpReturns_def by (rule dtls [OF dtls_fails(4)])
  then have "caused env cfg (UdpError e)" using dtls_fails assms(3) by (auto simp: caused_def udpInvR_def)
  with dtls_fails assms(4) show ?thesis by (auto simp: chanInv_def maySend_def over_def)
next
  case (udp_fails e)
  then have "udpReturns env cfg (Some e)" unfolding udpReturns_def by (intro start_fails)
  then have "caused env cfg (UdpError e)" using udp_fails assms(3) by (auto simp: caused_def udpInvR_def)
  with udp_fails assms(4) show ?thesis by (auto simp: chanInv_def maySend_def over_def)
next
  case (dtls_err e)
  then have "caused env cfg (UdpError (NetError e))" using assms(3) lnInv_udpReturns by (auto simp: caused_def udpInvR_def)
  with dtls_err assms(4) show ?thesis by (auto simp: chanInv_def maySend_def over_def)
next
  case (udp_err e)
  then obtain st where "\<not> SSL (Listen cfg)" "startUDP env cfg (relayLog cfg) = Inr st"
      "udpReach (e_isPrint (r_net env)) (relayLog cfg) (Addr (Target cfg)) st (rn_udpSt s)"
    using assms(3) by (auto simp: udpInvR_def)
  from stops [OF this udp_err(4)] have "udpReturns env cfg (Some (NetError e))" by (simp add: udpReturns_def)
  then have "caused env cfg (UdpError (NetError e))" using udp_err assms(3) by (auto simp: caused_def udpInvR_def)
  with udp_err assms(4) show ?thesis by (auto simp: chanInv_def maySend_def over_def)
qed (use assms(4) in \<open>auto simp: chanInv_def maySend_def over_def\<close>)

lemma runStep_inv: "runStep env cfg a s t \<Longrightarrow> runInv env cfg s \<Longrightarrow> runInv env cfg t"
  using runStep_tcp runStep_udp runStep_chan by (simp add: runInv_def)

lemma runReach_inv: "runReach env cfg s t \<Longrightarrow> runInv env cfg s \<Longrightarrow> runInv env cfg t"
  by (induction rule: runReach.induct) (auto intro: runStep_inv)

lemma udpReach_nil: "udpReach p l g s t \<Longrightarrow> (u_main s = MStopped None \<longrightarrow> u_ctx s) \<Longrightarrow> u_main t = MStopped None \<longrightarrow> u_ctx t"
proof (induction rule: udpReach.induct)
  case (step s t u)
  then have t: "u_main t = MStopped None \<longrightarrow> u_ctx t" by blast
  show ?case
    using step.hyps(2) t by cases (auto simp: udp_ops recvPacket_def reapUDPSessions_def split: prod.splits option.splits if_splits)
qed

lemma lnInv_nil: "lnInv as ctx s \<Longrightarrow> ln_ret s = Some None \<Longrightarrow> ctx"
  by (simp add: lnInv_def)

lemma runInv_nil:
  assumes "runInv env cfg s"
  shows "rn_tcp s = Accepting \<Longrightarrow> ln_ret (rn_tcpLn s) = Some None \<Longrightarrow> rn_ctx s"
    "rn_udp s = Accepting \<Longrightarrow> ln_ret (rn_udpLn s) = Some None \<Longrightarrow> rn_ctx s"
    "rn_udp s = Receiving \<Longrightarrow> u_main (rn_udpSt s) = MStopped None \<Longrightarrow> rn_ctx s"
proof -
  show "rn_tcp s = Accepting \<Longrightarrow> ln_ret (rn_tcpLn s) = Some None \<Longrightarrow> rn_ctx s"
    "rn_udp s = Accepting \<Longrightarrow> ln_ret (rn_udpLn s) = Some None \<Longrightarrow> rn_ctx s"
    using assms by (auto simp: runInv_def tcpInv_def udpInvR_def dest: lnInv_nil)
  assume r: "rn_udp s = Receiving" "u_main (rn_udpSt s) = MStopped None"
  then obtain st where st: "startUDP env cfg (relayLog cfg) = Inr st"
      "udpReach (e_isPrint (r_net env)) (relayLog cfg) (Addr (Target cfg)) st (rn_udpSt s)"
    using assms by (auto simp: runInv_def udpInvR_def)
  have "u_main st = MReceive" using st(1) by (auto simp: startUDP_def udpInit_def split: sum.splits)
  with udpReach_nil [OF st(2)] r(2) assms show "rn_ctx s" by (simp add: runInv_def udpInvR_def)
qed

text \<open>Without cancellation, every listener that is over has left its error in the channel, until \<open>Run\<close> takes
  one.\<close>

definition lostInv :: "runState \<Rightarrow> bool" where
  "lostInv s \<longleftrightarrow> \<not> rn_ctx s \<longrightarrow>
     (rn_pc s \<noteq> Draining) \<and>
     ((rn_tcp s = Exiting \<or> rn_tcp s = Finished \<or> rn_udp s = Exiting \<or> rn_udp s = Finished) \<longrightarrow>
       rn_errCh s \<noteq> [] \<or> (\<exists>e. rn_pc s = Returned (Some e)))"

lemma runStep_lost: "runStep env cfg a s t \<Longrightarrow> runInv env cfg s \<Longrightarrow> lostInv s \<Longrightarrow> lostInv t"
  by (erule runStepE) (auto simp: lostInv_def dest: runInv_nil)

lemma runReach_lost: "runReach env cfg s t \<Longrightarrow> runInv env cfg s \<Longrightarrow> lostInv s \<Longrightarrow> lostInv t"
  by (induction rule: runReach.induct) (auto intro: runStep_lost runReach_inv)

lemma runReach_trans: "runReach env cfg s t \<Longrightarrow> runReach env cfg r s \<Longrightarrow> runReach env cfg r t"
  by (induction rule: runReach.induct) (auto intro: runReach.step)

text \<open>A TCP listener that accepts what there is to accept.\<close>

lemma runReach_accepts:
  "rn_tcp s = Accepting \<Longrightarrow> ln_open (rn_tcpLn s) \<Longrightarrow> ln_ret (rn_tcpLn s) = None \<Longrightarrow> ln_todo (rn_tcpLn s) = accepts cs @ as \<Longrightarrow>
   runReach env cfg s (s\<lparr>rn_tcpLn := (rn_tcpLn s)\<lparr>ln_todo := as, ln_conns := ln_conns (rn_tcpLn s) @ cs\<rparr>\<rparr>)"
proof (induction cs arbitrary: s)
  case (Cons c cs)
  let ?ln = "(rn_tcpLn s)\<lparr>ln_todo := accepts cs @ as, ln_conns := ln_conns (rn_tcpLn s) @ [c]\<rparr>"
  let ?s = "s\<lparr>rn_tcpLn := ?ln\<rparr>"
  have "lnStep (rn_ctx s) LnAccept (rn_tcpLn s) ?ln"
    using ln_accept [of "rn_tcpLn s" "fst c" "snd c" "accepts cs @ as" "rn_ctx s"] Cons.prems by (simp add: case_prod_unfold)
  then have 1: "runReach env cfg s ?s" by (blast intro: runReach.step runReach.refl tcp_ln)
  have "runReach env cfg ?s (?s\<lparr>rn_tcpLn := (rn_tcpLn ?s)\<lparr>ln_todo := as, ln_conns := ln_conns (rn_tcpLn ?s) @ cs\<rparr>\<rparr>)"
    using Cons.prems by (intro Cons.IH) simp_all
  from runReach_trans [OF this 1] show ?case by simp
qed (auto intro: runReach.refl)

text \<open>The schedule in which a TCP-only relay fails and \<open>done\<close> is closed before the caller selects.\<close>

lemma tcp_fails_run:
  assumes "TCP (Listen cfg)" "\<not> UDP (Listen cfg)" "tcpReturns env cfg (Some e)"
  shows "\<exists>ln. runReach env cfg (runInit cfg) ((runInit cfg)\<lparr>rn_tcpLn := ln, rn_tcp := Exiting, rn_errCh := [TcpError e]\<rparr>)"
proof -
  let ?s = "runInit cfg"
  have i: "rn_tcp ?s = Starting" "rn_errCh ?s = []" "\<not> rn_ctx ?s" using assms(1) by (simp_all add: runInit_def)
  from assms(3) consider "listenTCP env cfg = Inl e" | as hs x where "listenTCP env cfg = Inr as"
      "acceptLoop (handleTCPConn env cfg (relayLog cfg)) as = (hs, Some (Some x))" "e = NetError x"
    by (auto simp: tcpReturns_Some)
  then show ?thesis
  proof cases
    case 1
    have "runReach env cfg ?s (?s\<lparr>rn_tcp := Exiting, rn_errCh := [TcpError e]\<rparr>)"
      using runReach.step [OF runReach.refl tcp_fails [OF i(1) 1]] i by (simp add: errChCap_def)
    then show ?thesis by (intro exI [of _ "rn_tcpLn ?s"]) simp
  next
    case 2
    then obtain cs as' where as: "as = accepts cs @ AcceptFailed x False # as'"
      by (cases as rule: accepts_cases) (auto simp: acceptLoop_blocked acceptLoop_failed split: if_splits)
    let ?l1 = "(lnInit as)\<lparr>ln_todo := AcceptFailed x False # as', ln_conns := cs\<rparr>"
    let ?l2 = "?l1\<lparr>ln_ret := Some (Some x)\<rparr>"
    let ?s1 = "?s\<lparr>rn_tcp := Accepting, rn_tcpLn := lnInit as\<rparr>"
    let ?s2 = "?s1\<lparr>rn_tcpLn := ?l1\<rparr>"
    let ?s3 = "?s2\<lparr>rn_tcpLn := ?l2\<rparr>"
    have 1: "runReach env cfg ?s ?s1" by (rule runReach.step [OF runReach.refl tcp_listens [OF i(1) 2(1)]])
    have acc: "runReach env cfg ?s1 ?s2"
      using runReach_accepts [of ?s1 cs "AcceptFailed x False # as'" env cfg] as by (simp add: lnInit_def)
    have "lnStep (rn_ctx ?s2) LnFail (rn_tcpLn ?s2) ?l2"
      using ln_fail [of ?l1 x False as'] i(3) by (simp add: lnInit_def)
    then have 3: "runStep env cfg (TcpLn LnFail) ?s2 ?s3" by (rule tcp_ln)
    have 4: "runStep env cfg TcpReturn ?s3 (?s3\<lparr>rn_tcp := Exiting, rn_errCh := [TcpError e]\<rparr>)"
      using tcp_err [of ?s3 x env cfg] i 2(3) by (simp add: errChCap_def)
    show ?thesis
      using runReach.step [OF runReach.step [OF runReach_trans [OF acc 1] 3] 4] by (intro exI [of _ ?l2]) simp
  qed
qed

lemma lostRun:
  assumes "TCP (Listen cfg)" "\<not> UDP (Listen cfg)" "tcpReturns env cfg (Some e)"
  shows "\<exists>ln. runReach env cfg (runInit cfg)
    ((runInit cfg)\<lparr>rn_tcpLn := ln, rn_tcp := Finished, rn_errCh := [TcpError e], rn_done := True, rn_pc := Returned None\<rparr>)"
proof -
  obtain ln where 1: "runReach env cfg (runInit cfg) ((runInit cfg)\<lparr>rn_tcpLn := ln, rn_tcp := Exiting, rn_errCh := [TcpError e]\<rparr>)"
    (is "runReach _ _ _ ?s1") using tcp_fails_run [OF assms] by blast
  let ?s2 = "?s1\<lparr>rn_tcp := Finished\<rparr>"
  let ?s3 = "?s2\<lparr>rn_done := True\<rparr>"
  have eq: "?s3\<lparr>rn_pc := Returned None\<rparr> = (runInit cfg)\<lparr>rn_tcpLn := ln, rn_tcp := Finished, rn_errCh := [TcpError e], rn_done := True, rn_pc := Returned None\<rparr>"
    by simp
  have 2: "runStep env cfg TcpExit ?s1 ?s2" using tcp_exit [of ?s1 env cfg] by simp
  have 3: "runStep env cfg Waiter ?s2 ?s3" using close_done [of ?s2 env cfg] assms(2) by (simp add: runInit_def over_def)
  have 4: "runStep env cfg Selector ?s3 (?s3\<lparr>rn_pc := Returned None\<rparr>)" using sel_done [of ?s3 env cfg] by (simp add: runInit_def)
  from runReach.step [OF runReach.step [OF runReach.step [OF 1 2] 3] 4] show ?thesis unfolding eq by blast
qed

section \<open>Properties of \<open>Run\<close>\<close>

text \<open>What \<open>Run\<close> returns: an error only if a listener it started returned that error, with the
  listener's prefix; nil only when every listener it started has returned.\<close>

theorem Run_result:
  assumes "runReach env cfg (runInit cfg) s" "rn_pc s = Returned r"
  shows "case r of Some e \<Rightarrow> caused env cfg e | None \<Rightarrow> over (rn_tcp s) \<and> over (rn_udp s)"
  using runReach_inv [OF assms(1) runInit_inv] assms(2) by (auto simp: runInv_def chanInv_def split: option.split)

text \<open>C28. A failed listener can go unreported: whenever a TCP-only relay fails with an error (a port in use,
  a certificate that does not load), there is a schedule in which \<open>Run\<close> returns nil although the context
  is not cancelled, because \<open>select\<close> finds both \<open>errCh\<close> and \<open>done\<close> ready; the error stays in the channel.\<close>

theorem Run_may_lose_error:
  assumes "TCP (Listen cfg)" "\<not> UDP (Listen cfg)" "tcpReturns env cfg (Some e)"
  shows "\<exists>s. runReach env cfg (runInit cfg) s \<and> rn_pc s = Returned None \<and> \<not> rn_ctx s \<and> rn_errCh s = [TcpError e]"
proof -
  obtain ln where "runReach env cfg (runInit cfg)
      ((runInit cfg)\<lparr>rn_tcpLn := ln, rn_tcp := Finished, rn_errCh := [TcpError e], rn_done := True, rn_pc := Returned None\<rparr>)"
    using lostRun [OF assms] by blast
  then show ?thesis by (intro exI conjI, assumption) (simp_all add: runInit_def)
qed

text \<open>Without cancellation nil always hides an error: if \<open>Run\<close> of a relay with at least one listener
  returns nil and the context was not cancelled, an error sent by a listener is still in the channel.\<close>

theorem Run_nil_uncancelled:
  assumes "runReach env cfg (runInit cfg) s" "rn_pc s = Returned None" "\<not> rn_ctx s" "TCP (Listen cfg) \<or> UDP (Listen cfg)"
  shows "\<exists>e \<in> set (rn_errCh s). caused env cfg e"
proof -
  have "lostInv (runInit cfg)" by (auto simp: lostInv_def runInit_def)
  from runReach_lost [OF assms(1) runInit_inv this] runReach_inv [OF assms(1) runInit_inv] assms(2-4) have "rn_errCh s \<noteq> []"
    by (auto simp: lostInv_def runInv_def tcpInv_def udpInvR_def chanInv_def over_def)
  with runReach_inv [OF assms(1) runInit_inv] show ?thesis by (cases "rn_errCh s") (auto simp: runInv_def chanInv_def)
qed

section \<open>Shutdown\<close>

text \<open>What is left to do. A receive loop has at most the datagram in hand to finish once its socket is closed.\<close>

fun procWork :: "proc \<Rightarrow> nat" where
  "procWork Starting = 10" | "procWork Accepting = 2" | "procWork Receiving = 2" | "procWork Exiting = 1" | "procWork _ = 0"

fun selWork :: "selpc \<Rightarrow> nat" where
  "selWork Selecting = 2" | "selWork Draining = 1" | "selWork (Returned r) = 0"

definition udpWork :: "udpState \<Rightarrow> nat" where
  "udpWork s = (if u_lnOpen s then 5 else case u_main s of MReceive \<Rightarrow> 1 | MSend i k q \<Rightarrow> 3 | MCount i n \<Rightarrow> 2 | MStopped r \<Rightarrow> 0)"

definition runWork :: "runState \<Rightarrow> nat" where
  "runWork s = procWork (rn_tcp s) + lnWork (rn_tcpLn s) + procWork (rn_udp s) + lnWork (rn_udpLn s) + udpWork (rn_udpSt s) +
     of_bool (\<not> rn_done s) + of_bool (\<not> rn_ctx s) + selWork (rn_pc s)"

lemma udpStep_lnOpen:
  "udpStep p l g s t \<Longrightarrow> \<not> u_lnOpen s \<Longrightarrow> \<not> u_lnOpen t"
  by (erule udpStepE) (auto simp: udp_sels)

text \<open>Only the closer closes the socket, once the context is cancelled; a loop that has returned stays where it is.\<close>

lemma udpStep_closes: "udpStep p l g s t \<Longrightarrow> u_lnOpen s \<Longrightarrow> \<not> u_lnOpen t \<Longrightarrow> u_ctx s"
  by (erule udpStepE) (simp_all add: udp_sels)

lemma udpStep_moves: "udpStep p l g s t \<Longrightarrow> u_main t \<noteq> u_main s \<Longrightarrow> u_main s \<noteq> MStopped r"
  by (erule udpStepE) (simp_all add: udp_sels)

text \<open>A step of the UDP relay with the socket closed: the receive loop comes closer to its end, or it is not
  the loop that moves. With the socket open only closing it counts.\<close>

lemma udpStep_work:
  assumes "udpStep p l g s t"
  shows "udpWork t \<le> udpWork s \<and> (udpLabel s t \<noteq> UdpOther \<longrightarrow> udpWork t < udpWork s)"
proof (cases "u_lnOpen s")
  case True
  then show ?thesis by (auto simp: udpWork_def udpLabel_def split: mpc.split)
next
  case False
  with assms show ?thesis
    by cases (auto simp: udp_sels udpWork_def udpLabel_def split: mpc.splits)
qed

lemma udpLabel_cases: "udpLabel s t \<in> {UdpCloser, UdpLoop, UdpOther}"
  by (simp add: udpLabel_def)

text \<open>The steps the program takes by itself. Accepting and failing on an open listener, receiving on an open
  socket, the sessions' traffic, the reaper's ticks and the signal are left to the environment.\<close>

definition ownStep :: "runAct \<Rightarrow> bool" where
  "ownStep a \<longleftrightarrow> a \<notin> {TcpLn LnAccept, TcpLn LnFail, UdpLn LnAccept, UdpLn LnFail, UdpOther, Signal}"

lemma runStep_work:
  assumes "runStep env cfg a s t"
  shows "runWork t \<le> runWork s \<and> (ownStep a \<longrightarrow> runWork t < runWork s)"
  using assms
proof cases
  case (tcp_ln b ln)
  then show ?thesis using lnStep_work(1,2) [OF tcp_ln(3)] by (auto simp: runWork_def ownStep_def)
next
  case (dtls_ln b ln)
  then show ?thesis using lnStep_work(1,2) [OF dtls_ln(3)] by (auto simp: runWork_def ownStep_def)
next
  case (udp_step st)
  then show ?thesis using udpStep_work [OF udp_step(3)] udpLabel_cases [of "rn_udpSt s" st] by (auto simp: runWork_def ownStep_def)
next
  case (udp_listens st)
  have "udpWork (st\<lparr>u_ctx := c\<rparr>) \<le> 5" for c by (auto simp: udpWork_def split: mpc.split)
  then have "udpWork (st\<lparr>u_ctx := rn_ctx s\<rparr>) \<le> 5" .
  then show ?thesis using udp_listens by (simp add: runWork_def)
qed (auto simp: runWork_def lnWork_def lnInit_def udpWork_def split: mpc.split)

text \<open>When an own step is possible, under the invariant.\<close>

definition canStep :: "runAct \<Rightarrow> runState \<Rightarrow> bool" where
  "canStep a s = (case a of
     TcpStart \<Rightarrow> rn_tcp s = Starting
   | TcpLn b \<Rightarrow> (b = LnClosed \<and> ln_ret (rn_tcpLn s) = None \<and> \<not> ln_open (rn_tcpLn s)) \<or> (b = LnCloser \<and> rn_ctx s \<and> ln_open (rn_tcpLn s))
   | TcpReturn \<Rightarrow> rn_tcp s = Accepting \<and> ln_ret (rn_tcpLn s) \<noteq> None
   | TcpExit \<Rightarrow> rn_tcp s = Exiting
   | UdpStart \<Rightarrow> rn_udp s = Starting
   | UdpLn b \<Rightarrow> (b = LnClosed \<and> ln_ret (rn_udpLn s) = None \<and> \<not> ln_open (rn_udpLn s)) \<or> (b = LnCloser \<and> rn_ctx s \<and> ln_open (rn_udpLn s))
   | UdpCloser \<Rightarrow> rn_ctx s \<and> u_lnOpen (rn_udpSt s)
   | UdpLoop \<Rightarrow> \<not> u_lnOpen (rn_udpSt s) \<and> (\<forall>r. u_main (rn_udpSt s) \<noteq> MStopped r)
   | UdpReturn \<Rightarrow> (rn_udp s = Accepting \<and> ln_ret (rn_udpLn s) \<noteq> None) \<or> (rn_udp s = Receiving \<and> (\<exists>r. u_main (rn_udpSt s) = MStopped r))
   | UdpExit \<Rightarrow> rn_udp s = Exiting
   | Waiter \<Rightarrow> over (rn_tcp s) \<and> over (rn_udp s) \<and> \<not> rn_done s
   | Selector \<Rightarrow> (rn_pc s = Selecting \<and> (rn_errCh s \<noteq> [] \<or> rn_done s \<or> rn_ctx s)) \<or> (rn_pc s = Draining \<and> rn_done s)
   | _ \<Rightarrow> False)"

lemma runStep_canStep: "runStep env cfg a s t \<Longrightarrow> runInv env cfg s \<Longrightarrow> ownStep a \<Longrightarrow> canStep a s"
proof (induction rule: runStep.induct)
  case (tcp_ln s b ln)
  then show ?case by (cases b) (auto simp: canStep_def ownStep_def lnClosed_iff lnCloser_iff)
next
  case (dtls_ln s b ln)
  then show ?case by (cases b) (auto simp: canStep_def ownStep_def lnClosed_iff lnCloser_iff)
next
  case (udp_step s st)
  have ctx: "u_ctx (rn_udpSt s) = rn_ctx s" using udp_step by (simp add: runInv_def udpInvR_def)
  from udpStep_closes [OF udp_step(1)] udpStep_moves [OF udp_step(1)] udp_step(4) ctx show ?case
    by (auto simp: canStep_def ownStep_def udpLabel_def split: if_splits)
qed (auto simp: canStep_def ownStep_def)

lemma udpLoop_possible:
  assumes "\<not> u_lnOpen s" "\<forall>r. u_main s \<noteq> MStopped r"
  shows "\<exists>t. udpStep p l g s t \<and> u_ctx t = u_ctx s \<and> udpLabel s t = UdpLoop"
proof (cases "u_main s")
  case MReceive
  with assms recv_err [OF MReceive, of p l g EOF] show ?thesis
    by (intro exI [of _ "recvErr EOF s"]) (simp add: udpLabel_def recvErr_def)
next
  case (MSend i k q)
  with assms send_err [OF MSend, of p l g] show ?thesis
    by (intro exI [of _ "sendErr l k s"]) (simp add: udpLabel_def sendErr_def)
next
  case (MCount i n)
  with assms send_count [OF MCount, of p l g] show ?thesis
    by (intro exI [of _ "sendCount i n s"]) (simp add: udpLabel_def sendCount_def)
qed (use assms in simp)

lemma canStep_runStep:
  assumes "runInv env cfg s" "canStep a s"
  shows "\<exists>t. runStep env cfg a s t"
proof -
  have room: "rn_tcp s \<in> {Starting, Accepting} \<Longrightarrow> length (rn_errCh s) < errChCap"
    "rn_udp s \<in> {Starting, Accepting, Receiving} \<Longrightarrow> length (rn_errCh s) < errChCap"
    using assms(1) by (auto simp: runInv_def chanInv_def maySend_def)
  have ctx: "u_ctx (rn_udpSt s) = rn_ctx s" using assms(1) by (simp add: runInv_def udpInvR_def)
  show ?thesis
  proof (cases a)
    case TcpStart
    with assms(2) room(1) show ?thesis by (cases "listenTCP env cfg") (auto simp: canStep_def intro: tcp_fails tcp_listens)
  next
    case (TcpLn b)
    with assms(2) have "\<exists>ln. lnStep (rn_ctx s) b (rn_tcpLn s) ln" by (auto simp: canStep_def lnClosed_iff lnCloser_iff)
    with TcpLn show ?thesis by (auto intro: tcp_ln)
  next
    case TcpReturn
    with assms(2) obtain r where "rn_tcp s = Accepting" "ln_ret (rn_tcpLn s) = Some r" by (auto simp: canStep_def)
    with TcpReturn room(1) show ?thesis by (cases r) (auto intro: tcp_nil tcp_err)
  next
    case UdpStart
    with assms(2) room(2) show ?thesis
      by (cases "SSL (Listen cfg)"; cases "listenDTLS env cfg"; cases "startUDP env cfg (relayLog cfg)")
        (auto simp: canStep_def intro: dtls_fails dtls_listens udp_fails udp_listens)
  next
    case (UdpLn b)
    with assms(2) have "\<exists>ln. lnStep (rn_ctx s) b (rn_udpLn s) ln" by (auto simp: canStep_def lnClosed_iff lnCloser_iff)
    with UdpLn show ?thesis by (auto intro: dtls_ln)
  next
    case UdpCloser
    let ?p = "e_isPrint (r_net env)"
    have "udpStep ?p (relayLog cfg) (Addr (Target cfg)) (rn_udpSt s) (udpCloser (rn_udpSt s))"
      using assms(2) UdpCloser ctx by (intro closer) (simp_all add: canStep_def)
    moreover have "udpLabel (rn_udpSt s) (udpCloser (rn_udpSt s)) = UdpCloser"
      using assms(2) UdpCloser by (simp add: udpLabel_def udpCloser_def canStep_def)
    ultimately show ?thesis using udp_step [of env cfg s "udpCloser (rn_udpSt s)"] UdpCloser ctx by (auto simp: udpCloser_def)
  next
    case UdpLoop
    then obtain st where "udpStep (e_isPrint (r_net env)) (relayLog cfg) (Addr (Target cfg)) (rn_udpSt s) st"
        "u_ctx st = u_ctx (rn_udpSt s)" "udpLabel (rn_udpSt s) st = UdpLoop"
      using assms(2) udpLoop_possible by (fastforce simp: canStep_def)
    with udp_step [of env cfg s st] UdpLoop ctx show ?thesis by auto
  next
    case UdpReturn
    from assms(2) UdpReturn consider r where "rn_udp s = Accepting" "ln_ret (rn_udpLn s) = Some r"
      | r where "rn_udp s = Receiving" "u_main (rn_udpSt s) = MStopped r" by (auto simp: canStep_def)
    then show ?thesis
    proof cases
      case 1
      with UdpReturn room(2) show ?thesis by (cases r) (auto intro: dtls_nil dtls_err)
    next
      case 2
      with UdpReturn room(2) show ?thesis by (cases r) (auto intro: udp_nil udp_err)
    qed
  next
    case Selector
    with assms(2) show ?thesis by (cases "rn_errCh s") (auto simp: canStep_def intro: sel_err sel_done sel_ctx drained)
  qed (use assms(2) in \<open>auto simp: canStep_def intro: tcp_exit udp_exit close_done\<close>)
qed

text \<open>A step that is not the program's own takes no own step away.\<close>

lemma udpOther_keeps:
  assumes "udpStep p l g s t" "udpLabel s t = UdpOther"
  shows "u_lnOpen t = u_lnOpen s \<and> (\<not> u_lnOpen s \<longrightarrow> u_main t = u_main s) \<and> (u_main s = MStopped r \<longrightarrow> u_main t = MStopped r)"
proof -
  have "u_main s = MStopped r \<Longrightarrow> u_main t = MStopped r"
    using udpStep_moves [OF assms(1), of r] by auto
  with assms udpStep_lnOpen [OF assms(1)] show ?thesis by (auto simp: udpLabel_def split: if_splits)
qed

lemma runStep_stable:
  assumes "runStep env cfg b s t" "runWork t = runWork s" "canStep a s"
  shows "canStep a t"
proof -
  have "\<not> ownStep b" using runStep_work [OF assms(1)] assms(2) by auto
  with assms(1) show ?thesis
  proof cases
    case (tcp_ln c ln)
    then have "lnWork ln = lnWork (rn_tcpLn s)" using assms(2) by (simp add: runWork_def)
    with tcp_ln lnStep_work(3) [OF tcp_ln(3)] assms(3) show ?thesis by (cases a) (auto simp: canStep_def)
  next
    case (dtls_ln c ln)
    then have "lnWork ln = lnWork (rn_udpLn s)" using assms(2) by (simp add: runWork_def)
    with dtls_ln lnStep_work(3) [OF dtls_ln(3)] assms(3) show ?thesis by (cases a) (auto simp: canStep_def)
  next
    case (udp_step st)
    then have "udpLabel (rn_udpSt s) st = UdpOther" using udpLabel_cases [of "rn_udpSt s" st] \<open>\<not> ownStep b\<close> by (auto simp: ownStep_def)
    from udpOther_keeps [OF udp_step(3) this] udp_step assms(3) show ?thesis by (cases a) (auto simp: canStep_def)
  next
    case signal
    then show ?thesis using assms(2) by (auto simp: runWork_def udpWork_def split: mpc.splits if_splits)
  qed (auto simp: ownStep_def)
qed

lemma runStep_ctx: "runStep env cfg a s t \<Longrightarrow> rn_ctx s \<Longrightarrow> rn_ctx t"
  by (erule runStepE) simp_all

interpretation cancelled_run: settling "runStep env cfg" ownStep "\<lambda>s. runInv env cfg s \<and> rn_ctx s" runWork for env cfg
proof (unfold_locales, goal_cases)
  case (1 a s t)
  then show ?case using runStep_inv runStep_ctx by blast
next
  case (4 b s t a u)
  then show ?case using runStep_canStep runStep_stable canStep_runStep runStep_inv by metis
qed (use runStep_work in blast)+

text \<open>With nothing left to do after a cancellation, \<open>Run\<close> has returned and its listeners are closed.\<close>

lemma settled_returned:
  assumes "runInv env cfg s" "rn_ctx s" "\<And>a t. ownStep a \<Longrightarrow> \<not> runStep env cfg a s t"
  shows "(\<exists>r. rn_pc s = Returned r) \<and> over (rn_tcp s) \<and> over (rn_udp s) \<and>
    \<not> ln_open (rn_tcpLn s) \<and> \<not> ln_open (rn_udpLn s) \<and> \<not> u_lnOpen (rn_udpSt s)"
proof -
  have none: "\<not> canStep a s" if "ownStep a" for a using canStep_runStep [OF assms(1)] assms(3) that by blast
  note no = none [of TcpStart] none [of "TcpLn LnCloser"] none [of "TcpLn LnClosed"] none [of TcpReturn] none [of TcpExit]
    none [of UdpStart] none [of "UdpLn LnCloser"] none [of "UdpLn LnClosed"] none [of UdpCloser] none [of UdpLoop] none [of UdpReturn] none [of UdpExit]
  have "rn_tcp s \<noteq> Receiving" using assms(1) by (simp add: runInv_def tcpInv_def)
  then have o: "over (rn_tcp s)" "over (rn_udp s)"
    using no assms(2) by (cases "rn_tcp s"; cases "rn_udp s"; auto simp: canStep_def ownStep_def over_def)+
  moreover have "\<not> ln_open (rn_tcpLn s) \<and> \<not> ln_open (rn_udpLn s) \<and> \<not> u_lnOpen (rn_udpSt s)"
    using no assms(2) by (auto simp: canStep_def ownStep_def)
  moreover have "rn_done s" using none [of Waiter] o by (auto simp: canStep_def ownStep_def)
  then have "\<exists>r. rn_pc s = Returned r"
    using none [of Selector] by (cases "rn_pc s") (auto simp: canStep_def ownStep_def)
  ultimately show ?thesis by blast
qed

lemma fairRun_inv:
  assumes "fairRun (runStep env cfg) ownStep \<sigma>" "\<sigma> 0 = runInit cfg"
  shows "runInv env cfg (\<sigma> i)"
proof (induction i)
  case (Suc i)
  with fairRun_step [OF assms(1), of i] show ?case by (metis runStep_inv)
qed (simp add: assms(2) runInit_inv)

text \<open>C27. Cancelling ends the relay. In every execution of \<open>Run\<close> and its goroutines in which no goroutine
  that can go on is left waiting for ever, once the context is cancelled there is a point from which on
  \<open>Run\<close> has returned, the goroutines of its listeners are over, and the TCP listener, the DTLS listener
  and the UDP socket are closed. Nothing is assumed of the network: clients may go on connecting and
  sending, and nothing needs to fail.\<close>

theorem Run_returns_on_cancel:
  assumes "fairRun (runStep env cfg) ownStep \<sigma>" "\<sigma> 0 = runInit cfg" "rn_ctx (\<sigma> k)"
  shows "\<exists>n. \<forall>i \<ge> n. (\<exists>r. rn_pc (\<sigma> i) = Returned r) \<and> over (rn_tcp (\<sigma> i)) \<and> over (rn_udp (\<sigma> i)) \<and>
    \<not> ln_open (rn_tcpLn (\<sigma> i)) \<and> \<not> ln_open (rn_udpLn (\<sigma> i)) \<and> \<not> u_lnOpen (rn_udpSt (\<sigma> i))"
proof -
  from fairRun_inv [OF assms(1,2), of k] assms(3) have "runInv env cfg (\<sigma> k) \<and> rn_ctx (\<sigma> k)" by blast
  from cancelled_run.settles [OF assms(1) this] show ?thesis using settled_returned by meson
qed

section \<open>Concrete runs\<close>

text \<open>A TCP relay whose port is in use, and a UDP listener that cannot resolve its address.\<close>

definition demoBusy :: relay_env where
  "demoBusy = (demoRelay [])\<lparr>r_Listen := \<lambda>a. Inl (OtherErr ''in use''), r_ResolveUDPAddr := \<lambda>a. Inl (OtherErr ''no host'')\<rparr>"

definition demoTCP :: Config where
  "demoTCP = zeroConfig\<lparr>Listen := \<lparr>Addr = ''0.0.0.0:1'', TCP = True, UDP = False, SSL = False\<rparr>\<rparr>"

lemma demoBusy_returns: "tcpReturns demoBusy demoTCP (Some (NetError (OtherErr ''in use'')))"
  by (simp add: tcpReturns_Some listenTCP_def demoBusy_def demoTCP_def)

lemma demoTCP_listens: "TCP (Listen demoTCP)" "\<not> UDP (Listen demoTCP)"
  by (simp_all add: demoTCP_def)

theorem Run_may_lose_error_witness:
  "\<exists>s. runReach demoBusy demoTCP (runInit demoTCP) s \<and> rn_pc s = Returned None \<and> \<not> rn_ctx s \<and> rn_errCh s = [TcpError (NetError (OtherErr ''in use''))]"
  by (rule Run_may_lose_error [OF demoTCP_listens demoBusy_returns])

text \<open>A run in which the TCP listener fails and \<open>Run\<close> takes its error.\<close>

lemma demoBusy_run:
  "\<exists>s. runReach demoBusy demoTCP (runInit demoTCP) s \<and> rn_pc s = Returned (Some (TcpError (NetError (OtherErr ''in use''))))"
proof -
  obtain ln where 1: "runReach demoBusy demoTCP (runInit demoTCP)
      ((runInit demoTCP)\<lparr>rn_tcpLn := ln, rn_tcp := Exiting, rn_errCh := [TcpError (NetError (OtherErr ''in use''))]\<rparr>)" (is "runReach _ _ _ ?s1")
    using tcp_fails_run [OF demoTCP_listens demoBusy_returns] by blast
  have "runStep demoBusy demoTCP Selector ?s1 (?s1\<lparr>rn_errCh := [], rn_pc := Returned (Some (TcpError (NetError (OtherErr ''in use''))))\<rparr>)"
    using sel_err [of ?s1 "TcpError (NetError (OtherErr ''in use''))" "[]" demoBusy demoTCP] by (simp add: runInit_def)
  from runReach.step [OF 1 this] show ?thesis by (intro exI conjI, assumption) simp
qed

theorem Run_result_witness:
  "\<exists>s e. runReach demoBusy demoTCP (runInit demoTCP) s \<and> rn_pc s = Returned (Some e) \<and> caused demoBusy demoTCP e"
proof -
  obtain s e where s: "runReach demoBusy demoTCP (runInit demoTCP) s" "rn_pc s = Returned (Some e)" using demoBusy_run by blast
  with Run_result [OF s] show ?thesis by auto
qed

theorem Run_nil_uncancelled_witness:
  "\<exists>s. runReach demoBusy demoTCP (runInit demoTCP) s \<and> rn_pc s = Returned None \<and> (\<exists>e \<in> set (rn_errCh s). caused demoBusy demoTCP e)"
proof -
  obtain ln where r: "runReach demoBusy demoTCP (runInit demoTCP)
      ((runInit demoTCP)\<lparr>rn_tcpLn := ln, rn_tcp := Finished, rn_errCh := [TcpError (NetError (OtherErr ''in use''))], rn_done := True, rn_pc := Returned None\<rparr>)"
      (is "runReach _ _ _ ?s")
    using lostRun [OF demoTCP_listens demoBusy_returns] by blast
  have "\<exists>e \<in> set (rn_errCh ?s). caused demoBusy demoTCP e"
    by (rule Run_nil_uncancelled [OF r]) (simp_all add: runInit_def demoTCP_listens)
  with r show ?thesis by (intro exI [of _ ?s]) simp
qed

text \<open>A relay that listens, is cancelled while \<open>Accept\<close> blocks, and ends.\<close>

definition demoCancelled :: "nat \<Rightarrow> runState" where
  "demoCancelled i =
     (let s0 = runInit demoTCP;
          s1 = s0\<lparr>rn_tcp := Accepting, rn_tcpLn := lnInit []\<rparr>;
          s2 = s1\<lparr>rn_ctx := True, rn_udpSt := udpOff\<lparr>u_ctx := True\<rparr>\<rparr>;
          s3 = s2\<lparr>rn_tcpLn := (lnInit [])\<lparr>ln_open := False\<rparr>\<rparr>;
          s4 = s3\<lparr>rn_tcpLn := (lnInit [])\<lparr>ln_open := False, ln_ret := Some None\<rparr>\<rparr>;
          s5 = s4\<lparr>rn_tcp := Finished\<rparr>;
          s6 = s5\<lparr>rn_done := True\<rparr>;
          s7 = s6\<lparr>rn_pc := Returned None\<rparr>
      in [s0, s1, s2, s3, s4, s5, s6, s7] ! min i 7)"

lemma demoCancelled_fair: "fairRun (runStep (demoRelay []) demoTCP) ownStep demoCancelled"
proof (rule fairRun_stops [where n = 7])
  fix i :: nat
  let ?step = "runStep (demoRelay []) demoTCP"
  let ?s = demoCancelled
  note d = demoCancelled_def runInit_def demoTCP_def Let_def
  have 0: "?step TcpStart (?s 0) (?s 1)" using tcp_listens [of "?s 0" "demoRelay []" demoTCP "[]"] by (simp add: d listenTCP_def demoRelay_def)
  have 1: "?step Signal (?s 1) (?s 2)" using signal [of "?s 1" "demoRelay []" demoTCP] by (simp add: d numeral_2_eq_2)
  have 2: "?step (TcpLn LnCloser) (?s 2) (?s 3)"
    using tcp_ln [of "?s 2" LnCloser "(lnInit [])\<lparr>ln_open := False\<rparr>" "demoRelay []" demoTCP] by (simp add: d lnCloser_iff lnInit_def)
  have 3: "?step (TcpLn LnClosed) (?s 3) (?s 4)"
    using tcp_ln [of "?s 3" LnClosed "(lnInit [])\<lparr>ln_open := False, ln_ret := Some None\<rparr>" "demoRelay []" demoTCP] by (simp add: d lnClosed_iff lnInit_def)
  have 4: "?step TcpReturn (?s 4) (?s 5)" using tcp_nil [of "?s 4" "demoRelay []" demoTCP] by (simp add: d)
  have 5: "?step Waiter (?s 5) (?s 6)" using close_done [of "?s 5" "demoRelay []" demoTCP] by (simp add: d over_def)
  have 6: "?step Selector (?s 6) (?s 7)" using sel_done [of "?s 6" "demoRelay []" demoTCP] by (simp add: d)
  consider "i = 0" | "i = 1" | "i = 2" | "i = 3" | "i = 4" | "i = 5" | "i = 6" | "7 \<le> i" by linarith
  then show "?s (Suc i) = ?s i \<or> (\<exists>a. ?step a (?s i) (?s (Suc i)))"
    using 0 1 2 3 4 5 6 by cases (auto simp: eval_nat_numeral, simp add: demoCancelled_def min_def)
next
  have inv: "runInv (demoRelay []) demoTCP (demoCancelled 7)"
    by (simp add: runInv_def tcpInv_def udpInvR_def chanInv_def demoCancelled_def runInit_def demoTCP_def maySend_def errChCap_def over_def Let_def)
  show "\<not> runStep (demoRelay []) demoTCP a (demoCancelled 7) t" if "ownStep a" for a t
    using runStep_canStep [OF _ inv that] that
    by (cases a) (auto simp: canStep_def ownStep_def demoCancelled_def runInit_def demoTCP_def udpOff_def lnOff_def lnInit_def over_def udpInit_def Let_def)
qed (simp add: demoCancelled_def min_def)

theorem Run_returns_on_cancel_witness:
  "fairRun (runStep (demoRelay []) demoTCP) ownStep demoCancelled \<and> rn_ctx (demoCancelled 2) \<and>
   (\<exists>n. \<exists>r. rn_pc (demoCancelled n) = Returned r \<and> \<not> ln_open (rn_tcpLn (demoCancelled n)))"
proof -
  have "demoCancelled 0 = runInit demoTCP" "rn_ctx (demoCancelled 2)" by (simp_all add: demoCancelled_def Let_def)
  from Run_returns_on_cancel [OF demoCancelled_fair this] this(2) demoCancelled_fair show ?thesis by blast
qed

end
