(* ===== verification/Socks_Server.thy ===== *)
theory Socks_Server
  imports Proxy_Base
begin

text \<open>
  The SOCKS5 server of \<open>internal/proxy/socks.go\<close>: one connection from accept to close
  (\<open>handleSOCKSConn\<close>) and the listener (\<open>RunSOCKS\<close>), over the wire protocol, the backends and the relay.
\<close>

definition handleSOCKSConn :: "net_env \<Rightarrow> logger option \<Rightarrow> string \<Rightarrow> mode \<Rightarrow> ForwardAuthConfig \<Rightarrow> string \<Rightarrow> conn \<Rightarrow> session option" where
  "handleSOCKSConn env l upstream backendKind auth remote conn =
     (let c0 = SetDeadline (Some (e_now env + 30)) conn;
          label = ''socks '' @ remote;
          lg0 = log_Warn l ''%s: accepted'' [ArgS label];
          finish = (\<lambda>c dst others lg. Some \<lparr>ses_client = conn_close c, ses_dst = dst, ses_others = others, ses_log = lg\<rparr>)
      in case socksHandshake c0 of
           (Inl _, c1) \<Rightarrow> finish c1 None [] (lg0 @ log_Error l ''socks: %s: handshake: %v'' [ArgS remote, ArgErr])
         | (Inr _, c1) \<Rightarrow>
             (case socksReadRequest c1 of
                (Inl _, c2) \<Rightarrow> finish c2 None [] (lg0 @ log_Error l ''socks: %s: request: %v'' [ArgS remote, ArgErr])
              | (Inr target, c2) \<Rightarrow>
                  (case socksBackend env upstream backendKind auth target of
                     (Inl _, others) \<Rightarrow>
                       finish (snd (socksWriteReply socksReplyGeneralFail c2)) None others
                         (lg0 @ log_Error l ''socks: %s: dial %s: %v'' [ArgS remote, ArgS target, ArgErr])
                   | (Inr (dst, hc), others) \<Rightarrow>
                       (case socksWriteReply socksReplySucceeded c2 of
                          (Inl _, c3) \<Rightarrow> finish c3 (Some (conn_close dst)) others lg0
                        | (Inr _, c3) \<Rightarrow>
                            let c4 = SetDeadline None c3
                            in relaySession env l label (pipeSOCKS (e_hc env) hc (readsOf env c4) (readsOf env dst) c4 dst) others
                                 (lg0 @ log_Info l ''%s: connected to %s'' [ArgS label, ArgS target])))))"

text \<open>The listener: \<open>net.Listen\<close> succeeds or not; the banner; the accept loop. The result is the log of the
  listener, the sessions, and the value returned (none while it accepts).\<close>

definition RunSOCKS :: "net_env \<Rightarrow> Config \<Rightarrow> (io_error + accept list) \<Rightarrow> log_entry list \<times> session option list \<times> io_error option option" where
  "RunSOCKS env cfg listen =
     (let l = New (LogLevel cfg) (Verbose cfg); addr = Addr (Listen cfg); upstream = UpstreamAddr cfg;
          backendKind = UpstreamKind cfg; auth = ForwardAuth cfg
      in case listen of
           Inl e \<Rightarrow> ([], [], Some (Some e))
         | Inr as \<Rightarrow>
             let kind = (if backendKind = ModeHTTPProxy then ''proxy'' else ''socks'');
                 banner = (if upstream \<noteq> ''''
                   then log_Print l ''socks proxy: listening on %s, forwarding via upstream %s %s'' [ArgS addr, ArgS kind, ArgS upstream]
                   else log_Print l ''socks proxy: listening on %s'' [ArgS addr])
             in (case acceptLoop (handleSOCKSConn env l upstream backendKind auth) as of (hs, r) \<Rightarrow> (banner, hs, r)))"

lemma handleSOCKSConn_closes:
  assumes "freshDials env"
  shows "\<exists>s. handleSOCKSConn env l upstream kind auth remote c = Some s \<and> sessionClosed s"
proof -
  let ?c0 = "SetDeadline (Some (e_now env + 30)) c"
  obtain r1 c1 where 1: "socksHandshake ?c0 = (r1, c1)" by force
  obtain r2 c2 where 2: "socksReadRequest c1 = (r2, c2)" by force
  show ?thesis
  proof (cases "\<exists>u t. r1 = Inr u \<and> r2 = Inr t")
    case False
    then show ?thesis
      using 1 2 by (cases r1; cases r2) (auto simp: handleSOCKSConn_def Let_def sessionClosed_def conn_close_def)
  next
    case True
    then obtain u t where rt: "r1 = Inr u" "r2 = Inr t" by blast
    obtain rb others where 3: "socksBackend env upstream kind auth t = (rb, others)" by force
    with backends_ok(1) [OF assms, of upstream kind auth t] have o: "\<forall>c \<in> set others. closed c"
      by (simp add: dialedOk_def)
    obtain r4 c3 where 4: "socksWriteReply socksReplySucceeded c2 = (r4, c3)" by force
    show ?thesis
    proof (cases "\<exists>dst hc w. rb = Inr (dst, hc) \<and> r4 = Inr w")
      case False
      then show ?thesis
        using 1 2 3 4 rt o
        by (cases rb; cases r4) (auto simp: handleSOCKSConn_def Let_def sessionClosed_def conn_close_def)
    next
      case True
      then show ?thesis
        using 1 2 3 4 rt relaySession_closes [OF o]
        by (auto simp: handleSOCKSConn_def Let_def pipeSOCKS_def)
    qed
  qed
qed

interpretation socks_handler: conn_handler "\<lambda>env. handleSOCKSConn env l upstream kind auth" for l upstream kind auth
  by unfold_locales (rule handleSOCKSConn_closes)

lemma socks_session_relays:
  assumes "freshDials env" "fairChop env"
    and "openConn c" "rd_data c = greeting ms @ requestBytes (host, p) @ up" "length ms \<le> 255" "socksAuthNone \<in> set ms" "hostFits host"
    and "socksBackend env upstream kind auth (JoinHostPort (canonHost host) (Itoa (unat p))) = (Inr (dst, hc), others)" "openConn dst"
  shows "\<exists>s d. handleSOCKSConn env l upstream kind auth remote c = Some s \<and> sessionClosed s \<and> ses_dst s = Some d \<and>
     wr_log (ses_client s) = wr_log c @ [5, 0] @ replyBytes 0 @ rd_data dst \<and> wr_log d = wr_log dst @ up \<and>
     deadline (ses_client s) = None"
proof -
  let ?target = "JoinHostPort (canonHost host) (Itoa (unat p))"
  let ?c0 = "c\<lparr>deadline := Some (e_now env + 30)\<rparr>"
  let ?c1 = "?c0\<lparr>rd_data := requestBytes (host, p) @ up, wr_log := wr_log c @ [socksVersion5, socksAuthNone]\<rparr>"
  let ?c4 = "c\<lparr>rd_data := up, wr_log := wr_log c @ [5, 0] @ replyBytes 0, deadline := None\<rparr>"
  have 1: "socksHandshake ?c0 = (Inr (), ?c1)"
    using greet.reads [of ?c0 ms "requestBytes (host, p) @ up"] assms by simp
  have 2: "socksReadRequest ?c1 = (Inr ?target, ?c1\<lparr>rd_data := up\<rparr>)"
    using socksReadRequest_reads [of ?c1 host p up] assms by simp
  have 3: "socksWriteReply socksReplySucceeded (?c1\<lparr>rd_data := up\<rparr>) =
      (Inr (), c\<lparr>deadline := Some (e_now env + 30), rd_data := up, wr_log := wr_log c @ [5, 0] @ replyBytes 0\<rparr>)"
    using assms(3) by (simp add: socksWriteReply_ok socksReplySucceeded_def socksVersion5_def socksAuthNone_def)
  have "handleSOCKSConn env l upstream kind auth remote c =
      relaySession env l (''socks '' @ remote) (pipeSOCKS (e_hc env) hc (readsOf env ?c4) (readsOf env dst) ?c4 dst) others
        (log_Warn l ''%s: accepted'' [ArgS (''socks '' @ remote)] @ log_Info l ''%s: connected to %s'' [ArgS (''socks '' @ remote), ArgS ?target])"
    using assms(8) 1 2 3 by (simp add: handleSOCKSConn_def SetDeadline_def Let_def)
  moreover have "openConn ?c4" using assms(3) by simp
  ultimately show ?thesis
    using relaySession_relays [OF assms(2), of ?c4 dst] assms(9) handleSOCKSConn_closes [OF assms(1), of l upstream kind auth remote c]
    by (fastforce simp: pipeSOCKS_def)
qed

text \<open>C1. The SOCKS server relays end to end. A client that offers "no authentication" and asks for a
  target, to which the backend connects, receives the method, the success reply and then exactly what
  the target sends; the target receives exactly what the client sent after its request; the call
  returns with both connections closed and the handshake deadline lifted before the relay.\<close>

theorem socks_session_end_to_end:
  assumes "freshDials env" "fairChop env"
    and "openConn c" "rd_data c = greeting ms @ requestBytes (host, p) @ up" "length ms \<le> 255" "socksAuthNone \<in> set ms" "hostFits host"
    and "socksBackend env upstream kind auth (JoinHostPort (canonHost host) (Itoa (unat p))) = (Inr (dst, hc), others)" "openConn dst"
  shows "\<exists>s d. handleSOCKSConn env l upstream kind auth remote c = Some s \<and> sessionClosed s \<and> ses_dst s = Some d \<and>
     wr_log (ses_client s) = wr_log c @ [5, 0] @ replyBytes 0 @ rd_data dst \<and> wr_log d = wr_log dst @ up \<and>
     deadline (ses_client s) = None"
  using assms by (rule socks_session_relays)

theorem socks_session_end_to_end_witness:
  "\<exists>s d. handleSOCKSConn (demoEnv [8]) None '''' ModeSOCKSProxy zeroForwardAuth ''1.2.3.4:5'' (peer (greeting [0] @ requestBytes (''h'', 80) @ [9])) = Some s \<and>
     sessionClosed s \<and> ses_dst s = Some d \<and> wr_log (ses_client s) = wr_log (peer (greeting [0] @ requestBytes (''h'', 80) @ [9])) @ [5, 0] @ replyBytes 0 @ rd_data (peer [8]) \<and>
     wr_log d = wr_log (peer [8]) @ [9] \<and>
     deadline (ses_client s) = None"
  by (rule socks_session_end_to_end [where ms = "[0]" and host = "''h''" and p = 80])
    (simp_all add: demoEnv_ok hostFits_def socksBackend_def dialDirect_def wire_defs, simp_all add: demoEnv_def)

text \<open>When the backend cannot be reached, the client is told so: after the handshake and the request
  it receives exactly one reply, the general failure, and its connection and every connection opened
  on the way are closed.\<close>

theorem socks_dial_failure_reply:
  assumes "freshDials env"
    and "openConn c" "rd_data c = greeting ms @ requestBytes (host, p) @ up" "length ms \<le> 255" "socksAuthNone \<in> set ms" "hostFits host"
    and "socksBackend env upstream kind auth (JoinHostPort (canonHost host) (Itoa (unat p))) = (Inl e, others)"
  shows "\<exists>s. handleSOCKSConn env l upstream kind auth remote c = Some s \<and> sessionClosed s \<and> ses_dst s = None \<and>
     wr_log (ses_client s) = wr_log c @ [5, 0] @ replyBytes 1"
proof -
  let ?c0 = "c\<lparr>deadline := Some (e_now env + 30)\<rparr>"
  let ?c1 = "?c0\<lparr>rd_data := requestBytes (host, p) @ up, wr_log := wr_log c @ [socksVersion5, socksAuthNone]\<rparr>"
  have 1: "socksHandshake ?c0 = (Inr (), ?c1)"
    using greet.reads [of ?c0 ms "requestBytes (host, p) @ up"] assms by simp
  have 2: "socksReadRequest ?c1 = (Inr (JoinHostPort (canonHost host) (Itoa (unat p))), ?c1\<lparr>rd_data := up\<rparr>)"
    using socksReadRequest_reads [of ?c1 host p up] assms by simp
  have 3: "socksWriteReply socksReplyGeneralFail (?c1\<lparr>rd_data := up\<rparr>) =
      (Inr (), c\<lparr>deadline := Some (e_now env + 30), rd_data := up, wr_log := wr_log c @ [5, 0] @ replyBytes 1\<rparr>)"
    using assms(2) by (simp add: socksWriteReply_ok socksReplyGeneralFail_def socksVersion5_def socksAuthNone_def)
  show ?thesis
    using handleSOCKSConn_closes [OF assms(1), of l upstream kind auth remote c] assms(7) 1 2 3
    by (auto simp: handleSOCKSConn_def SetDeadline_def Let_def conn_close_def)
qed

theorem socks_dial_failure_reply_witness:
  "\<exists>s. handleSOCKSConn ((demoEnv [])\<lparr>e_dial := \<lambda>i a. Inl (OtherErr ''refused'')\<rparr>) None '''' ModeSOCKSProxy zeroForwardAuth ''1.2.3.4:5'' (peer (greeting [0] @ requestBytes (''h'', 80) @ [])) = Some s \<and>
     sessionClosed s \<and> ses_dst s = None \<and> wr_log (ses_client s) = wr_log (peer (greeting [0] @ requestBytes (''h'', 80) @ [])) @ [5, 0] @ replyBytes 1"
  by (rule socks_dial_failure_reply [where ms = "[0]" and host = "''h''" and p = 80 and e = "Direct (OtherErr ''refused'')" and others = "[]"])
    (simp_all add: freshDials_def hostFits_def socksBackend_def dialDirect_def wire_defs)

text \<open>The SOCKS listener: however accepting goes, every accepted connection is handled to the end and
  closed, with all the connections opened for it; and the listener returns nil exactly when \<open>Accept\<close>
  failed after the context was cancelled, and the error otherwise.\<close>

theorem RunSOCKS_closes_all:
  assumes "freshDials env" "RunSOCKS env cfg (Inr (accepts cs @ AcceptFailed e ctxDone # as)) = (lg, hs, r)"
  shows "length hs = length cs \<and> (\<forall>h \<in> set hs. \<exists>s. h = Some s \<and> sessionClosed s) \<and> r = Some (if ctxDone then None else Some e)"
proof -
  let ?h = "handleSOCKSConn env (New (LogLevel cfg) (Verbose cfg)) (UpstreamAddr cfg) (UpstreamKind cfg) (ForwardAuth cfg)"
  have a: "acceptLoop ?h (accepts cs @ AcceptFailed e ctxDone # as) = (hs, r)"
    using assms(2) by (simp add: RunSOCKS_def Let_def split: prod.splits)
  then show ?thesis
    using socks_handler.accepted_all_closed [OF assms(1) a] by (auto simp: acceptLoop_failed)
qed

theorem RunSOCKS_closes_all_witness:
  "\<exists>lg hs r. RunSOCKS (demoEnv []) zeroConfig (Inr (accepts [(''p'', peer [])] @ AcceptFailed ErrClosed True # [])) = (lg, hs, r) \<and>
     length hs = 1 \<and> r = Some None"
proof -
  obtain lg hs r where e: "RunSOCKS (demoEnv []) zeroConfig (Inr (accepts [(''p'', peer [])] @ AcceptFailed ErrClosed True # [])) = (lg, hs, r)"
    by (metis prod_cases3)
  from RunSOCKS_closes_all [OF demoEnv_ok(1) e] e show ?thesis by simp
qed


end
