(* ===== verification/Http_Server.thy ===== *)
theory Http_Server
  imports Proxy_Base
begin

text \<open>
  The HTTP proxy server of \<open>internal/proxy/http.go\<close>: the CONNECT tunnel (\<open>handleConnect\<close>), plain
  forwarding (\<open>handleForward\<close>), and \<open>RunHTTP\<close> with its choice of a transport. The response writer is
  a record of what was set and sent; the round trips of Go's own transports are the argument \<open>rt\<close>.
\<close>

section \<open>CONNECT\<close>

datatype hijack = NotHijacker | HijackFailed io_error | Hijacked conn

text \<open>The outcome of a CONNECT: the status and text of the error response, if
  \<open>http.Error\<close> was called, and the connections. \<open>errText\<close> is \<open>err.Error()\<close>.\<close>

record tunnel =
  tun_error :: "(nat \<times> string) option"
  tun_src :: "conn option"
  tun_dst :: "conn option"
  tun_others :: "conn list"
  tun_log :: "log_entry list"

definition established :: "byte list" where
  "established = bytesOf (''HTTP/1.1 200 Connection Established'' @ [CHR 0x0D, CHR 0x0A, CHR 0x0D, CHR 0x0A])"

definition StatusBadGateway :: nat where "StatusBadGateway = 502"
definition StatusInternalServerError :: nat where "StatusInternalServerError = 500"
definition StatusBadRequest :: nat where "StatusBadRequest = 400"

text \<open>\<open>buf.WriteString\<close> and \<open>buf.Flush\<close> are one write; reading \<open>buf\<close> gives what the client has sent after
  its request, so the hijacked connection stands for both. None when the tunnel never ends.\<close>

definition handleConnect :: "net_env \<Rightarrow> (proxy_error + io_error \<Rightarrow> string) \<Rightarrow> logger option \<Rightarrow> string \<Rightarrow> mode \<Rightarrow> ForwardAuthConfig \<Rightarrow> http_request \<Rightarrow> hijack \<Rightarrow> tunnel option" where
  "handleConnect env errText l upstream backendKind auth r hj =
     (let label = ''http-connect '' @ req_Host r;
          lg0 = log_Warn l ''%s: request from %s'' [ArgS label, ArgS (req_RemoteAddr r)]
      in case connectBackend env upstream backendKind auth (req_Host r) of
           (Inl e, others) \<Rightarrow>
             Some \<lparr>tun_error = Some (StatusBadGateway, errText (Inl e)), tun_src = None, tun_dst = None, tun_others = others,
               tun_log = lg0 @ log_Error l ''http-connect: %s: dial: %v'' [ArgS (req_Host r), ArgErr]\<rparr>
         | (Inr (dst, hc), others) \<Rightarrow>
             (case hj of
                NotHijacker \<Rightarrow>
                  Some \<lparr>tun_error = Some (StatusInternalServerError, ''hijacking not supported''), tun_src = None, tun_dst = Some (conn_close dst), tun_others = others, tun_log = lg0\<rparr>
              | HijackFailed e \<Rightarrow>
                  Some \<lparr>tun_error = Some (StatusInternalServerError, errText (Inr e)), tun_src = None, tun_dst = Some (conn_close dst), tun_others = others, tun_log = lg0\<rparr>
              | Hijacked src \<Rightarrow>
                  (case conn_write src established of
                     (_, Some _, src1) \<Rightarrow>
                       Some \<lparr>tun_error = None, tun_src = Some (conn_close src1), tun_dst = Some (conn_close dst), tun_others = others, tun_log = lg0\<rparr>
                   | (_, None, src1) \<Rightarrow>
                       (case relaySession env l label (pipeTunnel (readsOf env src1) (readsOf env dst) src1 dst) others
                           (lg0 @ log_Info l ''%s: connected to %s'' [ArgS label, ArgS (req_Host r)]) of
                          None \<Rightarrow> None
                        | Some s \<Rightarrow>
                            Some \<lparr>tun_error = None, tun_src = Some (ses_client s), tun_dst = ses_dst s, tun_others = ses_others s, tun_log = ses_log s\<rparr>))))"

section \<open>Plain forwarding\<close>

definition hopByHopHeaders :: "string list" where
  "hopByHopHeaders =
     [''Connection'', ''Proxy-Connection'', ''Keep-Alive'', ''Proxy-Authenticate'',
      ''Proxy-Authorization'', ''Te'', ''Trailer'', ''Transfer-Encoding'', ''Upgrade'']"

definition stripHopByHop :: "header \<Rightarrow> header" where
  "stripHopByHop h = fold header_Del hopByHopHeaders h"

text \<open>The response writer: the header map, the status written, and the connection the body goes to.\<close>

record writer =
  w_Header :: header
  w_status :: "nat option"
  w_body :: conn

definition http_Error :: "string \<Rightarrow> nat \<Rightarrow> writer \<Rightarrow> writer" where
  "http_Error msg code w =
     w\<lparr>w_Header := header_Set ''X-Content-Type-Options'' ''nosniff''
         (header_Set ''Content-Type'' ''text/plain; charset=utf-8'' (header_Del ''Content-Length'' (w_Header w))),
       w_status := Some code,
       w_body := snd (snd (conn_write (w_body w) (bytesOf (msg @ [CHR 0x0A]))))\<rparr>"

text \<open>\<open>for k, vs := range resp.Header \<lbrace> for v \<lbrace> w.Header().Add(k, v) \<rbrace> \<rbrace>\<close>: every key is visited once, and the
  order of the keys makes no difference.\<close>

definition addAll :: "header \<Rightarrow> header \<Rightarrow> header" where
  "addAll src w = (\<lambda>k. case src k of None \<Rightarrow> w k | Some vs \<Rightarrow> fold (header_Add k) vs w k)"

record forwarded =
  fwd_w :: writer
  fwd_sent :: "http_request option"
  fwd_log :: "log_entry list"

text \<open>\<open>errText\<close> is \<open>err.Error()\<close>. None while the body of the response never ends.\<close>

definition handleForward ::
    "(nat \<Rightarrow> bool) \<Rightarrow> ('e \<Rightarrow> string) \<Rightarrow> logger option \<Rightarrow> (http_request \<Rightarrow> ('e, http_response) result) \<Rightarrow> writer \<Rightarrow> http_request
     \<Rightarrow> forwarded option" where
  "handleForward isPrint errText l transport w r =
     (if \<not> req_abs r then
        Some \<lparr>fwd_w = http_Error ''proxy: request URI must be absolute'' StatusBadRequest w, fwd_sent = None, fwd_log = []\<rparr>
      else
        (let label = ''http '' @ req_Method r @ '' '' @ req_URL r;
             lg0 = log_Warn l ''%s: request from %s'' [ArgS label, ArgS (req_RemoteAddr r)];
             outReq = r\<lparr>req_RequestURI := '''', req_Header := stripHopByHop (req_Header r)\<rparr>
         in case transport outReq of
              Inl e \<Rightarrow>
                Some \<lparr>fwd_w = http_Error (errText e) StatusBadGateway w, fwd_sent = Some outReq,
                  fwd_log = lg0 @ log_Error l ''http: %s: %v'' [ArgS label, ArgErr]\<rparr>
            | Inr resp \<Rightarrow>
                let lg1 = lg0 @ log_Info l ''%s: %s'' [ArgS label, ArgS (res_Status resp)];
                    w1 = w\<lparr>w_Header := addAll (stripHopByHop (res_Header resp)) (w_Header w), w_status := Some (res_StatusCode resp)\<rparr>
                in (case Copy isPrint l label False conn_write (res_Body resp) (w_body w1) of
                      (None, _, _) \<Rightarrow> None
                    | (Some _, body, lg) \<Rightarrow>
                        Some \<lparr>fwd_w = w1\<lparr>w_body := body\<rparr>, fwd_sent = Some outReq, fwd_log = lg1 @ lg\<rparr>)))"

section \<open>The server\<close>

datatype transport =
    DefaultTransport
  | SOCKSBacked string ForwardAuthConfig
  | ProxyTransport string
  | AuthTransport string ForwardAuthConfig

definition chooseTransport :: "Config \<Rightarrow> transport" where
  "chooseTransport cfg =
     (let upstream = UpstreamAddr cfg; auth = ForwardAuth cfg in
      if upstream = '''' then DefaultTransport
      else if UpstreamKind cfg = ModeSOCKSProxy then SOCKSBacked upstream auth
      else if User auth \<noteq> '''' then AuthTransport upstream auth
      else ProxyTransport upstream)"

text \<open>The dial of \<open>newSOCKSBackedTransport\<close>: every destination goes through the upstream.\<close>

definition socksBackedDial :: "net_env \<Rightarrow> string \<Rightarrow> ForwardAuthConfig \<Rightarrow> string \<Rightarrow> (upstream_error, conn) result \<times> conn option" where
  "socksBackedDial env upstream auth addr = dialUpstreamSOCKS (e_dial env 0) (e_now env) upstream addr auth"

text \<open>How a Go transport gets a request to the host of its URL: as \<open>http.DefaultTransport\<close> does; by handing the
  request to a proxy, which reads it; through a tunnel that it asks a proxy for with a CONNECT of its own, so
  that the request, all its headers included, is read by the host of the URL; or with a dial function of
  its own.\<close>

datatype route =
    DefaultRoute
  | ProxyRoute string
  | TunnelRoute string
  | DialRoute "string \<Rightarrow> (upstream_error, conn) result \<times> conn option"

text \<open>What \<open>http.Transport\<close> documents of its \<open>Proxy\<close>: a request for an https URL is sent in a tunnel through the
  proxy, any other is handed to the proxy. \<open>net/url\<close> gives schemes in lower case.\<close>

definition isHTTPS :: "http_request \<Rightarrow> bool" where
  "isHTTPS q = HasPrefix (req_URL q) ''https://''"

definition viaProxy :: "string \<Rightarrow> http_request \<Rightarrow> route" where
  "viaProxy u q = (if isHTTPS q then TunnelRoute u else ProxyRoute u)"

text \<open>A round trip through the chosen transport. \<open>rt route i\<close> is the \<open>i\<close>-th round trip of a Go transport
  with that route. The requests that went out, each with its route, are returned with the result.\<close>

definition transportRoundTrip ::
    "net_env \<Rightarrow> (route \<Rightarrow> nat \<Rightarrow> http_request \<Rightarrow> (io_error, http_response) result) \<Rightarrow> transport \<Rightarrow> http_request
     \<Rightarrow> (roundtrip_error, http_response) result \<times> (route \<times> http_request) list" where
  "transportRoundTrip env rt tr req =
     (case tr of
        DefaultTransport \<Rightarrow> (map_sum Transport id (rt DefaultRoute 0 req), [(DefaultRoute, req)])
      | SOCKSBacked u auth \<Rightarrow> (map_sum Transport id (rt (DialRoute (socksBackedDial env u auth)) 0 req), [(DialRoute (socksBackedDial env u auth), req)])
      | ProxyTransport u \<Rightarrow> (map_sum Transport id (rt (viaProxy u req) 0 req), [(viaProxy u req, req)])
      | AuthTransport u auth \<Rightarrow>
          (case RoundTrip (e_isPrint env) (e_rand env) (\<lambda>i q. rt (viaProxy u q) i q) auth req of (r, sent) \<Rightarrow> (r, map (\<lambda>q. (viaProxy u q, q)) sent)))"

datatype handled = Tunnelled "tunnel option" | Forwarded "forwarded option"

definition httpHandler ::
    "net_env \<Rightarrow> (route \<Rightarrow> nat \<Rightarrow> http_request \<Rightarrow> (io_error, http_response) result) \<Rightarrow> (proxy_error + io_error \<Rightarrow> string) \<Rightarrow> (roundtrip_error \<Rightarrow> string)
     \<Rightarrow> Config \<Rightarrow> http_request \<Rightarrow> hijack \<Rightarrow> writer \<Rightarrow> handled" where
  "httpHandler env rt dialText errText cfg r hj w =
     (let l = New (LogLevel cfg) (Verbose cfg) in
      if req_Method r = ''CONNECT''
      then Tunnelled (handleConnect env dialText l (UpstreamAddr cfg) (UpstreamKind cfg) (ForwardAuth cfg) r hj)
      else Forwarded (handleForward (e_isPrint env) errText l (\<lambda>q. fst (transportRoundTrip env rt (chooseTransport cfg) q)) w r))"

datatype serve_error = ErrServerClosed | ServeFailed io_error

text \<open>The server: what \<open>net/http\<close> does is given by the requests it hands to the handler and the error
  \<open>ListenAndServe\<close> ends with.\<close>

record http_serving =
  hs_rt :: "route \<Rightarrow> nat \<Rightarrow> http_request \<Rightarrow> (io_error, http_response) result"
  hs_dialText :: "proxy_error + io_error \<Rightarrow> string"
  hs_errText :: "roundtrip_error \<Rightarrow> string"
  hs_requests :: "(http_request \<times> hijack \<times> writer) list"
  hs_end :: serve_error

definition RunHTTP :: "net_env \<Rightarrow> http_serving \<Rightarrow> Config \<Rightarrow> log_entry list \<times> handled list \<times> io_error option" where
  "RunHTTP env srv cfg =
     (let l = New (LogLevel cfg) (Verbose cfg); addr = Addr (Listen cfg); upstream = UpstreamAddr cfg;
          kind = (if UpstreamKind cfg = ModeSOCKSProxy then ''socks'' else ''proxy'');
          banner = (if upstream \<noteq> ''''
            then log_Print l ''http proxy: listening on %s, forwarding via upstream %s %s'' [ArgS addr, ArgS kind, ArgS upstream]
            else log_Print l ''http proxy: listening on %s'' [ArgS addr])
      in (banner,
          map (\<lambda>(r, hj, w). httpHandler env (hs_rt srv) (hs_dialText srv) (hs_errText srv) cfg r hj w) (hs_requests srv),
          case hs_end srv of ErrServerClosed \<Rightarrow> None | ServeFailed e \<Rightarrow> Some e))"

section \<open>Properties of the tunnel\<close>

definition tunnelClosed :: "tunnel \<Rightarrow> bool" where
  "tunnelClosed t \<longleftrightarrow> (\<forall>c. tun_src t = Some c \<longrightarrow> closed c) \<and> (\<forall>c. tun_dst t = Some c \<longrightarrow> closed c) \<and> (\<forall>c \<in> set (tun_others t). closed c)"

lemma handleConnect_closes:
  assumes "freshDials env"
  shows "\<exists>t. handleConnect env errText l upstream kind auth r hj = Some t \<and> tunnelClosed t"
proof -
  obtain rb others where 1: "connectBackend env upstream kind auth (req_Host r) = (rb, others)" by force
  with backends_ok(2) [OF assms, of upstream kind auth "req_Host r"] have o: "\<forall>c \<in> set others. closed c"
    by (simp add: dialedOk_def)
  show ?thesis
  proof (cases "\<exists>dst hc src n src1. rb = Inr (dst, hc) \<and> hj = Hijacked src \<and> conn_write src established = (n, None, src1)")
    case False
    then show ?thesis
      using 1 o by (cases rb; cases hj) (auto simp: handleConnect_def Let_def tunnelClosed_def conn_close_def split: prod.splits option.splits)
  next
    case True
    then obtain dst hc src n src1 where t: "rb = Inr (dst, hc)" "hj = Hijacked src" "conn_write src established = (n, None, src1)" by blast
    obtain s where "relaySession env l (''http-connect '' @ req_Host r) (pipeTunnel (readsOf env src1) (readsOf env dst) src1 dst) others
        (log_Warn l ''%s: request from %s'' [ArgS (''http-connect '' @ req_Host r), ArgS (req_RemoteAddr r)] @
         log_Info l ''%s: connected to %s'' [ArgS (''http-connect '' @ req_Host r), ArgS (req_Host r)]) = Some s" "sessionClosed s"
      using relaySession_closes [OF o] by (fastforce simp: pipeTunnel_def)
    with 1 t show ?thesis by (auto simp: handleConnect_def Let_def tunnelClosed_def sessionClosed_def)
  qed
qed

lemma handleConnect_relays:
  assumes "freshDials env" "fairChop env" "openConn src" "openConn dst"
    and "connectBackend env upstream kind auth (req_Host r) = (Inr (dst, hc), others)"
  shows "\<exists>t s d. handleConnect env errText l upstream kind auth r (Hijacked src) = Some t \<and> tunnelClosed t \<and> tun_error t = None \<and>
     tun_src t = Some s \<and> wr_log s = wr_log src @ established @ rd_data dst \<and>
     tun_dst t = Some d \<and> wr_log d = wr_log dst @ rd_data src"
proof -
  let ?src = "src\<lparr>wr_log := wr_log src @ established\<rparr>" and ?lb = "''http-connect '' @ req_Host r"
  have w: "conn_write src established = (length established, None, ?src)"
    using assms(3) by (simp add: conn_write_def openConn_def)
  obtain s d where "relaySession env l ?lb (pipeTunnel (readsOf env ?src) (readsOf env dst) ?src dst) others
        (log_Warn l ''%s: request from %s'' [ArgS ?lb, ArgS (req_RemoteAddr r)] @ log_Info l ''%s: connected to %s'' [ArgS ?lb, ArgS (req_Host r)]) = Some s"
      "wr_log (ses_client s) = wr_log ?src @ rd_data dst" "ses_dst s = Some d" "wr_log d = wr_log dst @ rd_data ?src"
    using relaySession_relays [OF assms(2), of ?src dst l ?lb False False others] assms(3,4) unfolding pipeTunnel_def by fastforce
  then show ?thesis
    using handleConnect_closes [OF assms(1), of errText l upstream kind auth r "Hijacked src"] assms(5) w
    by (auto simp: handleConnect_def Let_def)
qed

text \<open>C7. A CONNECT request is tunnelled end to end, whichever backend carries it: the client receives the
  200 line and then exactly what the target sends, the target exactly what the client sends, and when
  both streams have ended the call returns with every connection closed.\<close>

theorem connect_tunnel_end_to_end:
  assumes "freshDials env" "fairChop env" "openConn src" "openConn dst"
    and "connectBackend env upstream kind auth (req_Host r) = (Inr (dst, hc), others)"
  shows "\<exists>t s d. handleConnect env errText l upstream kind auth r (Hijacked src) = Some t \<and> tunnelClosed t \<and> tun_error t = None \<and>
     tun_src t = Some s \<and> wr_log s = wr_log src @ established @ rd_data dst \<and>
     tun_dst t = Some d \<and> wr_log d = wr_log dst @ rd_data src"
  using assms by (rule handleConnect_relays)

theorem connect_tunnel_end_to_end_witness:
  "\<exists>t s d. handleConnect (demoEnv [8]) (\<lambda>e. '''') None '''' ModeHTTPProxy zeroForwardAuth (connectRequest ''h:443'' '''') (Hijacked (peer [9])) = Some t \<and>
     tunnelClosed t \<and> tun_error t = None \<and> tun_src t = Some s \<and> wr_log s = wr_log (peer [9]) @ established @ rd_data (peer [8]) \<and>
     tun_dst t = Some d \<and> wr_log d = wr_log (peer [8]) @ rd_data (peer [9])"
  by (rule connect_tunnel_end_to_end [where hc = True and others = "[]"])
    (simp_all add: demoEnv_ok connectBackend_def dialDirect_def, simp add: demoEnv_def)

text \<open>A CONNECT that fails is answered and leaves nothing open: whatever fails, the call returns with
  every connection closed; a target that cannot be reached is answered 502 before the client's
  connection is taken over, a connection that cannot be taken over 500 after the target is closed.\<close>

theorem connect_errors:
  assumes "freshDials env"
  shows "\<exists>t. handleConnect env errText l upstream kind auth r hj = Some t \<and> tunnelClosed t \<and>
    (\<forall>e others. connectBackend env upstream kind auth (req_Host r) = (Inl e, others) \<longrightarrow>
       tun_error t = Some (502, errText (Inl e)) \<and> tun_src t = None \<and> tun_dst t = None) \<and>
    (\<forall>d others. connectBackend env upstream kind auth (req_Host r) = (Inr d, others) \<longrightarrow> (\<forall>c. hj \<noteq> Hijacked c) \<longrightarrow>
       map_option fst (tun_error t) = Some 500 \<and> tun_src t = None)"
proof -
  obtain t where t: "handleConnect env errText l upstream kind auth r hj = Some t" "tunnelClosed t"
    using handleConnect_closes [OF assms] by blast
  then show ?thesis
    by (cases hj) (auto simp: handleConnect_def Let_def StatusBadGateway_def StatusInternalServerError_def)
qed

theorem connect_errors_witness:
  "\<exists>t. handleConnect ((demoEnv [])\<lparr>e_dial := \<lambda>i a. Inl EOF\<rparr>) (\<lambda>e. ''x'') None '''' ModeHTTPProxy zeroForwardAuth (connectRequest ''h:443'' '''') NotHijacker = Some t \<and>
     tun_error t = Some (502, ''x'')"
proof -
  have f: "freshDials ((demoEnv [])\<lparr>e_dial := \<lambda>i a. Inl EOF\<rparr>)" by (simp add: freshDials_def)
  have "connectBackend ((demoEnv [])\<lparr>e_dial := \<lambda>i a. Inl EOF\<rparr>) '''' ModeHTTPProxy zeroForwardAuth (req_Host (connectRequest ''h:443'' '''')) = (Inl (Direct EOF), [])"
    by (simp add: connectBackend_def dialDirect_def)
  with connect_errors [OF f, of "\<lambda>e. ''x''" None "''''" ModeHTTPProxy zeroForwardAuth "connectRequest ''h:443'' ''''" NotHijacker]
  show ?thesis by auto
qed


section \<open>Properties of plain forwarding\<close>

lemma fold_header_Del: "fold header_Del ks h = (\<lambda>k. if k \<in> set ks then None else h k)"
  by (induction ks arbitrary: h) (auto simp: header_Del_def)

lemma stripHopByHop_eq: "stripHopByHop h k = (if k \<in> set hopByHopHeaders then None else h k)"
  by (simp add: stripHopByHop_def fold_header_Del)

lemma fold_header_Add: "fold (header_Add k) vs h k = (if vs = [] then h k else Some (header_Values k h @ vs))"
proof (induction vs arbitrary: h)
  case (Cons v vs)
  then show ?case by (cases "vs = []") (auto simp: header_Add_def header_Values_def)
qed simp

lemma addAll_fresh: "(\<And>k. w k = None) \<Longrightarrow> addAll src w k = (case src k of Some (v # vs) \<Rightarrow> Some (v # vs) | _ \<Rightarrow> None)"
  by (auto simp: addAll_def fold_header_Add header_Values_def split: option.splits list.splits)

text \<open>C22. What a plain request becomes: a request without an absolute URI is answered 400 and not
  forwarded; otherwise exactly one request is handed to the transport, with the client's method, URL,
  host and body, every header except the nine hop-by-hop ones, and none of those.\<close>

theorem forward_request:
  assumes "handleForward isPrint errText l tr w r = Some f"
  shows "(\<not> req_abs r \<longrightarrow> fwd_sent f = None \<and> w_status (fwd_w f) = Some 400) \<and>
    (req_abs r \<longrightarrow> (\<exists>q. fwd_sent f = Some q \<and> req_Method q = req_Method r \<and> req_URL q = req_URL r \<and> req_Host q = req_Host r \<and>
       req_Body q = req_Body r \<and> req_RequestURI q = '''' \<and>
       (\<forall>k. req_Header q k = (if k \<in> set hopByHopHeaders then None else req_Header r k))))"
proof (cases "req_abs r")
  case False
  with assms show ?thesis by (auto simp: handleForward_def http_Error_def StatusBadRequest_def)
next
  case True
  with assms have "fwd_sent f = Some (r\<lparr>req_RequestURI := '''', req_Header := stripHopByHop (req_Header r)\<rparr>)"
    by (auto simp: handleForward_def Let_def split: sum.splits option.splits prod.splits)
  with True show ?thesis by (simp add: stripHopByHop_eq)
qed

text \<open>A request and a response to try the handler on.\<close>

definition demoRequest :: "header \<Rightarrow> http_request" where
  "demoRequest h = \<lparr>req_Method = ''GET'', req_URL = ''http://h/'', req_abs = True, req_Host = ''h'', req_RequestURI = ''http://h/'',
     req_RemoteAddr = '''', req_Header = h, req_Body = None\<rparr>"

definition demoResponse :: "header \<Rightarrow> http_response" where
  "demoResponse h = \<lparr>res_StatusCode = 200, res_Status = ''200 OK'', res_Header = h, res_Body = [([7], Some EOF)]\<rparr>"

definition demoWriter :: writer where
  "demoWriter = \<lparr>w_Header = (\<lambda>_. None), w_status = None, w_body = peer []\<rparr>"

lemma demoForward:
  "\<exists>f. handleForward (\<lambda>r. True) (\<lambda>e :: io_error. '''') None (\<lambda>q. Inr (demoResponse h)) demoWriter (demoRequest h') = Some f"
  by (simp add: handleForward_def demoRequest_def demoResponse_def demoWriter_def Let_def Copy_def log_Verbose_def DebugEnabled_def
      conn_write_def peer_def)

theorem forward_request_witness:
  "\<exists>f q. handleForward (\<lambda>r. True) (\<lambda>e :: io_error. '''') None (\<lambda>q. Inr (demoResponse (\<lambda>_. None))) demoWriter
       (demoRequest ((\<lambda>_. None)(''Te'' \<mapsto> [''x''], ''Accept'' \<mapsto> [''y'']))) = Some f \<and>
     fwd_sent f = Some q \<and> req_Header q ''Te'' = None \<and> req_Header q ''Accept'' = Some [''y'']"
proof -
  let ?h = "(\<lambda>_. None)(''Te'' \<mapsto> [''x''], ''Accept'' \<mapsto> [''y''])"
  obtain f where f: "handleForward (\<lambda>r. True) (\<lambda>e :: io_error. '''') None (\<lambda>q. Inr (demoResponse (\<lambda>_. None))) demoWriter (demoRequest ?h) = Some f"
    using demoForward by blast
  from forward_request [OF f] f show ?thesis
    by (auto simp: hopByHopHeaders_def demoRequest_def)
qed

text \<open>C24. What a response becomes: the client receives the upstream's status, every header except the
  hop-by-hop ones with all its values in order, and exactly the body the upstream sends.\<close>

theorem forward_response:
  assumes "req_abs r" "\<And>k. w_Header w k = None" "openConn (w_body w)"
    and "tr (r\<lparr>req_RequestURI := '''', req_Header := stripHopByHop (req_Header r)\<rparr>) = Inr resp"
    and "res_Body resp = map (\<lambda>b. (b, None)) chunks @ [([], Some EOF)]"
  shows "\<exists>f. handleForward isPrint errText l tr w r = Some f \<and> w_status (fwd_w f) = Some (res_StatusCode resp) \<and>
     (\<forall>k. k \<in> set hopByHopHeaders \<longrightarrow> w_Header (fwd_w f) k = None) \<and>
     (\<forall>k v vs. k \<notin> set hopByHopHeaders \<longrightarrow> (w_Header (fwd_w f) k = Some (v # vs)) = (res_Header resp k = Some (v # vs))) \<and>
     wr_log (w_body (fwd_w f)) = wr_log (w_body w) @ concat chunks"
proof -
  let ?lb = "''http '' @ req_Method r @ '' '' @ req_URL r"
  obtain res body lg where c: "Copy isPrint l ?lb False conn_write (res_Body resp) (w_body w) = (res, body, lg)" by (metis prod_cases3)
  with Copy_split [OF c] conn_total.ioCopy_total [OF assms(3), of chunks EOF 0] assms(5)
  have "res = Some (int (length (concat chunks)), None)" "wr_log body = wr_log (w_body w) @ concat chunks" by auto
  then show ?thesis
    using assms(1,2,4) c
    by (auto simp: handleForward_def Let_def addAll_fresh stripHopByHop_eq split: option.splits list.splits)
qed

theorem forward_response_witness:
  "\<exists>f. handleForward (\<lambda>r. True) (\<lambda>e :: io_error. '''') None (\<lambda>q. Inr \<lparr>res_StatusCode = 404, res_Status = '''', res_Header = (\<lambda>_. None), res_Body = map (\<lambda>b. (b, None)) [[7], [8]] @ [([], Some EOF)]\<rparr>) demoWriter (demoRequest (\<lambda>_. None)) = Some f \<and>
     w_status (fwd_w f) = Some 404 \<and> wr_log (w_body (fwd_w f)) = [7, 8]"
  using forward_response [of "demoRequest (\<lambda>_. None)" demoWriter "\<lambda>q. Inr \<lparr>res_StatusCode = 404, res_Status = '''', res_Header = (\<lambda>_. None), res_Body = map (\<lambda>b. (b, None)) [[7], [8]] @ [([], Some EOF)]\<rparr>"
      "\<lparr>res_StatusCode = 404, res_Status = '''', res_Header = (\<lambda>_. None), res_Body = map (\<lambda>b. (b, None)) [[7], [8]] @ [([], Some EOF)]\<rparr>" "[[7], [8]]"
      "\<lambda>r. True" "\<lambda>e :: io_error. ''''" None]
  by (auto simp: demoRequest_def demoWriter_def)

text \<open>A header that the client names in \<open>Connection\<close> is forwarded all the same: only the fixed list of
  headers is stripped, not the ones a \<open>Connection\<close> header adds to it.\<close>

theorem connection_named_header_forwarded:
  "\<exists>f q. handleForward (\<lambda>r. True) (\<lambda>e :: io_error. '''') None (\<lambda>q. Inr (demoResponse (\<lambda>_. None))) demoWriter
       (demoRequest ((\<lambda>_. None)(''Connection'' \<mapsto> [''X-Hop''], ''X-Hop'' \<mapsto> [''v'']))) = Some f \<and>
     fwd_sent f = Some q \<and> req_Header q ''Connection'' = None \<and> req_Header q ''X-Hop'' = Some [''v'']"
  by (simp add: handleForward_def demoRequest_def demoResponse_def demoWriter_def Let_def Copy_def log_Verbose_def DebugEnabled_def
      conn_write_def peer_def stripHopByHop_eq hopByHopHeaders_def)


text \<open>The URL, and so the way a request takes, is that of the client's request.\<close>

lemma RoundTrip_url:
  assumes "RoundTrip isPrint rand inner auth req = (r, sent)" "q \<in> set sent"
  shows "req_URL q = req_URL req"
  using RoundTrip_replays [OF assms(1)] assms(2) by blast

lemma handleForward_sent:
  assumes "handleForward isPrint errText l tr w r = Some f" "fwd_sent f = Some q"
  shows "q = r\<lparr>req_RequestURI := '''', req_Header := stripHopByHop (req_Header r)\<rparr>"
  using assms by (auto simp: handleForward_def Let_def split: if_splits sum.splits option.splits prod.splits)

text \<open>A request for an https URL carries the upstream's Basic credentials to the host of the URL: it is the
  first request sent, in the tunnel, and nothing removes the header.\<close>

lemma forward_https_leaks:
  assumes "handleForward isPrint errText l tr w r = Some f" "fwd_sent f = Some q0"
    and "chooseTransport cfg = AuthTransport u auth" "isHTTPS r" "\<forall>e. req_Body r \<noteq> Some (Inl e)"
  shows "\<exists>q. (TunnelRoute u, q) \<in> set (snd (transportRoundTrip env rt (chooseTransport cfg) q0)) \<and>
    req_Header q ''Proxy-Authorization'' = Some [basicAuth auth]"
proof -
  note q0 = handleForward_sent [OF assms(1,2)]
  obtain res sent where rt: "RoundTrip (e_isPrint env) (e_rand env) (\<lambda>i q. rt (viaProxy u q) i q) auth q0 = (res, sent)" by force
  have "sent \<noteq> []" using rt assms(5) q0 by (auto simp: RoundTrip_def Let_def split: option.splits sum.splits if_splits)
  have "req_Header (hd sent) ''Proxy-Authorization'' = Some [basicAuth auth]"
    using rt assms(5) q0 by (auto simp: RoundTrip_def Let_def header_Set_def split: option.splits sum.splits if_splits)
  moreover have "isHTTPS (hd sent)"
    using RoundTrip_url [OF rt, of "hd sent"] \<open>sent \<noteq> []\<close> assms(4) q0 by (simp add: isHTTPS_def)
  ultimately show ?thesis
    using rt assms(3) \<open>sent \<noteq> []\<close>
    by (intro exI [of _ "hd sent"]) (auto simp: transportRoundTrip_def viaProxy_def intro!: rev_image_eqI [of "hd sent"])
qed

text \<open>C23. Who reads the upstream's credentials. Of the requests a plain forward sends, none carries the
  \<open>Proxy-Authorization\<close> of the client. One that carries the header at all goes by way of the configured
  upstream HTTP proxy, with the configured user, and holds the Basic credentials or a Digest answer computed
  for this request. Is the URL not an https one, the proxy reads it and nobody else does. For an https URL
  it goes through the tunnel instead, so that not the proxy but the host of the URL, which the client
  chooses, reads the credentials; with a body that can be read and at least one round trip it always does.
  Requests sent directly, or through a SOCKS upstream, carry none.\<close>

theorem forward_credentials:
  assumes "handleForward isPrint errText l tr w r = Some f" "fwd_sent f = Some q0"
    and "(route, q) \<in> set (snd (transportRoundTrip env rt (chooseTransport cfg) q0))"
    and "req_Header q ''Proxy-Authorization'' = Some vs"
  shows "route = (if HasPrefix (req_URL r) ''https://'' then TunnelRoute (UpstreamAddr cfg) else ProxyRoute (UpstreamAddr cfg)) \<and>
    UpstreamAddr cfg \<noteq> '''' \<and> UpstreamKind cfg \<noteq> ModeSOCKSProxy \<and> User (ForwardAuth cfg) \<noteq> '''' \<and>
    (vs = [basicAuth (ForwardAuth cfg)] \<or>
     (\<exists>ch h. vs = [h] \<and> buildDigestAuthorization (e_isPrint env) (e_rand env) ch (req_Method r) (req_URL r)
        (User (ForwardAuth cfg)) (Pass (ForwardAuth cfg)) = Inr h)) \<and>
    (HasPrefix (req_URL r) ''https://'' \<longrightarrow>
     (\<exists>p. (TunnelRoute (UpstreamAddr cfg), p) \<in> set (snd (transportRoundTrip env rt (chooseTransport cfg) q0)) \<and>
        req_Header p ''Proxy-Authorization'' = Some [basicAuth (ForwardAuth cfg)]))"
proof -
  note q0 = handleForward_sent [OF assms(1,2)]
  then have none: "req_Header q0 ''Proxy-Authorization'' = None" by (simp add: stripHopByHop_eq hopByHopHeaders_def)
  show ?thesis
  proof (cases "chooseTransport cfg")
    case (AuthTransport u auth)
    then have u: "u = UpstreamAddr cfg" "auth = ForwardAuth cfg" "UpstreamAddr cfg \<noteq> ''''" "UpstreamKind cfg \<noteq> ModeSOCKSProxy" "User (ForwardAuth cfg) \<noteq> ''''"
      by (auto simp: chooseTransport_def Let_def split: if_splits)
    obtain res sent where rt: "RoundTrip (e_isPrint env) (e_rand env) (\<lambda>i q. rt (viaProxy u q) i q) auth q0 = (res, sent)" by force
    with assms(3) AuthTransport have q: "route = viaProxy u q" "q \<in> set sent" by (auto simp: transportRoundTrip_def)
    have body: "\<forall>e. req_Body r \<noteq> Some (Inl e)" using rt q(2) q0 by (auto simp: RoundTrip_def)
    have leak: "HasPrefix (req_URL r) ''https://'' \<Longrightarrow>
      \<exists>p. (TunnelRoute u, p) \<in> set (snd (transportRoundTrip env rt (chooseTransport cfg) q0)) \<and>
        req_Header p ''Proxy-Authorization'' = Some [basicAuth auth]"
      using forward_https_leaks [OF assms(1,2) AuthTransport _ body] by (simp add: isHTTPS_def)
    from RoundTrip_authorizes [OF rt q(2)] RoundTrip_url [OF rt q(2)] assms(4) q(1) u q0 leak show ?thesis
      by (auto simp: viaProxy_def isHTTPS_def)
  qed (use assms(3,4) none in \<open>auto simp: transportRoundTrip_def\<close>)
qed

text \<open>Two forwards through an upstream proxy with a user: one for an http URL, one for an https URL.\<close>

definition demoUpstream :: Config where
  "demoUpstream = zeroConfig\<lparr>UpstreamAddr := ''p:1'', UpstreamKind := ModeHTTPProxy, ForwardAuth := \<lparr>User = ''u'', Pass = ''p''\<rparr>\<rparr>"

definition demoSecret :: "string \<Rightarrow> http_request" where
  "demoSecret url = (demoRequest ((\<lambda>_. None)(''Proxy-Authorization'' \<mapsto> [''mine''])))\<lparr>req_URL := url\<rparr>"

definition demoSentBy :: "string \<Rightarrow> (route \<times> http_request) list" where
  "demoSentBy url = snd (transportRoundTrip (demoEnv []) (\<lambda>rt i q. Inr (demoResponse (\<lambda>_. None))) (chooseTransport demoUpstream)
     ((demoSecret url)\<lparr>req_RequestURI := '''', req_Header := stripHopByHop (req_Header (demoSecret url))\<rparr>))"

lemma demoSecret_forward:
  "\<exists>f. handleForward (\<lambda>r. True) (\<lambda>e :: io_error. '''') None (\<lambda>q. Inr (demoResponse (\<lambda>_. None))) demoWriter (demoSecret url) = Some f \<and>
     fwd_sent f = Some ((demoSecret url)\<lparr>req_RequestURI := '''', req_Header := stripHopByHop (req_Header (demoSecret url))\<rparr>)"
  by (simp add: handleForward_def demoSecret_def demoRequest_def demoResponse_def demoWriter_def Let_def Copy_def log_Verbose_def DebugEnabled_def
      conn_write_def peer_def)

lemma demoSentBy_route: "\<exists>q vs. (if HasPrefix url ''https://'' then TunnelRoute ''p:1'' else ProxyRoute ''p:1'', q) \<in> set (demoSentBy url) \<and>
    req_Header q ''Proxy-Authorization'' = Some vs"
proof -
  have "chooseTransport demoUpstream = AuthTransport ''p:1'' \<lparr>User = ''u'', Pass = ''p''\<rparr>"
    by (simp add: chooseTransport_def demoUpstream_def Let_def)
  then show ?thesis
    by (auto simp: demoSentBy_def transportRoundTrip_def RoundTrip_def demoSecret_def demoRequest_def demoResponse_def StatusProxyAuthRequired_def
        Let_def header_Set_def cloneWithBody_def viaProxy_def isHTTPS_def)
qed

theorem forward_credentials_witness:
  "(\<exists>q. (ProxyRoute ''p:1'', q) \<in> set (demoSentBy ''http://h/'') \<and> (\<exists>h. req_Header q ''Proxy-Authorization'' = Some [h])) \<and>
   (\<exists>p. (TunnelRoute ''p:1'', p) \<in> set (demoSentBy ''https://h/'') \<and> req_Header p ''Proxy-Authorization'' = Some [basicAuth \<lparr>User = ''u'', Pass = ''p''\<rparr>])"
proof
  obtain q vs where q: "(ProxyRoute ''p:1'', q) \<in> set (demoSentBy ''http://h/'')" "req_Header q ''Proxy-Authorization'' = Some vs"
    using demoSentBy_route [of "''http://h/''"] by auto
  obtain f where "handleForward (\<lambda>r. True) (\<lambda>e :: io_error. '''') None (\<lambda>q. Inr (demoResponse (\<lambda>_. None))) demoWriter (demoSecret ''http://h/'') = Some f"
      "fwd_sent f = Some ((demoSecret ''http://h/'')\<lparr>req_RequestURI := '''', req_Header := stripHopByHop (req_Header (demoSecret ''http://h/''))\<rparr>)"
    using demoSecret_forward by blast
  from forward_credentials [OF this q [unfolded demoSentBy_def]] have "\<exists>h. vs = [h]" by blast
  with q show "\<exists>q. (ProxyRoute ''p:1'', q) \<in> set (demoSentBy ''http://h/'') \<and> (\<exists>h. req_Header q ''Proxy-Authorization'' = Some [h])"
    by auto
next
  obtain q vs where q: "(TunnelRoute ''p:1'', q) \<in> set (demoSentBy ''https://h/'')" "req_Header q ''Proxy-Authorization'' = Some vs"
    using demoSentBy_route [of "''https://h/''"] by auto
  obtain f where "handleForward (\<lambda>r. True) (\<lambda>e :: io_error. '''') None (\<lambda>q. Inr (demoResponse (\<lambda>_. None))) demoWriter (demoSecret ''https://h/'') = Some f"
      "fwd_sent f = Some ((demoSecret ''https://h/'')\<lparr>req_RequestURI := '''', req_Header := stripHopByHop (req_Header (demoSecret ''https://h/''))\<rparr>)"
    using demoSecret_forward by blast
  from forward_credentials [OF this q [unfolded demoSentBy_def]]
  show "\<exists>p. (TunnelRoute ''p:1'', p) \<in> set (demoSentBy ''https://h/'') \<and> req_Header p ''Proxy-Authorization'' = Some [basicAuth \<lparr>User = ''u'', Pass = ''p''\<rparr>]"
    by (simp add: demoSentBy_def demoSecret_def demoUpstream_def)
qed

end
