(* ===== verification/Config_Props.thy ===== *)
theory Config_Props
  imports Config_Parse
begin

text \<open>
  What the parser promises to the user, token by token: which addresses and suffixes are accepted,
  which TLS combinations, and what the proxy forms of the two positional arguments mean.
\<close>

section \<open>Addresses and suffixes\<close>

text \<open>
  A normalized address is a fixed point: normalizing it again, as a target or as a listen
  address, gives it back, and it splits into a non-empty host and a port whose number is between 1
  and 65535. A target keeps the host and the port it was given.
\<close>

theorem normalizeAddr_stable:
  assumes "normalizeAddr tok isTarget = Inr addr"
  shows "normalizeAddr addr isTarget' = Inr addr \<and>
    (\<exists>h p n. SplitHostPort addr = Inr (h, p) \<and> addr = JoinHostPort h p \<and> h \<noteq> '''' \<and>
       Atoi p = Some n \<and> 1 \<le> n \<and> n \<le> 65535 \<and> (isTarget \<longrightarrow> SplitHostPort tok = Inr (h, p)))"
proof -
  obtain h p where n: "normalAddr addr h p"
    using normalizeAddr_normal [OF assms] by blast
  then have "SplitHostPort addr = Inr (h, p)" "addr = JoinHostPort h p" "h \<noteq> ''''" "validatePort p = Inr ()"
    by (auto simp: normalAddr_def)
  moreover have "isTarget \<longrightarrow> SplitHostPort tok = Inr (h, p)"
    using assms normalizeAddr_keeps_host calculation(1) by metis
  ultimately show ?thesis
    using normalizeAddr_of_normal [OF n] unfolding validatePort_Inr by blast
qed

theorem normalizeAddr_stable_witness:
  "normalizeAddr ''[::1]:8080'' True = Inr ''[::1]:8080'' \<and>
   (\<exists>h p n. SplitHostPort ''[::1]:8080'' = Inr (h, p) \<and> Atoi p = Some n \<and> 1 \<le> n \<and> n \<le> 65535)"
proof -
  have "normalizeAddr ''[::1]:8080'' True = Inr ''[::1]:8080''" by code_simp
  from this normalizeAddr_stable [OF this, of True] show ?thesis by blast
qed

text \<open>
  C34. \<open>parseEndpoint\<close> accepts a token exactly when its address normalizes and its suffixes, each written
  entirely in upper or entirely in lower case, are protocol keywords in strictly increasing order
  TCP, UDP, SSL, with only SSL allowed on a target; the flags of the result say which were there.
\<close>

theorem parseEndpoint_accepts:
  "parseEndpoint tok isTarget = Inr pe \<longleftrightarrow>
   (\<exists>addr ks. normalizeAddr (fst (splitEndpoint tok)) isTarget = Inr addr \<and>
      map suffixKeyword (snd (splitEndpoint tok)) = map Some ks \<and> sorted_wrt (<) ks \<and>
      (isTarget \<longrightarrow> set ks \<subseteq> {KwSSL}) \<and>
      pe = \<lparr>pe_ep = \<lparr>Addr = addr, TCP = False, UDP = False, SSL = KwSSL \<in> set ks\<rparr>,
            pe_tcp = KwTCP \<in> set ks, pe_udp = KwUDP \<in> set ks\<rparr>)"
  by (rule parseEndpoint_iff)

theorem parseEndpoint_accepts_witness:
  "parseEndpoint ''8888/tcp/SSL'' False =
     Inr \<lparr>pe_ep = \<lparr>Addr = ''0.0.0.0:8888'', TCP = False, UDP = False, SSL = True\<rparr>, pe_tcp = True, pe_udp = False\<rparr>"
proof -
  have a: "normalizeAddr (fst (splitEndpoint ''8888/tcp/SSL'')) False = Inr ''0.0.0.0:8888''" by code_simp
  have s: "map suffixKeyword (snd (splitEndpoint ''8888/tcp/SSL'')) = map Some [KwTCP, KwSSL]" by code_simp
  have "sorted_wrt (<) [KwTCP, KwSSL]" by (simp add: less_keyword_def)
  with a s show ?thesis
    unfolding parseEndpoint_accepts by (intro exI [of _ "''0.0.0.0:8888''"] exI [of _ "[KwTCP, KwSSL]"]) auto
qed

section \<open>TLS combinations\<close>

text \<open>
  \<open>validateSSL\<close> accepts exactly the documented combinations: not both \<open>-Z\<close> and \<open>-M\<close>; \<open>-Q\<close> only
  with TLS on the target; \<open>-Z\<close> or \<open>-M\<close> only with TLS on the listen side; \<open>-M\<close> with DTLS needs a server
  name, a server name needs a signing CA; a key needs its certificate and a certificate without a key
  must contain one; and TLS on the listen side needs a certificate or a signing CA.
\<close>

theorem validateSSL_rules:
  "(\<exists>u. validateSSL hasKey opts sslListen sslListenUDP sslTarget = Inr u) \<longleftrightarrow>
     \<not> (s_seen (o_z opts) \<and> m_seen (o_m opts)) \<and> (s_seen (o_q opts) \<longrightarrow> sslTarget) \<and>
     (s_seen (o_z opts) \<or> m_seen (o_m opts) \<longrightarrow> sslListen) \<and>
     (m_seen (o_m opts) \<and> sslListenUDP \<longrightarrow> m_serverName (o_m opts) \<noteq> '''') \<and>
     (m_serverName (o_m opts) \<noteq> '''' \<longrightarrow> m_signCAPath (o_m opts) \<noteq> '''') \<and>
     keyCertOk hasKey (s_keyPath (o_q opts)) (s_certPath (o_q opts)) \<and>
     keyCertOk hasKey (s_keyPath (o_z opts)) (s_certPath (o_z opts)) \<and>
     (sslListen \<longrightarrow> s_certPath (o_z opts) \<noteq> '''' \<or> m_signCAPath (o_m opts) \<noteq> '''')"
  by (simp only: validateSSL_ok simp_thms)

theorem validateSSL_rules_witness:
  "\<exists>u. validateSSL (\<lambda>_. Inr True)
     (initOptions\<lparr>o_z := (o_z initOptions)\<lparr>s_certPath := ''c.pem'', s_seen := True\<rparr>\<rparr>) True True False = Inr u"
  unfolding validateSSL_rules by (simp add: initOptions_def keyCertOk_def)

section \<open>Proxy arguments\<close>

lemma classifyTok_plain: "\<not> HasPrefix tok ''-'' \<Longrightarrow> classifyTok tok = TokOther"
  by (cases tok) (auto simp: classifyTok_def logLevelTokens_def)

lemma extractOptions_plain:
  "\<not> HasPrefix tok ''-'' \<Longrightarrow> extractOptions (tok # args) = Inr (initOptions, tok # args)"
  by (simp add: extractOptions_def classifyTok_plain)

lemma proxy_keywords:
  "ToUpper ''proxy'' = ''PROXY''" "ToLower ''proxy'' = ''proxy''"
  "ToUpper ''socks'' = ''SOCKS''" "ToLower ''socks'' = ''socks''"
  by code_simp+

lemma proxyMode_no_slash: "proxyMode k = Some m \<Longrightarrow> CHR ''/'' \<notin> set k"
proof -
  assume "proxyMode k = Some m"
  then consider "matchKeyword k ''proxy''" | "matchKeyword k ''socks''"
    unfolding proxyMode_def by (metis option.discI)
  then show ?thesis
    unfolding matchKeyword_def proxy_keywords by cases (elim disjE; simp)+
qed

lemma Parse_forwardI:
  "extractOptions args = Inr (opts, [t, l]) \<Longrightarrow> \<not> o_help opts \<Longrightarrow> \<not> o_version opts \<Longrightarrow>
   classifyProxyTarget t = NotProxy \<Longrightarrow> \<not> f_seen (o_f opts) \<Longrightarrow> parseForward hasKey opts t l = Inr cfg \<Longrightarrow>
   Parse hasKey args = Inr cfg"
  by (simp add: Parse_def)

lemma cut_slash:
  assumes "CHR ''/'' \<notin> set a"
  shows "IndexByte (a @ CHR ''/'' # k) CHR ''/'' = int (length a)"
    "sliceTo (a @ CHR ''/'' # k) (int (length a)) = a" "sliceFrom (a @ CHR ''/'' # k) (int (length a) + 1) = k"
  using assms by (simp_all add: IndexByte_append slice_append)

lemma proxyMode_slash: "proxyMode (a @ CHR ''/'' # k) = None"
  using proxyMode_no_slash [of "a @ CHR ''/'' # k"] by (cases "proxyMode (a @ CHR ''/'' # k)") auto

text \<open>
  The chained proxy form \<open>host:port/kind listen/kind'\<close>, for each of the four combinations of the
  keywords \<open>proxy\<close> and \<open>socks\<close>: the listen side speaks the protocol of its own suffix, the upstream is
  the normalized target address, spoken to in the protocol of the target's suffix.
\<close>

theorem proxy_chain_parsed:
  assumes "proxyMode tk = Some backend" "proxyMode lk = Some frontend"
    and "normalizeAddr ta True = Inr up" "normalizeAddr la False = Inr addr"
    and "CHR ''/'' \<notin> set ta" "CHR ''/'' \<notin> set la" "\<not> HasPrefix ta ''-''"
  shows "Parse hasKey [ta @ CHR ''/'' # tk, la @ CHR ''/'' # lk] =
    Inr (zeroConfig\<lparr>Mode := frontend, Listen := zeroEndpoint\<lparr>Addr := addr, TCP := True\<rparr>,
      UpstreamAddr := up, UpstreamKind := backend\<rparr>)"
proof -
  have "ta \<noteq> ''''" using assms(3) by (auto simp: normalizeAddr_def)
  with assms(7) have "\<not> HasPrefix (ta @ CHR ''/'' # tk) ''-''" by (cases ta) auto
  then have ex: "extractOptions [ta @ CHR ''/'' # tk, la @ CHR ''/'' # lk] =
      Inr (initOptions, [ta @ CHR ''/'' # tk, la @ CHR ''/'' # lk])"
    by (rule extractOptions_plain)
  have cl: "classifyProxyTarget (ta @ CHR ''/'' # tk) = Proxy backend up"
    using assms(1,3,5) proxyMode_no_slash [OF assms(1)]
    by (simp add: classifyProxyTarget_def proxyMode_slash cut_slash ContainsByte_def Let_def)
  have "splitProxyListenSuffix (la @ CHR ''/'' # lk) = Inr (la, Some frontend)"
    using assms(2,6) proxyMode_no_slash [OF assms(2)]
    by (simp add: splitProxyListenSuffix_def cut_slash ContainsByte_def Let_def)
  then show ?thesis
    using assms(4) by (simp add: Parse_def ex cl parseProxy_def initOptions_def zeroConfig_def)
qed

theorem proxy_chain_parsed_witness:
  "Parse (\<lambda>_. Inr False) [''192.0.2.11:7777'' @ CHR ''/'' # ''socks'', ''8888'' @ CHR ''/'' # ''PROXY''] =
    Inr (zeroConfig\<lparr>Mode := ModeHTTPProxy, Listen := zeroEndpoint\<lparr>Addr := ''0.0.0.0:8888'', TCP := True\<rparr>,
      UpstreamAddr := ''192.0.2.11:7777'', UpstreamKind := ModeSOCKSProxy\<rparr>)"
proof (rule proxy_chain_parsed)
  show "proxyMode ''socks'' = Some ModeSOCKSProxy" "proxyMode ''PROXY'' = Some ModeHTTPProxy"
    "normalizeAddr ''192.0.2.11:7777'' True = Inr ''192.0.2.11:7777''"
    "normalizeAddr ''8888'' False = Inr ''0.0.0.0:8888''"
    by code_simp+
qed simp_all

text \<open>
  \<open>-M\<close> is not limited to TCP: with a signing CA and a server name the parser accepts DTLS
  termination on a UDP listener, and the resulting configuration has the UDP half, its TLS flag and
  the signing CA set.
\<close>

theorem mitm_dtls_accepted:
  assumes "ca \<noteq> ''''" "sn \<noteq> ''''"
  shows "\<exists>cfg. Parse hasKey [''-M'', ''-signca='' @ ca, ''-servername='' @ sn, ''h:1'', ''8888/udp/ssl''] = Inr cfg
    \<and> UDP (Listen cfg) \<and> SSL (Listen cfg) \<and> mi_SignCAPath (MITM cfg) = ca \<and> mi_ServerName (MITM cfg) = sn"
proof -
  let ?opts = "initOptions\<lparr>o_m := \<lparr>m_signCAPath = ca, m_serverName = sn, m_caPath = '''', m_verify = True, m_seen = True\<rparr>\<rparr>"
  have c: "classifyTok (''-signca='' @ ca) = TokSub SubSignca ca"
    "classifyTok (''-servername='' @ sn) = TokSub SubServername sn"
    "classifyTok ''-M'' = TokBlock BlockM" "classifyTok ''h:1'' = TokOther"
    by (simp_all add: classifyTok_def logLevelTokens_def TrimPrefix_def)
  have ex: "extractOptions [''-M'', ''-signca='' @ ca, ''-servername='' @ sn, ''h:1'', ''8888/udp/ssl''] =
      Inr (?opts, [''h:1'', ''8888/udp/ssl''])"
    unfolding extractOptions_def by (simp add: c optSignca_def optServername_def initOptions_def del: append_Cons)
  let ?t = "\<lparr>pe_ep = \<lparr>Addr = ''h:1'', TCP = False, UDP = False, SSL = False\<rparr>, pe_tcp = False, pe_udp = False\<rparr>"
  let ?l = "\<lparr>pe_ep = \<lparr>Addr = ''0.0.0.0:8888'', TCP = False, UDP = False, SSL = True\<rparr>, pe_tcp = False, pe_udp = True\<rparr>"
  have cl: "classifyProxyTarget ''h:1'' = NotProxy" by code_simp
  have "parseEndpoint ''h:1'' True = Inr ?t" "parseEndpoint ''8888/udp/ssl'' False = Inr ?l"
    by code_simp+
  moreover have "validateSSL hasKey ?opts True True False = Inr ()"
    using assms by (simp add: validateSSL_ok initOptions_def keyCertOk_def)
  ultimately have pf: "parseForward hasKey ?opts ''h:1'' ''8888/udp/ssl'' = Inr (forwardConfig ?opts ?t ?l)"
    unfolding parseForward_Inr by simp
  have flags: "\<not> o_help ?opts" "\<not> o_version ?opts" "\<not> f_seen (o_f ?opts)"
    by (simp_all add: initOptions_def)
  have "Parse hasKey [''-M'', ''-signca='' @ ca, ''-servername='' @ sn, ''h:1'', ''8888/udp/ssl''] =
     Inr (forwardConfig ?opts ?t ?l)"
    using ex flags(1,2) cl flags(3) pf by (rule Parse_forwardI)
  then show ?thesis by (simp add: forwardConfig_def zeroConfig_def)
qed

theorem mitm_dtls_accepted_witness:
  "\<exists>cfg. Parse (\<lambda>_. Inr False) [''-M'', ''-signca='' @ ''ca.pem'', ''-servername='' @ ''x'', ''h:1'', ''8888/udp/ssl''] = Inr cfg
    \<and> UDP (Listen cfg) \<and> SSL (Listen cfg) \<and> mi_SignCAPath (MITM cfg) = ''ca.pem'' \<and> mi_ServerName (MITM cfg) = ''x''"
  by (rule mitm_dtls_accepted) simp_all

end
