(* ===== verification/Config_Usage.thy ===== *)
theory Config_Usage
  imports Config_Options Config_Address
begin

text \<open>
  The usage text of \<open>parse.go\<close>, and how it compares with what the parser accepts.
\<close>

definition usageLines :: "string list" where
  \<open>usageLines =
    [''gopr [option] <target> <listen>'',
     '''',
     ''<target>                  ; normally <host:port>[/TCP|UDP][/SSL]; two more'',
     ''                          ; forms select proxy/socks mode instead of'',
     ''                          ; forwarding (see below)'',
     ''  [proxy | socks]         ; run <listen> as an HTTP proxy or SOCKS5 proxy'',
     ''                          ; instead of forwarding, dialing each client's'',
     ''                          ; requested destination directly. Cannot be'',
     ''                          ; combined with -Q/-Z/-M. <listen> may carry a'',
     ''                          ; "/proxy" or "/socks" suffix of its own (see'',
     ''                          ; below); no other suffix (/TCP, /UDP, /SSL) is'',
     ''                          ; allowed.'',
     ''  [<host:port>/proxy]     ; same, but chain to an upstream HTTP proxy or'',
     ''  [<host:port>/socks]     ; SOCKS5 server at <host:port> instead of dialing'',
     ''                          ; directly. Upstream TLS (i.e. an HTTPS proxy) is'',
     ''                          ; not supported; upstream auth is via -F below.'',
     '''',
     ''<listen>                  ; normally <port>[/TCP|UDP][/SSL]; in proxy/socks'',
     ''                          ; mode (<target> above), <port> may instead carry'',
     ''                          ; a "/proxy" or "/socks" suffix of its own,'',
     ''                          ; selecting which wire protocol <listen> speaks to'',
     ''                          ; clients. Omitted, it matches <target>'s own'',
     ''                          ; protocol (as before this existed). Given and'',
     ''                          ; differing from <target>'s protocol, it converts'',
     ''                          ; between HTTP-proxy and SOCKS wire protocols:'',
     ''                          ; <listen> serves the protocol it names, while'',
     ''                          ; <target> still determines how the request is'',
     ''                          ; ultimately dialed (directly, or chained per'',
     ''                          ; <target>'s own form above).'',
     '''',
     ''[option]'',
     ''  [-Q <SSL>]              ; SSL client option: TLS/DTLS origination toward'',
     ''                          ; <target>. Requires <target>/SSL.'',
     ''  [-Z <SSL>]              ; SSL server option: static TLS/DTLS termination'',
     ''                          ; on <listen>. Requires <listen>/SSL. Mutually'',
     ''                          ; exclusive with -M.'',
     ''  [-M <MITM>]             ; SSL server MITM option: generated certificate'',
     ''                          ; for TLS/DTLS termination on <listen>, instead'',
     ''                          ; of -Z's static certificate. Requires'',
     ''                          ; <listen>/SSL. Mutually exclusive with -Z.'',
     ''  [-F <FORWARD>]          ; forward-proxy auth option: credentials gopr'',
     ''                          ; presents to an upstream proxy/SOCKS server.'',
     ''                          ; Requires <target> to be a chained upstream'',
     ''                          ; (<host:port>/proxy or <host:port>/socks), not'',
     ''                          ; the bare "proxy"/"socks" keyword. Unrelated to'',
     ''                          ; -Q/-Z/-M (plain proxy-protocol auth, not TLS).'',
     ''  [-d | -dd | -ddd]       ; debug output; each additional d prints one more,'',
     ''                          ; less severe tier of diagnostics (socat-style):'',
     ''                          ; -d = connection/session lifecycle, -dd = adds'',
     ''                          ; per-connection detail (dial/handshake results,'',
     ''                          ; byte counts), -ddd = adds per-chunk/per-packet'',
     ''                          ; trace. Default (no -d) is errors only.'',
     ''  [-v]                    ; dump the data relayed between target and listen'',
     ''                          ; to stderr. Independent of -d. May reveal'',
     ''                          ; sensitive content -- use with care.'',
     ''  [-help]                 ; show help'',
     ''  [-version]              ; show version'',
     '''',
     ''<SSL>                     ; sub-options of -Q / -Z, in either order'',
     ''  [-key=<path>]           ; this side's own key file'',
     ''  [-cert=<path>]          ; this side's own cert file (optional under -Q;'',
     ''                          ; required under -Z unless -M is used instead)'',
     ''  [-ca=<path>]            ; CA verifying the peer's certificate (under -Q:'',
     ''                          ; the target's cert; under -Z: requests and'',
     ''                          ; verifies a client cert, i.e. mTLS)'',
     ''  [-verify=<value>]       ; verify=0: under -Q, don't verify the target's'',
     ''                          ; certificate; under -Z, still require a client'',
     ''                          ; certificate (when -ca= is set) but don't verify'',
     ''                          ; it against -ca='',
     '''',
     ''<MITM>                    ; sub-options of -M, in any order'',
     ''  [-signca=<path>]        ; CA (cert + private key) used to mint a leaf'',
     ''                          ; certificate per connection for TLS termination'',
     ''  [-servername=<value>]   ; hostname for the generated certificate;'',
     ''                          ; overrides the client's SNI. Required (not'',
     ''                          ; optional) when <listen>/UDP/SSL is active, since'',
     ''                          ; DTLS clients don't reliably send SNI'',
     ''  [-ca=<path>]            ; same as -Z's -ca= (mTLS)'',
     ''  [-verify=<value>]       ; same as -Z's -verify='',
     '''',
     ''<FORWARD>                 ; sub-option of -F'',
     ''  [-user=<user:pass>]     ; username/password presented to the upstream'',
     ''                          ; proxy/SOCKS server (HTTP Basic auth, or SOCKS5'',
     ''                          ; username/password subnegotiation). Required'',
     ''                          ; when -F is given; user must be non-empty.'']\<close>

text \<open>The constant itself: the lines, separated by line feeds.\<close>

definition Usage :: string where
  "Usage = joinByte CHR 0x0A usageLines"

lemma usage_lines_plain: "usageLines \<noteq> [] \<and> list_all (\<lambda>l. CHR 0x0A \<notin> set l) usageLines"
  by code_simp

lemma Usage_lines: "splitByte CHR 0x0A Usage = usageLines"
  unfolding Usage_def using usage_lines_plain by (intro splitByte_joinByte) (auto simp: list_all_iff)

text \<open>Every option the parser knows is named in the text: a token that \<open>extractOptions\<close> would consume begins
  with an option that some line shows.\<close>

definition optionNames :: "string list" where
  "optionNames = [''-help'', ''-version'', ''-v'', ''-d'', ''-dd'', ''-ddd'', ''-Q'', ''-Z'', ''-M'', ''-F'', ''-key='', ''-cert='', ''-ca='', ''-verify='',
     ''-signca='', ''-servername='', ''-user='']"

text \<open>Where they stand.\<close>

definition optionLine :: "string \<Rightarrow> nat" where
  "optionLine n = the (map_of (zip optionNames [55, 56, 52, 46, 46, 46, 31, 33, 36, 40, 59, 60, 62, 65, 71, 73, 81]) n)"

lemma optionNames_shown: "list_all (\<lambda>n. optionLine n < length usageLines \<and> ContainsStr (usageLines ! optionLine n) n) optionNames"
  by code_simp

lemma classifyTok_named: "classifyTok tok \<noteq> TokOther \<Longrightarrow> \<exists>n \<in> set optionNames. HasPrefix tok n"
  by (auto simp: classifyTok_def logLevelTokens_def optionNames_def split: if_splits)

theorem usage_names_every_option:
  assumes "classifyTok tok \<noteq> TokOther"
  shows "\<exists>n l. HasPrefix tok n \<and> n \<noteq> '''' \<and> l \<in> set (splitByte CHR 0x0A Usage) \<and> ContainsStr l n"
proof -
  obtain n where n: "n \<in> set optionNames" "HasPrefix tok n" using classifyTok_named [OF assms] by blast
  then have "n \<noteq> ''''" by (auto simp: optionNames_def)
  moreover obtain l where "l \<in> set usageLines" "ContainsStr l n"
    using optionNames_shown n(1) by (metis list_all_iff nth_mem)
  ultimately show ?thesis using n(2) by (auto simp: Usage_lines)
qed

text \<open>The text shows \<open>[/TCP|UDP]\<close> on the target; the parser takes neither there.\<close>

lemma usage_target_divergence:
  "list_ex (\<lambda>l. ContainsStr l ''<host:port>[/TCP|UDP][/SSL]'') usageLines"
  "parseEndpoint ''h:80/TCP'' True = Inl (SuffixErr (SuffixOnTarget ''TCP'' ''h:80/TCP''))"
  "parseEndpoint ''h:80/udp'' True = Inl (SuffixErr (SuffixOnTarget ''udp'' ''h:80/udp''))"
  by code_simp+

end
