(* ===== verification/Relay_UDP_Delivery.thy ===== *)
theory Relay_UDP_Delivery
  imports Relay_UDP "HOL-Library.Sublist"
begin

text \<open>
  What the UDP relay delivers: to the target, the clients' datagrams in the order they came, none twice
  and none made up; to a client, exactly what was read from its session, in order, up to the one datagram
  in hand; and no datagram larger than the buffer. The histories in the state are split into the part
  delivered and the part pending, as the program counters say.
\<close>

section \<open>Histories\<close>

definition readFrom :: "nat \<Rightarrow> udpState \<Rightarrow> byte list list" where
  "readFrom i s = map snd (filter (\<lambda>x. fst x = i) (u_fromTarget s))"

definition deliveredFrom :: "nat \<Rightarrow> udpState \<Rightarrow> byte list list" where
  "deliveredFrom i s = map (\<lambda>x. snd (snd x)) (filter (\<lambda>x. fst x = i) (u_toClient s))"

fun inHand :: "rpc \<Rightarrow> byte list list" where
  "inHand (RTouch q) = [q]"
| "inHand (RWrite q) = [q]"
| "inHand _ = []"

text \<open>A session against its histories. Once its goroutine has returned, the last datagram it read may be one
  that could not be written.\<close>

fun sessionDelivers :: "udpSession option \<Rightarrow> byte list list \<Rightarrow> byte list list \<Rightarrow> bool" where
  "sessionDelivers None rd dl = (rd = [] \<and> dl = [])"
| "sessionDelivers (Some u) rd dl =
     ((if u_pc u = RDone then rd = dl \<or> (\<exists>q. rd = dl @ [q]) else rd = dl @ inHand (u_pc u)) \<and>
      u_recv u = of_nat (length (concat rd)))"

definition replyInv :: "udpState \<Rightarrow> bool" where
  "replyInv s \<longleftrightarrow> (\<forall>i. sessionDelivers (u_heap s i) (readFrom i s) (deliveredFrom i s))"

definition sendInv :: "udpState \<Rightarrow> bool" where
  "sendInv s \<longleftrightarrow>
     (case u_main s of
        MSend i k q \<Rightarrow> (\<exists>pre. u_fromClient s = pre @ [(k, q)] \<and> subseq (map snd (u_toTarget s)) pre)
      | _ \<Rightarrow> subseq (map snd (u_toTarget s)) (u_fromClient s))"

definition sizeInv :: "udpState \<Rightarrow> bool" where
  "sizeInv s \<longleftrightarrow> (\<forall>x \<in> set (u_fromClient s). length (snd x) \<le> udpBufferSize) \<and> (\<forall>x \<in> set (u_fromTarget s). length (snd x) \<le> udpBufferSize)"

lemma udpInit_delivery: "replyInv (udpInit now) \<and> sendInv (udpInit now) \<and> sizeInv (udpInit now)"
  by (simp add: replyInv_def sendInv_def sizeInv_def udpInit_def readFrom_def deliveredFrom_def)

section \<open>The operations and the histories\<close>

lemma recvPacket_from:
  "u_fromClient (recvPacket isPrint l target key p s) = u_fromClient s @ [(key, take udpBufferSize p)]"
  "u_fromTarget (recvPacket isPrint l target key p s) = u_fromTarget s"
  "u_main (recvPacket isPrint l target key p s) =
     MSend (case u_sessions s key of Some i \<Rightarrow> i | None \<Rightarrow> u_next s) key (take udpBufferSize p)"
  by (simp_all add: recvPacket_def updSess_def Let_def split: option.split)

lemma ops_from [simp]:
  "u_fromClient (replyDelete i k s) = u_fromClient s" "u_fromTarget (replyDelete i k s) = u_fromTarget s"
  "u_fromClient (replyClose l i k s) = u_fromClient s" "u_fromTarget (replyClose l i k s) = u_fromTarget s"
  "u_fromClient (setPc i pc s) = u_fromClient s" "u_fromTarget (setPc i pc s) = u_fromTarget s"
  "u_fromClient (replyTouch i q s) = u_fromClient s" "u_fromTarget (replyTouch i q s) = u_fromTarget s"
  "u_fromClient (replyWrite i k q s) = u_fromClient s" "u_fromTarget (replyWrite i k q s) = u_fromTarget s"
  "u_fromClient (sendOk i k q s) = u_fromClient s" "u_fromTarget (sendOk i k q s) = u_fromTarget s"
  "u_fromClient (sendErr l k s) = u_fromClient s" "u_fromTarget (sendErr l k s) = u_fromTarget s"
  "u_fromClient (sendCount i n s) = u_fromClient s" "u_fromTarget (sendCount i n s) = u_fromTarget s"
  "u_fromClient (udpCloser s) = u_fromClient s" "u_fromTarget (udpCloser s) = u_fromTarget s"
  "u_fromClient (reaperStop s) = u_fromClient s" "u_fromTarget (reaperStop s) = u_fromTarget s"
  "u_fromClient (recvErr e s) = u_fromClient s" "u_fromTarget (recvErr e s) = u_fromTarget s"
  "u_fromClient (recvDialFail l g k p s) = u_fromClient s @ [(k, take udpBufferSize p)]" "u_fromTarget (recvDialFail l g k p s) = u_fromTarget s"
  "u_fromClient (reapUDPSessions l ord s) = u_fromClient s" "u_fromTarget (reapUDPSessions l ord s) = u_fromTarget s"
  by (simp_all add: udp_ops reapUDPSessions_def split: prod.splits)

lemma replyRead_from:
  "u_fromClient (replyRead isPrint l i k p s) = u_fromClient s"
  "u_fromTarget (replyRead isPrint l i k p s) = u_fromTarget s @ [(i, take udpBufferSize p)]"
  "u_toClient (replyRead isPrint l i k p s) = u_toClient s" "u_toTarget (replyRead isPrint l i k p s) = u_toTarget s"
  "u_main (replyRead isPrint l i k p s) = u_main s"
  "u_heap (replyRead isPrint l i k p s) = (u_heap s)(i := map_option
     (\<lambda>u. u\<lparr>u_pc := RTouch (take udpBufferSize p), u_recv := u_recv u + of_nat (length (take udpBufferSize p))\<rparr>) (u_heap s i))"
  by (simp_all add: replyRead_def Let_def)

lemma ops_main [simp]:
  "u_main (setPc i pc s) = u_main s" "u_toTarget (setPc i pc s) = u_toTarget s" "u_toClient (setPc i pc s) = u_toClient s"
  "u_main (replyTouch i q s) = u_main s" "u_toTarget (replyTouch i q s) = u_toTarget s" "u_toClient (replyTouch i q s) = u_toClient s"
  "u_main (replyWrite i k q s) = u_main s" "u_toTarget (replyWrite i k q s) = u_toTarget s"
  "u_main (reapUDPSessions l ord s) = u_main s" "u_toTarget (reapUDPSessions l ord s) = u_toTarget s" "u_toClient (reapUDPSessions l ord s) = u_toClient s"
  by (simp_all add: setPc_def replyTouch_def replyWrite_def reapUDPSessions_def)

section \<open>Every step keeps the histories in order\<close>

lemma subseq_snoc: "subseq xs ys \<Longrightarrow> subseq xs (ys @ zs)"
  by (metis append_Nil2 list_emb_append_mono list_emb_Nil)

lemma udpStep_send:
  assumes "udpStep isPrint l target s t" "sendInv s"
  shows "sendInv t"
  using assms
proof cases
  case (recv_packet key p)
  with assms(2) show ?thesis by (auto simp: sendInv_def recvPacket_from)
next
  case (recv_dial_fail key p)
  with assms(2) show ?thesis by (auto simp: sendInv_def recvDialFail_def intro: subseq_snoc)
next
  case (send_ok i key q u)
  with assms(2) show ?thesis by (auto simp: sendInv_def sendOk_def intro: list_emb_append_mono)
next
  case (send_err i key q)
  with assms(2) show ?thesis by (auto simp: sendInv_def sendErr_def intro: subseq_snoc)
qed (use assms(2) in \<open>auto simp: sendInv_def recvErr_def sendCount_def udpCloser_def reaperStop_def replyRead_from replyDelete_sel replyClose_sel split: mpc.splits\<close>)

lemma udpStep_size: "udpStep isPrint l target s t \<Longrightarrow> sizeInv s \<Longrightarrow> sizeInv t"
  by (erule udpStepE) (auto simp: sizeInv_def recvPacket_from replyRead_from)

lemma readFrom_cong: "u_fromTarget t = u_fromTarget s \<Longrightarrow> readFrom i t = readFrom i s"
  by (simp add: readFrom_def)

lemma deliveredFrom_cong: "u_toClient t = u_toClient s \<Longrightarrow> deliveredFrom i t = deliveredFrom i s"
  by (simp add: deliveredFrom_def)

text \<open>A step that moves no reply keeps the histories; it is enough to look at the sessions it changes.\<close>

lemma replyInv_quiet:
  assumes "replyInv s" "u_fromTarget t = u_fromTarget s" "u_toClient t = u_toClient s"
    and "\<And>i rd dl. sessionDelivers (u_heap s i) rd dl \<Longrightarrow> sessionDelivers (u_heap t i) rd dl"
  shows "replyInv t"
  unfolding replyInv_def
proof
  fix i
  from assms(1) have "sessionDelivers (u_heap s i) (readFrom i s) (deliveredFrom i s)" by (simp add: replyInv_def)
  from assms(4) [OF this] show "sessionDelivers (u_heap t i) (readFrom i t) (deliveredFrom i t)"
    by (simp add: readFrom_cong [OF assms(2)] deliveredFrom_cong [OF assms(3)])
qed

lemma udpStep_reply:
  assumes s: "udpStep isPrint l target s t" and tab: "tableInv s" and r: "replyInv s"
  shows "replyInv t"
  using s
proof cases
  case (recv_packet key p)
  show ?thesis
  proof (rule replyInv_quiet [OF r])
    fix i rd dl
    assume "sessionDelivers (u_heap s i) rd dl"
    then show "sessionDelivers (u_heap t i) rd dl"
      using recv_packet tableInv_fresh [OF tab, of key]
      by (cases "u_sessions s key"; cases "u_heap s i") (auto simp: recvPacket_old recvPacket_new)
  qed (simp_all add: recv_packet recvPacket_from)
next
  case (send_count i n)
  have "sessionDelivers (u_heap s j) rd dl \<Longrightarrow> sessionDelivers (u_heap t j) rd dl" for j rd dl
    by (cases "u_heap s j") (auto simp: send_count sendCount_def)
  then show ?thesis by (intro replyInv_quiet [OF r]) (simp_all add: send_count sendCount_def)
next
  case (reply_read i u p)
  then show ?thesis
    using r unfolding replyInv_def by (auto simp: replyRead_from readFrom_def deliveredFrom_def split: if_splits dest!: spec [of _ i])
next
  case (reply_write i u q)
  then show ?thesis
    using r unfolding replyInv_def by (auto simp: replyWrite_def setPc_def readFrom_def deliveredFrom_def dest!: spec [of _ i])
next
  case (reply_delete i u)
  then show ?thesis
    by (intro replyInv_quiet [OF r]) (auto simp: replyDelete_sel)
next
  case (reply_close i u)
  then show ?thesis
    by (intro replyInv_quiet [OF r]) (auto simp: replyClose_sel)
next
  case (reap order)
  have "sessionDelivers (u_heap s i) rd dl \<Longrightarrow> sessionDelivers (u_heap t i) rd dl" for i rd dl
    by (cases "u_heap s i") (auto simp: reap reapUDPSessions_def)
  then show ?thesis by (intro replyInv_quiet [OF r]) (simp_all add: reap)
qed (use r in \<open>auto intro!: replyInv_quiet [OF r] simp: recvDialFail_def recvErr_def sendOk_def sendCount_def udpCloser_def reaperStop_def sendErr_def setPc_def replyTouch_def\<close>)

section \<open>Delivery\<close>

lemma udpReach_delivery:
  assumes "udpReach isPrint l target s t" "udpInv s" "replyInv s" "sendInv s" "sizeInv s"
  shows "replyInv t \<and> sendInv t \<and> sizeInv t"
  using assms
proof (induction rule: udpReach.induct)
  case (step s t u)
  then have "tableInv t" using udpReach_inv by (simp add: udpInv_def)
  with step show ?case using udpStep_reply udpStep_send udpStep_size by blast
qed simp

lemma sendInv_subseq: "sendInv s \<Longrightarrow> subseq (map snd (u_toTarget s)) (u_fromClient s)"
  by (auto simp: sendInv_def intro: subseq_snoc split: mpc.splits)

lemma sessionDelivers_prefix:
  "sessionDelivers (Some u) rd dl \<Longrightarrow> \<exists>rest. rd = dl @ rest \<and> length rest \<le> 1"
  by (cases "u_pc u") auto

text \<open>C11. What the UDP relay delivers, in every state it can reach. Towards the target: the datagrams written
  are the clients' datagrams, each with its own client, in the order received, none twice and none made
  up (the gaps are datagrams whose dial or write failed), each through a session of that client. Back: a session's client
  has received exactly what was read from the session, in order, but for at most the last datagram; the
  session's 64-bit \<open>recv\<close> counter is the number of bytes read; and the client that receives them owns the
  session.\<close>

theorem udp_delivery:
  assumes "udpReach isPrint l target (udpInit now) s"
  shows "subseq (map snd (u_toTarget s)) (u_fromClient s) \<and>
    (\<forall>i u. u_heap s i = Some u \<longrightarrow>
       (\<exists>rest. readFrom i s = deliveredFrom i s @ rest \<and> length rest \<le> 1) \<and> u_recv u = of_nat (length (concat (readFrom i s))) \<and>
       (length (concat (readFrom i s)) < 2 ^ 63 \<longrightarrow> sint (u_recv u) = int (length (concat (readFrom i s)))) \<and>
       (\<forall>k q. (i, k, q) \<in> set (u_toTarget s) \<or> (i, k, q) \<in> set (u_toClient s) \<longrightarrow> k = u_key u))"
proof -
  have inv: "udpInv s" using udpReach_inv [OF assms udpInit_inv] .
  have "replyInv s \<and> sendInv s \<and> sizeInv s"
    using udpReach_delivery [OF assms udpInit_inv] udpInit_delivery by blast
  then have d: "sessionDelivers (u_heap s i) (readFrom i s) (deliveredFrom i s)" "sendInv s" for i
    by (simp_all add: replyInv_def)
  have "k = u_key u" if "u_heap s i = Some u" "(i, k, q) \<in> set (u_toTarget s) \<or> (i, k, q) \<in> set (u_toClient s)" for i u k q
    using inv that by (fastforce simp: udpInv_def flowInv_def owns_def)
  moreover have "(\<exists>rest. readFrom i s = deliveredFrom i s @ rest \<and> length rest \<le> 1) \<and> u_recv u = of_nat (length (concat (readFrom i s)))"
    if "u_heap s i = Some u" for i u
    using d(1) [of i] that sessionDelivers_prefix [of u] by auto
  moreover have "sint (of_nat n :: 64 word) = int n" if "n < 2 ^ 63" for n :: nat
    using that by (simp add: signed_of_nat signed_take_bit_int_eq_self)
  ultimately show ?thesis using sendInv_subseq [OF d(2)] by metis
qed

theorem udp_delivery_witness:
  "subseq [(''c:9'', [1, 2])] (u_fromClient (sendOk 0 ''c:9'' [1, 2] demoUdp)) \<and>
   (\<exists>u. u_heap (sendOk 0 ''c:9'' [1, 2] demoUdp) 0 = Some u \<and> u_recv u = of_nat (length (concat (readFrom 0 (sendOk 0 ''c:9'' [1, 2] demoUdp)))))"
proof -
  let ?s = "sendOk 0 ''c:9'' [1, 2] demoUdp"
  have "map snd (u_toTarget ?s) = [(''c:9'', [1, 2])]"
    by (simp add: sendOk_def demoUdp_def udpInit_def)
  moreover have "\<exists>u. u_heap ?s 0 = Some u" by (simp add: sendOk_def demoUdp_sel)
  ultimately show ?thesis using udp_delivery [OF demoUdp_sent_reach] by metis
qed

text \<open>No datagram the relay writes is larger than the buffer it was read into.\<close>

lemma udp_datagram_bound:
  assumes "udpReach isPrint l target (udpInit now) s"
  shows "(\<forall>(i, k, q) \<in> set (u_toTarget s). length q \<le> 65536) \<and> (\<forall>i. \<forall>q \<in> set (deliveredFrom i s). length q \<le> 65536)"
proof -
  have d: "replyInv s" "sendInv s" "sizeInv s"
    using udpReach_delivery [OF assms udpInit_inv] udpInit_delivery by blast+
  have "set (map snd (u_toTarget s)) \<subseteq> set (u_fromClient s)"
    using list_emb_set [OF sendInv_subseq [OF d(2)]] by blast
  moreover have "set (deliveredFrom i s) \<subseteq> set (readFrom i s)" for i
  proof (cases "u_heap s i")
    case None
    with d(1) show ?thesis by (auto simp: replyInv_def dest: spec [of _ i])
  next
    case (Some u)
    with d(1) have "sessionDelivers (Some u) (readFrom i s) (deliveredFrom i s)" by (metis replyInv_def)
    from sessionDelivers_prefix [OF this] show ?thesis by auto
  qed
  moreover have "q \<in> set (readFrom i s) \<Longrightarrow> length q \<le> 65536" for i q
    using d(3) by (auto simp: sizeInv_def readFrom_def udpBufferSize_def)
  moreover have "x \<in> set (u_fromClient s) \<Longrightarrow> length (snd x) \<le> 65536" for x
    using d(3) by (simp add: sizeInv_def udpBufferSize_def)
  ultimately show ?thesis by fastforce
qed

end
