(* ===== verification/Gopr_Main.thy ===== *)
theory Gopr_Main
  imports Relay_Run Socks_Server Http_Server Config_Props Config_Usage Relay_UDP_Delivery "HOL-Library.Multiset"
begin

text \<open>
  The command (\<open>main.go\<close>): \<open>run\<close> parses the arguments, answers \<open>-help\<close> and \<open>-version\<close>, and otherwise runs
  every configuration in its own goroutine with \<open>runOne\<close>, waits for all of them and joins their errors.
  The version, which the build sets, is an argument, as is what the listeners meet outside.
\<close>

record prog_env =
  p_relay :: relay_env
  p_httpServe :: "Config \<Rightarrow> http_serving"
  p_socksListen :: "Config \<Rightarrow> (io_error, accept list) result"
  p_errText :: "io_error \<Rightarrow> string"
  p_version :: string

datatype one_error = HttpFailed io_error | SocksFailed io_error | RelayFailed run_error

text \<open>What \<open>runOne\<close> may return for a configuration.\<close>

inductive runOne :: "prog_env \<Rightarrow> Config \<Rightarrow> one_error option \<Rightarrow> bool" for P where
  http: "Mode cfg = ModeHTTPProxy \<Longrightarrow> RunHTTP (r_net (p_relay P)) (p_httpServe P cfg) cfg = (lg, hs, r) \<Longrightarrow> runOne P cfg (map_option HttpFailed r)"
| socks: "Mode cfg = ModeSOCKSProxy \<Longrightarrow> RunSOCKS (r_net (p_relay P)) cfg (p_socksListen P cfg) = (lg, hs, Some r) \<Longrightarrow>
    runOne P cfg (map_option SocksFailed r)"
| relay: "Mode cfg \<noteq> ModeHTTPProxy \<Longrightarrow> Mode cfg \<noteq> ModeSOCKSProxy \<Longrightarrow> Run (p_relay P) cfg r \<Longrightarrow>
    runOne P cfg (map_option RelayFailed r)"

inductive_cases runOneE: "runOne P cfg r"

text \<open>The key lookup that the parser calls, on the files of the environment. The loop behind it returns
  (\<open>HasEmbeddedKey_total\<close>), so \<open>the\<close> is only formal.\<close>

definition embeddedKey :: "prog_env \<Rightarrow> string \<Rightarrow> (string, bool) result" where
  "embeddedKey P path = map_sum (p_errText P) id (the (HasEmbeddedKey (r_crypto (p_relay P)) path))"

text \<open>What \<open>run\<close> returns: nil after printing a text, the parser's error, or the joined errors of the configurations.\<close>

datatype run_outcome = RunNil string | ParseFailed parse_error | Joined "one_error list"

text \<open>The goroutines of the configurations: one whose server still runs may return; one whose server returned an
  error sends it on the channel, when the channel has room. The channel is made with room for as many
  errors as there are configurations.\<close>

record mainState =
  ms_running :: "Config list"
  ms_sending :: "one_error list"
  ms_errCh :: "one_error list"
  ms_cap :: nat

inductive mainStep :: "prog_env \<Rightarrow> mainState \<Rightarrow> mainState \<Rightarrow> bool" for P where
  returns_nil: "ms_running s = xs @ cfg # ys \<Longrightarrow> runOne P cfg None \<Longrightarrow> mainStep P s (s\<lparr>ms_running := xs @ ys\<rparr>)"
| returns_err: "ms_running s = xs @ cfg # ys \<Longrightarrow> runOne P cfg (Some e) \<Longrightarrow>
    mainStep P s (s\<lparr>ms_running := xs @ ys, ms_sending := ms_sending s @ [e]\<rparr>)"
| sends: "ms_sending s = xs @ e # ys \<Longrightarrow> length (ms_errCh s) < ms_cap s \<Longrightarrow>
    mainStep P s (s\<lparr>ms_sending := xs @ ys, ms_errCh := ms_errCh s @ [e]\<rparr>)"

inductive mainReach :: "prog_env \<Rightarrow> mainState \<Rightarrow> mainState \<Rightarrow> bool" for P where
  refl: "mainReach P s s"
| step: "mainReach P s t \<Longrightarrow> mainStep P t u \<Longrightarrow> mainReach P s u"

definition mainInit :: "Config list \<Rightarrow> mainState" where
  "mainInit cfgs = \<lparr>ms_running = cfgs, ms_sending = [], ms_errCh = [], ms_cap = length cfgs\<rparr>"

text \<open>What \<open>wg.Wait\<close> waits for.\<close>

definition allEnded :: "mainState \<Rightarrow> bool" where
  "allEnded s \<longleftrightarrow> ms_running s = [] \<and> ms_sending s = []"

definition errorsJoin :: "one_error list \<Rightarrow> run_outcome" where
  "errorsJoin errs = (if errs = [] then RunNil '''' else Joined errs)"

definition asksText :: "Config list \<Rightarrow> bool" where
  "asksText cfgs \<longleftrightarrow> (case cfgs of [cfg] \<Rightarrow> Mode cfg = ModeHelp \<or> Mode cfg = ModeVersion | _ \<Rightarrow> False)"

inductive run :: "prog_env \<Rightarrow> string list \<Rightarrow> run_outcome \<Rightarrow> bool" for P where
  parse_error: "ParseAll (embeddedKey P) args = Inl e \<Longrightarrow> run P args (ParseFailed e)"
| help_text: "ParseAll (embeddedKey P) args = Inr [cfg] \<Longrightarrow> Mode cfg = ModeHelp \<Longrightarrow> run P args (RunNil (Usage @ [CHR 0x0A]))"
| version_text: "ParseAll (embeddedKey P) args = Inr [cfg] \<Longrightarrow> Mode cfg = ModeVersion \<Longrightarrow> run P args (RunNil (''gopr version '' @ p_version P @ [CHR 0x0A]))"
| started: "ParseAll (embeddedKey P) args = Inr cfgs \<Longrightarrow> \<not> asksText cfgs \<Longrightarrow>
    mainReach P (mainInit cfgs) s \<Longrightarrow> allEnded s \<Longrightarrow> run P args (errorsJoin (ms_errCh s))"

inductive_cases runE: "run P args out"

text \<open>\<open>main\<close>: the exit status.\<close>

definition exitCode :: "run_outcome \<Rightarrow> nat" where
  "exitCode out = (case out of RunNil s \<Rightarrow> 0 | _ \<Rightarrow> 1)"

section \<open>The goroutines\<close>

text \<open>In every state, the configurations whose servers have returned, with what they returned, account for
  the errors in the channel and those still to be sent.\<close>

definition mainInv :: "prog_env \<Rightarrow> Config list \<Rightarrow> mainState \<Rightarrow> bool" where
  "mainInv P cfgs s \<longleftrightarrow> ms_cap s = length cfgs \<and> (\<exists>ended. mset cfgs = mset (ms_running s) + mset (map fst ended) \<and>
     (\<forall>(c, r) \<in> set ended. runOne P c r) \<and> mset (ms_errCh s @ ms_sending s) = mset (List.map_filter snd ended))"

lemma mainInv_ended:
  assumes "mset cfgs = mset (xs @ c # ys) + mset (map fst ended)" "\<forall>(c, r) \<in> set ended. runOne P c r" "runOne P c r"
    and "mset (ms_errCh s @ ms_sending s) = mset (List.map_filter snd (ended @ [(c, r)]))" "ms_running s = xs @ ys" "ms_cap s = length cfgs"
  shows "mainInv P cfgs s"
  unfolding mainInv_def using assms by (intro conjI exI [of _ "ended @ [(c, r)]"]) auto

lemma mainStep_inv: "mainStep P s t \<Longrightarrow> mainInv P cfgs s \<Longrightarrow> mainInv P cfgs t"
proof (induction rule: mainStep.induct)
  case (returns_nil s xs c ys)
  then obtain ended where "mset cfgs = mset (xs @ c # ys) + mset (map fst ended)" "\<forall>(c, r) \<in> set ended. runOne P c r"
      "mset (ms_errCh s @ ms_sending s) = mset (List.map_filter snd ended)" "ms_cap s = length cfgs" unfolding mainInv_def by auto
  then show ?case by (intro mainInv_ended [OF _ _ returns_nil(2)]) (simp_all add: List.map_filter_def)
next
  case (returns_err s xs c ys e)
  then obtain ended where "mset cfgs = mset (xs @ c # ys) + mset (map fst ended)" "\<forall>(c, r) \<in> set ended. runOne P c r"
      "mset (ms_errCh s @ ms_sending s) = mset (List.map_filter snd ended)" "ms_cap s = length cfgs" unfolding mainInv_def by auto
  then show ?case by (intro mainInv_ended [OF _ _ returns_err(2)]) (simp_all add: List.map_filter_def)
qed (simp add: mainInv_def)

lemma mainReach_inv: "mainReach P s t \<Longrightarrow> mainInv P cfgs s \<Longrightarrow> mainInv P cfgs t"
  by (induction rule: mainReach.induct) (auto intro: mainStep_inv)

lemma mainInit_inv: "mainInv P cfgs (mainInit cfgs)"
  by (auto simp: mainInv_def mainInit_def List.map_filter_def intro: exI [of _ "[]"])

text \<open>The channel has room for every goroutine that has not sent yet.\<close>

lemma mainInv_room:
  assumes "mainInv P cfgs s"
  shows "length (ms_errCh s) + length (ms_sending s) + length (ms_running s) \<le> ms_cap s"
proof -
  obtain ended where e: "mset cfgs = mset (ms_running s) + mset (map fst ended)"
      "mset (ms_errCh s @ ms_sending s) = mset (List.map_filter snd ended)" "ms_cap s = length cfgs"
    using assms unfolding mainInv_def by blast
  have "length (List.map_filter snd ended) \<le> length ended" by (simp add: List.map_filter_def)
  moreover have "length cfgs = length (ms_running s) + length ended"
    using arg_cong [OF e(1), of size] by (simp del: mset_map)
  moreover have "length (ms_errCh s) + length (ms_sending s) = length (List.map_filter snd ended)"
    using mset_eq_length [OF e(2)] by simp
  ultimately show ?thesis using e(3) by simp
qed

lemma mainStep_sends:
  assumes "mainInv P cfgs s" "ms_sending s = xs @ e # ys"
  shows "mainStep P s (s\<lparr>ms_sending := xs @ ys, ms_errCh := ms_errCh s @ [e]\<rparr>)"
  using mainInv_room [OF assms(1)] assms(2) by (intro sends) auto

text \<open>From every state the goroutines can come to their end, if their servers return.\<close>

lemma mainReach_trans: "mainReach P t u \<Longrightarrow> mainReach P s t \<Longrightarrow> mainReach P s u"
  by (induction rule: mainReach.induct) (auto intro: mainReach.step)

lemma mainReach_end:
  assumes "mainInv P cfgs s" "\<And>c. c \<in> set (ms_running s) \<Longrightarrow> \<exists>r. runOne P c r"
  shows "\<exists>t. mainReach P s t \<and> allEnded t"
  using assms
proof (induction "2 * length (ms_running s) + length (ms_sending s)" arbitrary: s rule: less_induct)
  case less
  have further: "\<exists>u. mainReach P s u \<and> allEnded u"
    if "mainStep P s t" "set (ms_running t) \<subseteq> set (ms_running s)"
      "2 * length (ms_running t) + length (ms_sending t) < 2 * length (ms_running s) + length (ms_sending s)" for t
    using less(1) [OF that(3) mainStep_inv [OF that(1) less(2)]] less(3) that(2)
      mainReach_trans [OF _ mainReach.step [OF mainReach.refl that(1)]] by blast
  consider (ended) "allEnded s" | (run) c cs where "ms_running s = c # cs" | (send) e es where "ms_sending s = e # es"
    by (cases "ms_running s"; cases "ms_sending s"; simp add: allEnded_def)
  then show ?case
  proof cases
    case run
    with less(3) obtain r where r: "runOne P c r" by auto
    show ?thesis
    proof (cases r)
      case None
      with returns_nil [of s "[]" c cs P] run r show ?thesis by (intro further) auto
    next
      case (Some e)
      with returns_err [of s "[]" c cs P e] run r show ?thesis by (intro further) auto
    qed
  next
    case send
    with mainStep_sends [OF less(2), of "[]" e es] show ?thesis by (intro further) auto
  qed (blast intro: mainReach.refl)
qed

text \<open>When all have ended, there is one result per configuration, in the order of the configurations.\<close>

lemma mainInv_results:
  assumes "mainInv P cfgs s" "allEnded s"
  shows "\<exists>rs. list_all2 (runOne P) cfgs rs \<and> mset (ms_errCh s) = mset (List.map_filter id rs)"
proof -
  obtain ended where e: "mset cfgs = mset (map fst ended)" "\<forall>(c, r) \<in> set ended. runOne P c r" "mset (ms_errCh s) = mset (List.map_filter snd ended)"
    using assms unfolding mainInv_def allEnded_def by auto
  have "list_all2 (runOne P) (map fst ended) (map snd ended)"
    using e(2) by (auto simp: list_all2_conv_all_nth)
  from list_all2_reorder_left_invariance [OF this e(1)] obtain rs
    where rs: "list_all2 (runOne P) cfgs rs" "mset rs = mset (map snd ended)" by blast
  from rs(2) have "mset (List.map_filter id rs) = mset (List.map_filter id (map snd ended))"
    by (metis List.map_filter_def mset_filter mset_map)
  moreover have "List.map_filter id (map snd ended) = List.map_filter snd ended"
    by (simp add: List.map_filter_def filter_map comp_def)
  ultimately show ?thesis using rs(1) e(3) by auto
qed

lemma Parsed_modes:
  assumes "ParseAll hasKey args = Inr cfgs" "cfg \<in> set cfgs" "\<not> asksText cfgs"
  shows "wfConfig cfg \<and> Mode cfg \<noteq> ModeHelp \<and> Mode cfg \<noteq> ModeVersion"
proof -
  obtain i where i: "i < length cfgs" "cfg = cfgs ! i" using assms(2) by (auto simp: in_set_conv_nth)
  have p: "list_all2 (\<lambda>g c. Parse hasKey g = Inr c) (splitArgGroups args) cfgs"
      "length (splitArgGroups args) = 1 \<or> list_all (\<lambda>c. Mode c \<noteq> ModeHelp \<and> Mode c \<noteq> ModeVersion) cfgs"
    using assms(1) unfolding ParseAll_Inr_iff by blast+
  from p(1) i have "Parse hasKey (splitArgGroups args ! i) = Inr cfg" by (simp add: list_all2_conv_all_nth)
  then have "wfConfig cfg" by (rule Parse_wfConfig)
  moreover have "length cfgs = 1 \<Longrightarrow> cfgs = [cfg]" using assms(2) by (cases cfgs) auto
  ultimately show ?thesis
    using p assms(2,3) by (auto simp: list_all_iff asksText_def dest: list_all2_lengthD)
qed

section \<open>Properties\<close>

text \<open>C4. The whole command. A result of \<open>run\<close> is the parser's error; or nil, when the usage or version
  text was asked for and printed, or every configuration's server returned nil; or the errors of the servers that failed, each once and no
  other, in some order. Whenever servers are run, with or without an error in the end, every configuration
  that is run is well formed and names a server: the help and version modes never reach \<open>relay.Run\<close>. The
  exit status is 0 exactly for nil.\<close>

theorem main_outcome:
  assumes "run P args out"
  shows "(exitCode out = 0 \<longleftrightarrow> (\<exists>s. out = RunNil s)) \<and>
    (case out of
       ParseFailed e \<Rightarrow> ParseAll (embeddedKey P) args = Inl e
     | RunNil s \<Rightarrow> (\<exists>cfgs. ParseAll (embeddedKey P) args = Inr cfgs \<and>
          ((\<exists>c. cfgs = [c] \<and> (Mode c = ModeHelp \<and> s = Usage @ [CHR 0x0A] \<or> Mode c = ModeVersion \<and> s = ''gopr version '' @ p_version P @ [CHR 0x0A])) \<or>
           s = '''' \<and> (\<forall>c \<in> set cfgs. runOne P c None \<and> wfConfig c \<and> Mode c \<noteq> ModeHelp \<and> Mode c \<noteq> ModeVersion)))
     | Joined es \<Rightarrow> es \<noteq> [] \<and> (\<exists>cfgs rs. ParseAll (embeddedKey P) args = Inr cfgs \<and> list_all2 (runOne P) cfgs rs \<and>
          mset es = mset (List.map_filter id rs) \<and>
          (\<forall>c \<in> set cfgs. wfConfig c \<and> Mode c \<noteq> ModeHelp \<and> Mode c \<noteq> ModeVersion)))"
  using assms
proof cases
  case (started cfgs s)
  obtain rs where rs: "list_all2 (runOne P) cfgs rs" "mset (ms_errCh s) = mset (List.map_filter id rs)"
    using mainInv_results [OF mainReach_inv [OF started(4) mainInit_inv] started(5)] by blast
  note modes = Parsed_modes [OF started(2) _ started(3)]
  show ?thesis
  proof (cases "ms_errCh s = []")
    case True
    with rs(2) have "\<forall>r \<in> set rs. r = None" by (auto simp: List.map_filter_def filter_empty_conv)
    with rs(1) have "\<forall>c \<in> set cfgs. runOne P c None"
      by (auto simp: list_all2_conv_all_nth in_set_conv_nth) (metis nth_mem)
    with True started modes show ?thesis by (simp add: errorsJoin_def exitCode_def)
  next
    case False
    with started rs modes show ?thesis by (auto simp: errorsJoin_def exitCode_def)
  qed
qed (auto simp: exitCode_def asksText_def)

text \<open>C26. The goroutines of \<open>run\<close> never block on the error channel: in every state they can reach, whatever
  the other goroutines have sent, a goroutine with an error to send can send it at once. So from every such
  state \<open>wg.Wait\<close> can be reached, if the servers that still run return; and every step brings it closer.\<close>

theorem main_never_blocks:
  assumes "mainReach P (mainInit cfgs) s"
  shows "(\<forall>xs e ys. ms_sending s = xs @ e # ys \<longrightarrow> mainStep P s (s\<lparr>ms_sending := xs @ ys, ms_errCh := ms_errCh s @ [e]\<rparr>)) \<and>
    ((\<forall>c \<in> set (ms_running s). \<exists>r. runOne P c r) \<longrightarrow> (\<exists>t. mainReach P s t \<and> allEnded t)) \<and>
    (\<forall>t. mainStep P s t \<longrightarrow> 2 * length (ms_running t) + length (ms_sending t) < 2 * length (ms_running s) + length (ms_sending s))"
proof (intro conjI allI impI)
  note inv = mainReach_inv [OF assms mainInit_inv]
  show "ms_sending s = xs @ e # ys \<Longrightarrow> mainStep P s (s\<lparr>ms_sending := xs @ ys, ms_errCh := ms_errCh s @ [e]\<rparr>)" for xs e ys
    by (rule mainStep_sends [OF inv])
  show "\<forall>c \<in> set (ms_running s). \<exists>r. runOne P c r \<Longrightarrow> \<exists>t. mainReach P s t \<and> allEnded t"
    using mainReach_end [OF inv] by blast
  show "mainStep P s t \<Longrightarrow> 2 * length (ms_running t) + length (ms_sending t) < 2 * length (ms_running s) + length (ms_sending s)" for t
    by (erule mainStep.cases) auto
qed

section \<open>A concrete run\<close>

text \<open>A SOCKS proxy whose port is in use.\<close>

definition demoProg :: prog_env where
  "demoProg = \<lparr>p_relay = demoBusy, p_httpServe = (\<lambda>c. \<lparr>hs_rt = (\<lambda>rt i q. Inl (OtherErr ''x'')), hs_dialText = (\<lambda>e. ''e''), hs_errText = (\<lambda>e. ''e''), hs_requests = [], hs_end = ErrServerClosed\<rparr>), p_socksListen = (\<lambda>c. Inl (OtherErr ''in use'')),
     p_errText = (\<lambda>e. ''err''), p_version = ''dev''\<rparr>"

lemma demoProg_parsed: "\<exists>cfg. ParseAll hasKey [''socks'', ''1080''] = Inr [cfg] \<and> Mode cfg = ModeSOCKSProxy"
proof -
  have "case ParseAll (\<lambda>_. Inr False) [''socks'', ''1080''] of Inr [c] \<Rightarrow> Mode c = ModeSOCKSProxy | _ \<Rightarrow> False" by code_simp
  moreover have "ParseAll hasKey [''socks'', ''1080''] = ParseAll (\<lambda>_. Inr False) [''socks'', ''1080'']"
  proof -
    have "\<And>h. ParseAll h [''socks'', ''1080''] = (case Parse h [''socks'', ''1080''] of Inl e \<Rightarrow> Inl (SingleError e) | Inr cfg \<Rightarrow> Inr [cfg])"
      by (simp add: ParseAll_def splitArgGroups_def)
    moreover have "\<And>h. Parse h [''socks'', ''1080''] = parseProxy initOptions ModeSOCKSProxy '''' ''1080''"
    proof -
      fix h
      have "classifyProxyTarget ''socks'' = Proxy ModeSOCKSProxy ''''" by code_simp
      moreover have "extractOptions [''socks'', ''1080''] = Inr (initOptions, [''socks'', ''1080''])"
        by (rule extractOptions_plain) simp
      ultimately show "Parse h [''socks'', ''1080''] = parseProxy initOptions ModeSOCKSProxy '''' ''1080''"
        by (simp add: Parse_def initOptions_def)
    qed
    ultimately show ?thesis by simp
  qed
  ultimately show ?thesis by (auto split: sum.splits list.splits)
qed

lemma demoProg_fails: "Mode cfg = ModeSOCKSProxy \<Longrightarrow> runOne demoProg cfg (Some (SocksFailed (OtherErr ''in use'')))"
  using socks [of cfg demoProg "[]" "[]" "Some (OtherErr ''in use'')"] by (simp add: RunSOCKS_def demoProg_def Let_def)

text \<open>Two such proxies: both fail, and both errors wait to be sent.\<close>

lemma demoProg_sending:
  assumes "Mode cfg = ModeSOCKSProxy"
  shows "mainReach demoProg (mainInit [cfg]) ((mainInit [cfg])\<lparr>ms_running := [], ms_sending := [SocksFailed (OtherErr ''in use'')]\<rparr>)"
    "mainReach demoProg (mainInit [cfg, cfg]) ((mainInit [cfg, cfg])\<lparr>ms_running := [], ms_sending := [SocksFailed (OtherErr ''in use''), SocksFailed (OtherErr ''in use'')]\<rparr>)"
proof -
  note f = demoProg_fails [OF assms]
  show "mainReach demoProg (mainInit [cfg]) ((mainInit [cfg])\<lparr>ms_running := [], ms_sending := [SocksFailed (OtherErr ''in use'')]\<rparr>)"
    using mainReach.step [OF mainReach.refl returns_err [of "mainInit [cfg]" "[]" cfg "[]", OF _ f]] by (simp add: mainInit_def)
  have 1: "mainReach demoProg (mainInit [cfg, cfg]) ((mainInit [cfg, cfg])\<lparr>ms_running := [cfg], ms_sending := [SocksFailed (OtherErr ''in use'')]\<rparr>)"
    using mainReach.step [OF mainReach.refl returns_err [of "mainInit [cfg, cfg]" "[]" cfg "[cfg]", OF _ f]] by (simp add: mainInit_def)
  show "mainReach demoProg (mainInit [cfg, cfg]) ((mainInit [cfg, cfg])\<lparr>ms_running := [], ms_sending := [SocksFailed (OtherErr ''in use''), SocksFailed (OtherErr ''in use'')]\<rparr>)"
    using mainReach.step [OF 1 returns_err [of _ "[]" cfg "[]", OF _ f]] by simp
qed

lemma demoProg_step:
  assumes "Mode cfg = ModeSOCKSProxy"
  shows "mainReach demoProg (mainInit [cfg]) \<lparr>ms_running = [], ms_sending = [], ms_errCh = [SocksFailed (OtherErr ''in use'')], ms_cap = 1\<rparr>"
  using mainReach.step [OF demoProg_sending(1) [OF assms] sends [of _ "[]" _ "[]"]] by (simp add: mainInit_def)

theorem main_outcome_witness:
  "\<exists>cfgs rs. ParseAll (embeddedKey demoProg) [''socks'', ''1080''] = Inr cfgs \<and> list_all2 (runOne demoProg) cfgs rs \<and>
     mset [SocksFailed (OtherErr ''in use'')] = mset (List.map_filter id rs)"
proof -
  obtain cfg where c: "ParseAll (embeddedKey demoProg) [''socks'', ''1080''] = Inr [cfg]" "Mode cfg = ModeSOCKSProxy"
    using demoProg_parsed by blast
  have "run demoProg [''socks'', ''1080''] (Joined [SocksFailed (OtherErr ''in use'')])"
    using started [OF c(1) _ demoProg_step [OF c(2)]] c(2) by (simp add: errorsJoin_def asksText_def allEnded_def)
  from main_outcome [OF this] show ?thesis by auto
qed

theorem main_never_blocks_witness:
  "\<exists>cfg s. mainReach demoProg (mainInit [cfg, cfg]) s \<and> length (ms_sending s) = 2 \<and> (\<exists>t. mainReach demoProg s t \<and> allEnded t)"
proof -
  obtain cfg :: Config where c: "Mode cfg = ModeSOCKSProxy" using demoProg_parsed [of "\<lambda>_. Inr False"] by blast
  let ?s = "(mainInit [cfg, cfg])\<lparr>ms_running := [], ms_sending := [SocksFailed (OtherErr ''in use''), SocksFailed (OtherErr ''in use'')]\<rparr>"
  note r = demoProg_sending(2) [OF c]
  have "\<exists>t. mainReach demoProg ?s t \<and> allEnded t" using main_never_blocks [OF r] by simp
  with r show ?thesis by (intro exI [of _ cfg] exI [of _ ?s]) simp
qed

end
