(* ===== verification/Proxy_Chain.thy ===== *)
theory Proxy_Chain
  imports Socks_Server Http_Server
begin

text \<open>
  Two instances of the program in a chain: the upstream of the first is the HTTP proxy of the second.
\<close>

section \<open>Dialling through a proxy of this program\<close>

text \<open>The upstream client against the answer that \<open>handleConnect\<close> writes.\<close>

lemma dialHTTP_established:
  assumes "e_dial env 0 upstream = Inr u" "openConn u" "rd_data u = established @ down"
    and "e_encode env (connectRequest target (if User auth \<noteq> '''' then basicAuth auth else '''')) = Inr req"
    and "e_decode env (established @ down) = (Inr resp, down)" "res_StatusCode resp = 200"
  shows "dialHTTP env upstream target auth = (Inr (u\<lparr>wr_log := wr_log u @ req, rd_data := down\<rparr>, False), [])"
  using assms
  by (simp add: dialHTTP_def dialUpstreamConnect_def connectAttempt_def Let_def conn_write_def openConn_def StatusOK_def bc_stream_def)

text \<open>C15. A chain of two instances. A SOCKS client of the first, which is chained to the HTTP proxy of the
  second with or without credentials, reaches a target of the second: when the request the first one
  encodes is read by \<open>net/http\<close> at the second with its host and nothing lost behind it, and the second's
  200 line is read by \<open>http.ReadResponse\<close> at the first, the client receives the two SOCKS answers and
  then exactly what the target sends; the target receives exactly what the client sent after its SOCKS
  request; the link carries the CONNECT request and the client's stream in one direction, the 200 line
  and the target's stream in the other; and all connections of both instances end up closed.\<close>

theorem proxy_chain_end_to_end:
  assumes "freshDials A" "fairChop A" "freshDials B" "fairChop B"
    and client: "openConn c" "rd_data c = greeting ms @ requestBytes (host, p) @ up" "length ms \<le> 255" "socksAuthNone \<in> set ms" "hostFits host"
    and target: "target = JoinHostPort (canonHost host) (Itoa (unat p))" "connectBackend B upB kindB authB target = (Inr (dst, hc), others)" "openConn dst"
    and link: "upstream \<noteq> ''''" "e_dial A 0 upstream = Inr u" "openConn u" "wr_log u = []" "openConn v" "wr_log v = []" "rd_data v = up"
    and http: "e_encode A (connectRequest target (if User auth \<noteq> '''' then basicAuth auth else '''')) = Inr req" "req_Host r = target"
      "\<And>rest. e_decode A (established @ rest) = (Inr resp, rest)" "res_StatusCode resp = 200"
  shows "\<exists>tB sB dB. handleConnect B errText lB upB kindB authB r (Hijacked v) = Some tB \<and> tunnelClosed tB \<and>
     tun_src tB = Some sB \<and> wr_log sB = established @ rd_data dst \<and> tun_dst tB = Some dB \<and> wr_log dB = wr_log dst @ up \<and>
     (rd_data u = wr_log sB \<longrightarrow>
       (\<exists>sA uA. handleSOCKSConn A lA upstream ModeHTTPProxy auth remote c = Some sA \<and> sessionClosed sA \<and>
          ses_dst sA = Some uA \<and> wr_log uA = req @ up \<and>
          wr_log (ses_client sA) = wr_log c @ [5, 0] @ replyBytes 0 @ rd_data dst))"
proof -
  have B: "connectBackend B upB kindB authB (req_Host r) = (Inr (dst, hc), others)" using target http by simp
  have A: "\<exists>sA uA. handleSOCKSConn A lA upstream ModeHTTPProxy auth remote c = Some sA \<and> sessionClosed sA \<and>
      ses_dst sA = Some uA \<and> wr_log uA = req @ up \<and> wr_log (ses_client sA) = wr_log c @ [5, 0] @ replyBytes 0 @ rd_data dst"
    if "rd_data u = established @ rd_data dst"
  proof -
    have "socksBackend A upstream ModeHTTPProxy auth (JoinHostPort (canonHost host) (Itoa (unat p))) =
        (Inr (u\<lparr>wr_log := req, rd_data := rd_data dst\<rparr>, False), [])"
      using dialHTTP_established [OF link(2,3) that http(1,3,4)] link(1,4) target(1) by (simp add: socksBackend_def)
    from socks_session_relays [OF assms(1,2) client this] link(3) show ?thesis by fastforce
  qed
  from handleConnect_relays [OF assms(3,4) link(5) target(3) B, of errText lB] link(6,7) A show ?thesis by fastforce
qed

definition demoLink :: "byte list \<Rightarrow> net_env" where
  "demoLink d = (demoEnv (established @ d))\<lparr>e_decode :=
     \<lambda>bs. (Inr \<lparr>res_StatusCode = 200, res_Status = '''', res_Header = (\<lambda>_. None), res_Body = []\<rparr>, drop (length established) bs)\<rparr>"

theorem proxy_chain_end_to_end_witness:
  "\<exists>sA uA. handleSOCKSConn (demoLink [8]) None ''b:3128'' ModeHTTPProxy zeroForwardAuth ''1.2.3.4:5''
       (peer (greeting [0] @ requestBytes (''h'', 80) @ [9])) = Some sA \<and> sessionClosed sA \<and>
     ses_dst sA = Some uA \<and> wr_log uA = [1, 9] \<and> wr_log (ses_client sA) = [5, 0] @ replyBytes 0 @ [8]"
proof -
  let ?t = "JoinHostPort (canonHost ''h'') (Itoa (unat (80 :: 16 word)))" and ?c = "peer (greeting [0] @ requestBytes (''h'', 80) @ [9])"
    and ?resp = "\<lparr>res_StatusCode = 200, res_Status = '''', res_Header = (\<lambda>_. None), res_Body = []\<rparr>"
  have env: "freshDials (demoLink d)" "fairChop (demoLink d)" for d
    by (simp_all add: demoLink_def demoEnv_def freshDials_def fairChop_def)
  have t: "connectBackend (demoEnv [8]) '''' ModeHTTPProxy zeroForwardAuth ?t = (Inr (peer [8], True), [])"
    by (simp add: connectBackend_def dialDirect_def demoEnv_def)
  have "\<exists>tB sB dB. handleConnect (demoEnv [8]) (\<lambda>e. '''') None '''' ModeHTTPProxy zeroForwardAuth (connectRequest ?t '''') (Hijacked (peer [9])) = Some tB \<and> tunnelClosed tB \<and>
     tun_src tB = Some sB \<and> wr_log sB = established @ rd_data (peer [8]) \<and> tun_dst tB = Some dB \<and> wr_log dB = wr_log (peer [8]) @ [9] \<and>
     (rd_data (peer (established @ [8])) = wr_log sB \<longrightarrow>
       (\<exists>sA uA. handleSOCKSConn (demoLink [8]) None ''b:3128'' ModeHTTPProxy zeroForwardAuth ''1.2.3.4:5'' ?c = Some sA \<and> sessionClosed sA \<and>
          ses_dst sA = Some uA \<and> wr_log uA = [1] @ [9] \<and> wr_log (ses_client sA) = wr_log ?c @ [5, 0] @ replyBytes 0 @ rd_data (peer [8])))"
    by (rule proxy_chain_end_to_end [OF env demoEnv_ok _ _ _ _ _ refl t, where ms = "[0]" and resp = ?resp])
      (simp_all add: hostFits_def wire_defs zeroForwardAuth_def connectRequest_def, simp_all add: demoLink_def demoEnv_def)
  then show ?thesis by auto
qed

end
