(* ===== verification/Spec2Isabelle.thy ===== *)
theory Spec2Isabelle
  imports Gopr_Main Digest_Props Proxy_Chain
begin

text \<open>
  \<^bold>\<open>gopr, a TCP/UDP port forwarder and proxy.\<close> The program (\<open>cmd/gopr/main.go\<close>) parses its command line into
  one configuration per \<open>--\<close>-separated group (\<open>internal/config\<close>) and runs each: a relay between a listen
  and a target address (\<open>internal/relay\<close>), over TCP, UDP or both, with TLS or DTLS on either side
  (\<open>internal/tlsutil\<close>); an HTTP proxy or a SOCKS5 proxy (\<open>internal/proxy\<close>), direct or chained to an
  upstream proxy of either kind, with Basic, Digest or username/password credentials. All of them log and
  copy streams through \<open>internal/logx\<close>.

  \<^bold>\<open>Conventions.\<close> A Go function that returns \<open>(T, error)\<close> is a sum, the error on the left, one constructor
  per error of the source. Strings and bytes are lists; ports and bytes are words where they wrap. Sequential
  code is a function; goroutines that share state are a step relation, with the reachable states defined
  inductively. A loop that may not end is \<open>partial_function (option)\<close>, a function on the sequence of results
  of its reads (no result while the sequence has not ended), or a run of steps. What lies outside the sources
  is an argument: the network and its peers (a \<open>conn\<close> is described by what its peer does), the clock, the
  randomness, the file system, X.509, PEM, the DTLS library and the internals of \<open>net/http\<close>. Go's string,
  address, hex, base64 and MD5 functions are defined.

  \<^bold>\<open>The theories\<close>, in the order of their imports:
  \<^item> \<open>Gopr_Prelude\<close>, \<open>Go_Strings\<close>, \<open>Go_Net\<close>, \<open>Go_IP\<close>, \<open>Go_Encoding\<close>, \<open>Go_MD5\<close>, \<open>Go_Conn\<close>: results, bytes, the
    library functions the sources call, and connections.
  \<^item> \<open>Config_Types\<close>, \<open>Config_Options\<close>, \<open>Config_Address\<close>, \<open>Config_Parse\<close>, \<open>Config_Props\<close>, \<open>Config_Usage\<close>: \<open>config.go\<close> and
    \<open>parse.go\<close>. The walk over the options refines a declarative reading of the blocks; what \<open>Parse\<close> returns is well formed
    (\<open>wfConfig\<close>); the accepted suffixes and TLS combinations in closed form; the usage text names every option.
  \<^item> \<open>Logx\<close>, \<open>Pipe\<close>: the logger, \<open>Copy\<close>, and the relay of two connections (\<open>pipeConn\<close> of \<open>tcp.go\<close>, \<open>pipeSOCKS\<close> of
    \<open>socks.go\<close>, the tunnel of \<open>http.go\<close>) as two interleaved goroutines: results independent of the schedule,
    termination.
  \<^item> \<open>Socks_Wire\<close>, \<open>Socks_Props\<close>, \<open>Socks_Server\<close>: \<open>socks.go\<close>. The frames of the server and of the upstream client
    fit together; the client leaks neither connections nor credentials; a session end to end; the listener.
  \<^item> \<open>Digest\<close>, \<open>Digest_Props\<close>: \<open>digest.go\<close>. Challenges parse back; the answer is the RFC 2617 response on one line.
  \<^item> \<open>Http_Upstream\<close>, \<open>Proxy_Base\<close>, \<open>Http_Server\<close>: \<open>http.go\<close>. The upstream CONNECT, the authenticating transport,
    the choice of a backend, CONNECT tunnels and plain forwarding; who reads the upstream's credentials: the upstream
    for an http URL, but the host of the URL for an https one (\<open>TunnelRoute\<close>), as \<open>net/http\<close> documents.
  \<^item> \<open>Proxy_Chain\<close>: a SOCKS client reaching a target through two instances of the program in a chain.
  \<^item> \<open>Fairness\<close>, \<open>Listener\<close>: fair executions of a system of goroutines; an accept loop with the goroutine that closes
    its listener once the context is cancelled (\<open>serveTCP\<close>, \<open>serveUDPDTLS\<close>, \<open>RunSOCKS\<close>).
  \<^item> \<open>Relay_UDP\<close>, \<open>Relay_UDP_Delivery\<close>: the sessions of \<open>udp.go\<close>: the receive loop, a reply goroutine per session, the reaper
    and the goroutine that closes the socket as interleaved steps, with 64-bit counters; table, traffic and counter invariants; refinement of an abstract translation table;
    the datagrams of each session, in order and uncrossed, over the histories \<open>u_fromClient\<close> and \<open>u_fromTarget\<close>.
  \<^item> \<open>Tlsutil\<close>, \<open>Tlsutil_Props\<close>: \<open>tlsutil.go\<close> and \<open>dtls.go\<close>: loading, the six configurations, the MITM signer and its
    cache.
  \<^item> \<open>Relay\<close>, \<open>Relay_Props\<close>, \<open>Relay_Run\<close>: \<open>relay.go\<close>, \<open>tcp.go\<close> and the DTLS half of \<open>udp.go\<close>: configurations from a
    parsed command line, connections end to end, and \<open>Run\<close> with its goroutines, the listeners' own steps,
    channel, wait group and \<open>select\<close>: what it may return, and that it returns after a cancellation.
  \<^item> \<open>Gopr_Main\<close>: \<open>main.go\<close>, with the goroutines of the configurations and their channel. This theory: what holds from the command line to the servers.

  \<^bold>\<open>Interfaces\<close> are locales, interpreted on the model's own definitions: \<open>conn_handler\<close> and \<open>closing_handler\<close>
  (what an accept loop relies on), \<open>server_config\<close> (client certificates, for the four server configurations),
  \<open>write_once\<close> (the leaf cache), \<open>simulation\<close> (the UDP refinement), \<open>settling\<close> (a system that comes to rest, for a
  cancelled listener and for a cancelled \<open>Run\<close>), the writers that \<open>Copy\<close> runs on, the SOCKS
  frames, and the options of a block.

  \<^bold>\<open>Bounds.\<close> Buffers and timeouts are those of the source (64 KiB datagrams, 2 minutes, 46 days, 2048 bits). The
  IPv6 parser's loop of eight turns is the source's. A relay takes at most as many turns
  as its two sources have reads. There is no fuel.

  \<^bold>\<open>Not modelled:\<close> the text of the errors (their values are), the 5-second grace of
  \<open>srv.Shutdown\<close>, dial timeouts (a dial that times out is one that fails), the content of TLS handshakes, the
  order in which concurrent log lines come out, the build files and the tests. The goroutine that calls
  \<open>srv.Shutdown\<close> appears as the end of \<open>ListenAndServe\<close> with \<open>ErrServerClosed\<close>. Streams (TCP, TLS and DTLS) are
  taken to end; a plaintext UDP target is not (\<open>silentTarget\<close>). A datagram is written to a socket whole or not at all. The laws asked of \<open>net/http\<close> in \<open>Proxy_Chain\<close>
  (it reads back a request and the 200 line) are hypotheses. The parser's key lookup is an argument of \<open>Parse\<close>, instantiated with \<open>HasEmbeddedKey\<close> in
  \<open>Gopr_Main\<close>.

  \<^bold>\<open>What the model showed.\<close> \<open>forward_https_leaks\<close> (the upstream's credentials go to the origin of an https URL),
  \<open>handleUDPDTLSConn_hangs\<close> (a DTLS connection to a plaintext UDP target is never closed), \<open>udp_stop_leaks\<close> (session
  sockets outlive \<open>serveUDP\<close>), \<open>Run_may_lose_error\<close>, \<open>udp_silent_session\<close>, \<open>mitm_cache_stable\<close> (a leaf outlives its
  validity), \<open>tunnel_never_half_closes\<close>, \<open>connection_named_header_forwarded\<close>, \<open>socksConnectRequest_port_truncated\<close> and
  \<open>digest_quoted_pair_rejected\<close> state behaviour that the code has and its comments or standards do not intend.
\<close>

section \<open>From the command line to the relay\<close>

text \<open>What stands behind a forwarding configuration that was parsed.\<close>

lemma Parse_forwardD:
  assumes "Parse hasKey args = Inr cfg" "Mode cfg = ModeForward"
  obtains opts rest t l where "extractOptions args = Inr (opts, rest)" "cfg = forwardConfig opts t l"
    "validateSSL hasKey opts (SSL (pe_ep l)) (pe_udp l \<and> SSL (pe_ep l)) (SSL (pe_ep t)) = Inr ()"
proof -
  have "parseProxy opts m up l = Inr cfg \<Longrightarrow> m = ModeHTTPProxy \<or> m = ModeSOCKSProxy \<Longrightarrow> Mode cfg \<noteq> ModeForward" for opts m up l
    using splitProxyListenSuffix_mode [of l]
    by (auto simp: parseProxy_def Let_def zeroConfig_def split: if_splits sum.splits option.splits)
  then have "parseProxy opts m up l \<noteq> Inr cfg" if "classifyProxyTarget t = Proxy m up" for opts m up l t
    using classifyProxyTarget_Proxy [OF that] assms(2) by blast
  then have "\<exists>opts rest t l. extractOptions args = Inr (opts, rest) \<and> parseForward hasKey opts t l = Inr cfg"
    using assms unfolding Parse_Inr_iff by (auto simp: zeroConfig_def split: if_splits)
  then show thesis using that unfolding parseForward_Inr by blast
qed

lemma verify_default:
  assumes "extractOptions args = Inr (opts, rest)" "''-verify=0'' \<notin> set args"
  shows "s_verify (o_q opts)" "s_verify (o_z opts)" "m_verify (o_m opts)"
proof -
  from assms(1) obtain toks s' where w: "args = toks @ rest" "walk initOptions scopeNone toks opts s'"
    by (rule extractOptions_walk) blast
  have tok: "classifyTok t = TokSub SubVerify ''0'' \<Longrightarrow> t = ''-verify=0''" for t
    by (auto simp: classifyTok_def HasPrefix_iff TrimPrefix_def split: if_splits)
  have "''0'' \<notin> set (subValsFrom s SubVerify sc ts)" if "''-verify=0'' \<notin> set ts" for s sc ts
    using that
  proof (induction ts arbitrary: s)
    case (Cons t ts)
    then show ?case using tok [of t] by (cases "classifyTok t") auto
  qed simp
  then have "let vs = subValsFrom scopeNone SubVerify sc toks in vs = [] \<or> last vs \<noteq> ''0''" for sc
    using assms(2) w(1) unfolding Let_def by (metis UnI1 last_in_set set_append)
  then show "s_verify (o_q opts)" "s_verify (o_z opts)" "m_verify (o_m opts)"
    using q_verify.get_extract [OF w(2)] z_verify.get_extract [OF w(2)] m_verify.get_extract [OF w(2)] by blast+
qed

text \<open>C5. Verification is on unless it is switched off: with no \<open>-verify=0\<close> on the command line, the TLS and
  DTLS configurations towards the target check its certificate, and those of a listener with a client CA
  (the one of \<open>-M\<close> in MITM mode, of \<open>-Z\<close> otherwise) require a client certificate and verify it against
  exactly the certificates of that file.\<close>

theorem secure_by_default:
  assumes "Parse hasKey args = Inr cfg" "Mode cfg = ModeForward" "''-verify=0'' \<notin> set args"
    and "ca = (if mi_SignCAPath (MITM cfg) \<noteq> '''' then mi_CAPath (MITM cfg) else st_CAPath (ServerTLS cfg))"
  shows "(clientTLSConfig ce cfg = Inr tc \<longrightarrow> \<not> InsecureSkipVerify tc) \<and>
    (clientDTLSConfig ce cfg = Inr dc \<longrightarrow> \<not> d_InsecureSkipVerify dc) \<and>
    (serverTLSConfig ce cfg = Inr (st, signer) \<and> ca \<noteq> '''' \<longrightarrow>
       ClientAuth st = RequireAndVerifyClientCert \<and> (\<exists>pool. loadCAPool ce ca = Inr pool \<and> ClientCAs st = Some pool)) \<and>
    (serverDTLSConfig ce dr cfg = Inr sd \<and> ca \<noteq> '''' \<longrightarrow>
       d_ClientAuth sd = RequireAndVerifyClientCert \<and> (\<exists>pool. loadCAPool ce ca = Inr pool \<and> d_ClientCAs sd = Some pool))"
proof -
  obtain opts rest t l where p: "extractOptions args = Inr (opts, rest)" "cfg = forwardConfig opts t l"
    using Parse_forwardD [OF assms(1,2)] by metis
  note v = verify_default [OF p(1) assms(3)]
  have f: "ct_Verify (ClientTLS cfg)" "clientVerify cfg" using v by (simp_all add: p(2) forwardConfig_def clientVerify_def)
  then have tls: "clientTLSConfig ce cfg = Inr tc \<Longrightarrow> \<not> InsecureSkipVerify tc" for tc
    using clientTLSConfig_checks [of ce cfg tc] by (simp add: checksTarget_def)
  moreover have "clientDTLSConfig ce cfg = map_sum id toDTLS (clientTLSConfig ce cfg)"
    by (simp add: clientDTLSConfig_def clientTLSConfig_def Let_def ClientConfig_toDTLS)
  ultimately have "clientDTLSConfig ce cfg = Inr dc \<Longrightarrow> \<not> d_InsecureSkipVerify dc"
    by (cases "clientTLSConfig ce cfg") (auto simp: toDTLS_def)
  moreover have "ca = clientCAPath cfg" using assms(4) by (simp add: clientCAPath_def)
  ultimately show ?thesis using tls f serverTLS_clientAuth [of ce cfg st signer] serverDTLS_clientAuth [of ce dr cfg sd] by auto
qed

theorem secure_by_default_witness:
  "\<exists>cfg tc st signer. Parse (\<lambda>_. Inr True) [''-Z'', ''-cert=c'', ''-ca=a'', ''h:443/ssl'', ''8080/ssl''] = Inr cfg \<and>
     clientTLSConfig demoCrypto cfg = Inr tc \<and> \<not> InsecureSkipVerify tc \<and>
     serverTLSConfig demoCrypto cfg = Inr (st, signer) \<and> ClientAuth st = RequireAndVerifyClientCert"
proof -
  let ?args = "[''-Z'', ''-cert=c'', ''-ca=a'', ''h:443/ssl'', ''8080/ssl'']"
  have "case Parse (\<lambda>_. Inr True) ?args of Inl e \<Rightarrow> False
      | Inr c \<Rightarrow> Mode c = ModeForward \<and> ct_CertPath (ClientTLS c) = '''' \<and> ct_CAPath (ClientTLS c) = '''' \<and> mi_SignCAPath (MITM c) = '''' \<and>
          st_CertPath (ServerTLS c) = ''c'' \<and> st_KeyPath (ServerTLS c) = '''' \<and> st_CAPath (ServerTLS c) = ''a'' \<and> st_VerifyClient (ServerTLS c)" by code_simp
  then obtain cfg where c: "Parse (\<lambda>_. Inr True) ?args = Inr cfg" "Mode cfg = ModeForward"
      "ct_CertPath (ClientTLS cfg) = ''''" "ct_CAPath (ClientTLS cfg) = ''''" "mi_SignCAPath (MITM cfg) = ''''"
      "st_CertPath (ServerTLS cfg) = ''c''" "st_KeyPath (ServerTLS cfg) = ''''" "st_CAPath (ServerTLS cfg) = ''a''" "st_VerifyClient (ServerTLS cfg)"
    by (auto split: sum.splits)
  obtain tc where tc: "clientTLSConfig demoCrypto cfg = Inr tc"
    using c by (simp add: clientTLSConfig_def ClientConfig_def Let_def)
  obtain st where st: "serverTLSConfig demoCrypto cfg = Inr (st, None)"
    using c by (simp add: serverTLSConfig_def ServerConfig_def loadCertificate_def loadCAPool_def demoCrypto_def Let_def)
  have n: "''-verify=0'' \<notin> set ?args" by simp
  from secure_by_default [where ce = demoCrypto and tc = tc and st = st and signer = None, OF c(1,2) n HOL.refl] c tc st show ?thesis by auto
qed

lemma demoProg_keys: "embeddedKey demoProg = (\<lambda>p. if p = ''none'' then Inl ''err'' else Inr (p = ''both''))"
proof
  fix p
  have "keyLoop (ce_pemDecode demoCrypto) [1, 2] = Some True" "keyLoop (ce_pemDecode demoCrypto) [1] = Some False"
    by (simp_all add: demoCrypto_def keyLoop.simps)
  moreover have "r_crypto (p_relay demoProg) = demoCrypto" "p_errText demoProg e = ''err''" for e
    by (simp_all add: demoProg_def demoBusy_def demoRelay_def)
  moreover have "ce_ReadFile demoCrypto p = (if p = ''none'' then Inl (OtherErr ''not found'') else if p = ''both'' then Inr [1, 2] else Inr [1])"
    by (simp add: demoCrypto_def)
  ultimately show "embeddedKey demoProg p = (if p = ''none'' then Inl ''err'' else Inr (p = ''both''))"
    by (simp add: embeddedKey_def HasEmbeddedKey_def)
qed

text \<open>Certificates without a key file: when \<open>-cert=\<close> of either block is accepted without \<open>-key=\<close>, the
  file does contain a private key block, and \<open>loadCertificate\<close> reads the key from that same file.\<close>

theorem parsed_cert_has_key:
  assumes "pemShrinks (ce_pemDecode ce)" "ce = r_crypto (p_relay P)" "Parse (embeddedKey P) args = Inr cfg" "Mode cfg = ModeForward"
    and "(cert, key) = (st_CertPath (ServerTLS cfg), st_KeyPath (ServerTLS cfg)) \<or>
      (cert, key) = (ct_CertPath (ClientTLS cfg), ct_KeyPath (ClientTLS cfg))"
    and "cert \<noteq> ''''" "key = ''''"
  shows "HasEmbeddedKey ce cert = Some (Inr True) \<and>
    loadCertificate ce cert key = (case ce_LoadX509KeyPair ce cert cert of Inl e \<Rightarrow> Inl (LoadCertFailed cert cert e) | Inr c \<Rightarrow> Inr c)"
proof -
  obtain opts rest t l where p: "cfg = forwardConfig opts t l"
    "validateSSL (embeddedKey P) opts (SSL (pe_ep l)) (pe_udp l \<and> SSL (pe_ep l)) (SSL (pe_ep t)) = Inr ()"
    using Parse_forwardD [OF assms(3,4)] by metis
  from p(2) have "keyCertOk (embeddedKey P) (s_keyPath (o_q opts)) (s_certPath (o_q opts))"
      "keyCertOk (embeddedKey P) (s_keyPath (o_z opts)) (s_certPath (o_z opts))"
    unfolding validateSSL_ok by blast+
  with p(1) assms(5-7) have "embeddedKey P cert = Inr True"
    by (auto simp: keyCertOk_def forwardConfig_def)
  moreover obtain r where "HasEmbeddedKey ce cert = Some r" using HasEmbeddedKey_total [OF assms(1)] by blast
  ultimately have "HasEmbeddedKey ce cert = Some (Inr True)"
    using assms(2) by (cases r) (auto simp: embeddedKey_def)
  with assms(7) show ?thesis by (simp add: loadCertificate_def split: sum.split)
qed

theorem parsed_cert_has_key_witness:
  "\<exists>cfg. Parse (embeddedKey demoProg) [''-Z'', ''-cert=both'', ''h:80'', ''8443/ssl''] = Inr cfg \<and> st_CertPath (ServerTLS cfg) = ''both'' \<and>
     HasEmbeddedKey demoCrypto ''both'' = Some (Inr True)"
proof -
  have "case Parse (embeddedKey demoProg) [''-Z'', ''-cert=both'', ''h:80'', ''8443/ssl''] of Inl e \<Rightarrow> False
      | Inr c \<Rightarrow> Mode c = ModeForward \<and> st_CertPath (ServerTLS c) = ''both'' \<and> st_KeyPath (ServerTLS c) = ''''"
    unfolding demoProg_keys by code_simp
  then obtain cfg where c: "Parse (embeddedKey demoProg) [''-Z'', ''-cert=both'', ''h:80'', ''8443/ssl''] = Inr cfg" "Mode cfg = ModeForward"
      "st_CertPath (ServerTLS cfg) = ''both''" "st_KeyPath (ServerTLS cfg) = ''''"
    by (auto split: sum.splits)
  have "demoCrypto = r_crypto (p_relay demoProg)" by (simp add: demoProg_def demoBusy_def demoRelay_def)
  from parsed_cert_has_key [OF demoCrypto_shrinks this c(1,2), of "''both''" "''''"] c show ?thesis by simp
qed

text \<open>The promise that \<open>MITMServerConfigDTLS\<close> asks of its callers is kept: for a parsed configuration with
  a UDP listener it is never called without a server name.\<close>

theorem parsed_dtls_server_name:
  assumes "Parse hasKey args = Inr cfg" "Mode cfg = ModeForward" "UDP (Listen cfg)"
  shows "serverDTLSConfig ce dr cfg \<noteq> Inl ServerNameRequired"
proof -
  have "mi_SignCAPath (MITM cfg) \<noteq> '''' \<Longrightarrow> mi_ServerName (MITM cfg) \<noteq> ''''"
    using Parse_wfConfig [OF assms(1)] assms(2,3) by (simp add: wfConfig_def wfForward_def)
  then show ?thesis using serverDTLS_error [of ce dr cfg] by blast
qed

theorem parsed_dtls_server_name_witness:
  "\<exists>cfg. Parse (\<lambda>_. Inr False) [''-M'', ''-signca=ca.pem'', ''-servername=x'', ''h:1'', ''8888/udp/ssl''] = Inr cfg \<and>
     serverDTLSConfig demoCrypto (demoDraw 0) cfg \<noteq> Inl ServerNameRequired"
proof -
  have "case Parse (\<lambda>_. Inr False) [''-M'', ''-signca=ca.pem'', ''-servername=x'', ''h:1'', ''8888/udp/ssl''] of Inl e \<Rightarrow> False
      | Inr c \<Rightarrow> Mode c = ModeForward \<and> UDP (Listen c)" by code_simp
  then obtain cfg where c: "Parse (\<lambda>_. Inr False) [''-M'', ''-signca=ca.pem'', ''-servername=x'', ''h:1'', ''8888/udp/ssl''] = Inr cfg"
      "Mode cfg = ModeForward" "UDP (Listen cfg)"
    by (auto split: sum.splits)
  from parsed_dtls_server_name [OF c] c(1) show ?thesis by blast
qed

section \<open>From the command line to the proxies\<close>

text \<open>The two proxies reach a target in the same way: the SOCKS server and the CONNECT handler pick the
  backend with switches of opposite defaults, yet for every parsed proxy configuration they dial the
  same thing, directly, through an HTTP upstream or through a SOCKS upstream.\<close>

theorem parsed_backends_agree:
  assumes "Parse hasKey args = Inr cfg" "Mode cfg = ModeHTTPProxy \<or> Mode cfg = ModeSOCKSProxy"
  shows "socksBackend env (UpstreamAddr cfg) (UpstreamKind cfg) (ForwardAuth cfg) target =
    connectBackend env (UpstreamAddr cfg) (UpstreamKind cfg) (ForwardAuth cfg) target"
proof -
  have "UpstreamKind cfg = ModeHTTPProxy \<or> UpstreamKind cfg = ModeSOCKSProxy"
    using Parse_wfConfig [OF assms(1)] assms(2) by (auto simp: wfConfig_def wfProxy_def)
  then show ?thesis by (auto simp: socksBackend_def connectBackend_def)
qed

theorem parsed_backends_agree_witness:
  "\<exists>cfg. Parse (\<lambda>_. Inr False) [''192.0.2.11:7777/socks'', ''8888/proxy''] = Inr cfg \<and>
     socksBackend (demoEnv []) (UpstreamAddr cfg) (UpstreamKind cfg) (ForwardAuth cfg) ''h:1'' =
     connectBackend (demoEnv []) (UpstreamAddr cfg) (UpstreamKind cfg) (ForwardAuth cfg) ''h:1''"
proof -
  have "case Parse (\<lambda>_. Inr False) [''192.0.2.11:7777/socks'', ''8888/proxy''] of Inl e \<Rightarrow> False
      | Inr c \<Rightarrow> Mode c = ModeHTTPProxy \<or> Mode c = ModeSOCKSProxy" by code_simp
  then obtain cfg where c: "Parse (\<lambda>_. Inr False) [''192.0.2.11:7777/socks'', ''8888/proxy''] = Inr cfg"
      "Mode cfg = ModeHTTPProxy \<or> Mode cfg = ModeSOCKSProxy"
    by (auto split: sum.splits)
  from parsed_backends_agree [OF c] c(1) show ?thesis by blast
qed

end
